(* ===== verification/Kite_Prelude.thy ===== *)
theory Kite_Prelude
  imports Main "HOL-Library.Word" "HOL-Library.List_Lexorder" "HOL-Library.Multiset"
begin

unbundle bit_operations_syntax

text \<open>
  Shared vocabulary of the development: bytes and byte strings, Rust's \<open>std::cmp::Ordering\<close>,
  the error values of \<open>src/src/errors.rs\<close>, the result type with its bind operation, fixed-width
  big- and little-endian integer encodings, and the lexicographic order on byte strings (Rust's
  order on \<open>[u8]\<close>), with the lemmas the component theories use.
\<close>

named_theorems codec_simps \<open>unfolding rules of the byte encoders\<close>
named_theorems cmp_simps \<open>three-way comparison\<close>
named_theorems result_simps \<open>the result type\<close>

section \<open>Bytes\<close>

type_synonym byte = "8 word"
type_synonym bytes = "byte list"

text \<open>A Rust \<open>String\<close> is its UTF-8 bytes; its order and its \<open>len\<close> are those of the bytes.\<close>

type_synonym rstring = bytes

section \<open>Three-way comparison\<close>

datatype ordering = Less | Equal | Greater

fun reverse_ord :: "ordering \<Rightarrow> ordering" where
  "reverse_ord Less = Greater"
| "reverse_ord Equal = Equal"
| "reverse_ord Greater = Less"

fun then_ord :: "ordering \<Rightarrow> ordering \<Rightarrow> ordering" where
  "then_ord Equal b = b"
| "then_ord Less b = Less"
| "then_ord Greater b = Greater"

definition cmp_of :: "'a::linorder \<Rightarrow> 'a \<Rightarrow> ordering" where
  "cmp_of a b = (if a < b then Less else if a = b then Equal else Greater)"

lemma cmp_of_iff [simp, cmp_simps]:
  "cmp_of a b = Less \<longleftrightarrow> a < b"
  "cmp_of a b = Equal \<longleftrightarrow> a = b"
  "cmp_of a b = Greater \<longleftrightarrow> b < a"
  by (auto simp: cmp_of_def)

lemma cmp_of_sym [cmp_simps]: "cmp_of b a = reverse_ord (cmp_of a b)"
  by (auto simp: cmp_of_def)

lemma reverse_reverse_ord [simp]: "reverse_ord (reverse_ord c) = c"
  by (cases c) auto

section \<open>Results\<close>

text \<open>
  A Rust \<open>Result<A, E>\<close> is a value of the sum type \<open>'e + 'a\<close>; the \<open>?\<close> operator is \<open>res_bind\<close>.
\<close>

abbreviation Err :: "'e \<Rightarrow> 'e + 'a" where
  "Err \<equiv> Inl"

abbreviation Ok :: "'a \<Rightarrow> 'e + 'a" where
  "Ok \<equiv> Inr"

fun res_bind :: "'e + 'a \<Rightarrow> ('a \<Rightarrow> 'e + 'b) \<Rightarrow> 'e + 'b" where
  "res_bind (Inl e) f = Inl e"
| "res_bind (Inr x) f = f x"

fun res_map :: "('a \<Rightarrow> 'e + 'b) \<Rightarrow> 'a list \<Rightarrow> 'e + 'b list" where
  "res_map f [] = Ok []"
| "res_map f (x # xs) = res_bind (f x) (\<lambda>y. res_bind (res_map f xs) (\<lambda>ys. Ok (y # ys)))"

fun res_fold :: "('s \<Rightarrow> 'a \<Rightarrow> 'e + 's) \<Rightarrow> 's \<Rightarrow> 'a list \<Rightarrow> 'e + 's" where
  "res_fold f s [] = Ok s"
| "res_fold f s (x # xs) = res_bind (f s x) (\<lambda>s'. res_fold f s' xs)"

lemma res_bind_Ok_iff [result_simps]:
  "res_bind m f = Ok y \<longleftrightarrow> (\<exists>x. m = Ok x \<and> f x = Ok y)"
  by (cases m) auto

lemma res_bind_Err_iff [result_simps]:
  "res_bind m f = Err e \<longleftrightarrow> m = Err e \<or> (\<exists>x. m = Ok x \<and> f x = Err e)"
  by (cases m) auto

lemma res_map_Ok_iff [result_simps]:
  "res_map f xs = Ok ys \<longleftrightarrow> list_all2 (\<lambda>x y. f x = Ok y) xs ys"
  by (induction xs arbitrary: ys) (auto simp: res_bind_Ok_iff list_all2_Cons1)

lemma res_map_cong [fundef_cong]:
  "xs = ys \<Longrightarrow> (\<And>x. x \<in> set ys \<Longrightarrow> f x = g x) \<Longrightarrow> res_map f xs = res_map g ys"
  by (induction xs arbitrary: ys) auto

lemma res_bind_cong [fundef_cong]:
  "m = m' \<Longrightarrow> (\<And>x. m' = Inr x \<Longrightarrow> f x = g x) \<Longrightarrow> res_bind m f = res_bind m' g"
  by (cases m') auto

lemma res_fold_append [simp]:
  "res_fold f s (xs @ ys) = res_bind (res_fold f s xs) (\<lambda>s'. res_fold f s' ys)"
proof (induction xs arbitrary: s)
  case (Cons x xs)
  then show ?case by (cases "f s x") auto
qed simp

text \<open>\<open>Result::map\<close>, \<open>Option::ok_or\<close>, and a fallible function under an \<open>Option\<close>.\<close>

fun map_res :: "('a \<Rightarrow> 'b) \<Rightarrow> 'e + 'a \<Rightarrow> 'e + 'b" where
  "map_res f (Inl e) = Err e"
| "map_res f (Inr x) = Ok (f x)"

definition of_option :: "'e \<Rightarrow> 'a option \<Rightarrow> 'e + 'a" where
  "of_option e x = (case x of None \<Rightarrow> Err e | Some v \<Rightarrow> Ok v)"

definition opt_res :: "('a \<Rightarrow> 'e + 'b) \<Rightarrow> 'a option \<Rightarrow> 'e + 'b option" where
  "opt_res f x = (case x of None \<Rightarrow> Ok None | Some y \<Rightarrow> map_res Some (f y))"

lemma map_res_Ok_iff [result_simps]: "map_res f r = Ok y \<longleftrightarrow> (\<exists>x. r = Ok x \<and> y = f x)"
  by (cases r) auto

lemma of_option_Ok_iff [result_simps]: "of_option e x = Ok y \<longleftrightarrow> x = Some y"
  by (simp add: of_option_def split: option.splits)

lemma map_res_cong [fundef_cong]:
  "m = m' \<Longrightarrow> (\<And>x. m' = Inr x \<Longrightarrow> f x = g x) \<Longrightarrow> map_res f m = map_res g m'"
  by (cases m') auto

lemma opt_res_cong [fundef_cong]:
  "x = y \<Longrightarrow> (\<And>z. z \<in> set_option y \<Longrightarrow> f z = g z) \<Longrightarrow> opt_res f x = opt_res g y"
  by (cases y) (auto simp: opt_res_def)

section \<open>Fixed-width integer encodings\<close>

text \<open>
  \<open>be_bytes n x\<close> is \<open>to_be_bytes\<close> of an \<open>n\<close>-byte unsigned integer, \<open>le_bytes n x\<close> is
  \<open>to_le_bytes\<close>. Both wrap at \<open>256 ^ n\<close>.
\<close>

fun be_bytes :: "nat \<Rightarrow> nat \<Rightarrow> bytes" where
  "be_bytes 0 x = []"
| "be_bytes (Suc n) x = word_of_nat (x div 256 ^ n) # be_bytes n x"

fun le_bytes :: "nat \<Rightarrow> nat \<Rightarrow> bytes" where
  "le_bytes 0 x = []"
| "le_bytes (Suc n) x = word_of_nat x # le_bytes n (x div 256)"

fun le_nat :: "bytes \<Rightarrow> nat" where
  "le_nat [] = 0"
| "le_nat (b # bs) = unat b + 256 * le_nat bs"

fun be_nat :: "bytes \<Rightarrow> nat" where
  "be_nat [] = 0"
| "be_nat (b # bs) = unat b * 256 ^ length bs + be_nat bs"

lemma length_be_bytes [simp]: "length (be_bytes n x) = n"
  by (induction n) auto

lemma length_le_bytes [simp]: "length (le_bytes n x) = n"
  by (induction n arbitrary: x) auto

lemma unat_byte_of_nat [simp]: "unat (word_of_nat x :: byte) = x mod 256"
  by (simp add: unat_of_nat)

lemma unat_byte_le: "unat (b :: byte) \<le> 255"
  using unsigned_less [of b, where 'a = nat] by simp

lemma be_nat_be_bytes: "be_nat (be_bytes n x) = x mod 256 ^ n"
proof (induction n)
  case (Suc n)
  have "x mod 256 ^ Suc n = 256 ^ n * (x div 256 ^ n mod 256) + x mod 256 ^ n"
    by (metis mod_mult2_eq mult.commute power_Suc)
  with Suc show ?case by (simp add: mult.commute)
qed simp

lemma le_nat_le_bytes: "le_nat (le_bytes n x) = x mod 256 ^ n"
proof (induction n arbitrary: x)
  case (Suc n)
  then show ?case by (simp add: mod_mult2_eq)
qed simp

lemma be_nat_less: "be_nat bs < 256 ^ length bs"
proof (induction bs)
  case (Cons b bs)
  have "unat b \<le> 255" by (rule unat_byte_le)
  then have "unat b * 256 ^ length bs \<le> 255 * 256 ^ length bs" by (rule mult_right_mono) simp
  moreover have "255 * 256 ^ length bs + 256 ^ length bs = (256 :: nat) * 256 ^ length bs" by simp
  ultimately have "unat b * 256 ^ length bs + be_nat bs < 256 * 256 ^ length bs"
    using Cons by linarith
  then show ?case by simp
qed simp

lemma le_nat_less: "le_nat bs < 256 ^ length bs"
proof (induction bs)
  case (Cons b bs)
  have "unat b \<le> 255" by (rule unat_byte_le)
  with Cons show ?case by simp
qed simp

section \<open>The lexicographic order of byte strings\<close>

lemma less_append_same_length:
  fixes a b u v :: "'a::linorder list"
  assumes "length a = length b"
  shows "a @ u < b @ v \<longleftrightarrow> a < b \<or> (a = b \<and> u < v)"
  using assms by (induction a b rule: list_induct2) auto

lemma be_nat_less_iff:
  assumes "length a = length b"
  shows "a < b \<longleftrightarrow> be_nat a < be_nat b"
  using assms
proof (induction a b rule: list_induct2)
  case (Cons x xs y ys)
  let ?k = "256 ^ length xs :: nat"
  have lt: "be_nat xs < ?k" "be_nat ys < ?k"
    using be_nat_less [of xs] be_nat_less [of ys] Cons.hyps by auto
  have step: "unat p * ?k + be_nat as < unat q * ?k + be_nat bs"
    if "p < q" "be_nat as < ?k" for p q :: byte and as bs
  proof -
    have "(unat p + 1) * ?k \<le> unat q * ?k"
      using that(1) by (intro mult_right_mono) (simp_all add: word_less_nat_alt)
    with that(2) show ?thesis by simp
  qed
  consider "x < y" | "x = y" | "y < x" by fastforce
  then show ?case
  proof cases
    case 1
    with step [OF 1 lt(1), of ys] Cons.hyps show ?thesis by simp
  next
    case 2
    with Cons show ?thesis by simp
  next
    case 3
    with step [OF 3 lt(2), of xs] Cons.hyps show ?thesis by (auto simp: less_le_not_le)
  qed
qed simp

lemma be_bytes_less_iff:
  assumes "x < 256 ^ n" "y < 256 ^ n"
  shows "be_bytes n x < be_bytes n y \<longleftrightarrow> x < y"
  using assms by (simp add: be_nat_less_iff be_nat_be_bytes)

lemma be_bytes_eq_iff:
  assumes "x < 256 ^ n" "y < 256 ^ n"
  shows "be_bytes n x = be_bytes n y \<longleftrightarrow> x = y"
  using assms by (metis be_nat_be_bytes mod_less)

lemma cmp_of_bytes_append:
  assumes "length a = length b"
  shows "cmp_of (a @ u) (b @ v) = then_ord (cmp_of a b) (cmp_of u (v :: bytes))"
  using less_append_same_length [OF assms, of u v] assms
  by (cases a b rule: linorder_cases) (auto simp: cmp_of_def)

end
