(* ===== verification/Logical_Type.thy ===== *)
theory Logical_Type
  imports Kite_Prelude
begin

text \<open>
  The SQL types of \<open>src/src/types/mod.rs\<close> and the error values of \<open>src/src/errors.rs\<close>: the
  widening rules \<open>can_implicit_cast\<close>, \<open>combine_numeric_types\<close> and \<open>max_logical_type\<close>, and the raw
  width of a type. An error that wraps an error of another crate carries no payload; a panic of the
  code is the value \<open>Panic\<close>.
\<close>

section \<open>Types and errors\<close>

datatype char_length_units = Characters | Octets

datatype logical_type =
    SqlNull
  | BooleanT
  | Tinyint
  | UTinyint
  | Smallint
  | USmallint
  | Integer
  | UInteger
  | Bigint
  | UBigint
  | FloatT
  | DoubleT
  | CharT "32 word" char_length_units
  | Varchar "32 word option" char_length_units
  | DateT
  | DateTimeT
  | TimeT "64 word option"
  | TimeStampT "64 word option" bool
  | DecimalT "8 word option" "8 word option"
  | TupleT "logical_type list"

datatype unary_operator = UPlus | UMinus | UNot

datatype binary_operator =
    Plus | Minus | Multiply | Divide | Modulo | StringConcat
  | Gt | Lt | GtEq | LtEq | Spaceship | OpEq | NotEq
  | Like "32 word option" | NotLike "32 word option"
  | And | Or

datatype (plugins only: code) database_error =
    AggMiss rstring
  | Bincode
  | CacheSizeOverFlow
  | CastFail logical_type logical_type
  | ChannelClose
  | ColumnsEmpty
  | ColumnIdNotFound rstring
  | ColumnNotFound rstring
  | Csv
  | DefaultNotColumnRef
  | DefaultNotExist
  | DuplicateColumn rstring
  | DuplicateSourceHash rstring
  | DuplicateIndex rstring
  | DuplicatePrimaryKey
  | DuplicateUniqueValue
  | FunctionNotFound rstring
  | EmptyPlan
  | EmptyStatement
  | EvaluatorNotFound
  | FromUtf8Error
  | Incomparable logical_type logical_type
  | InvalidColumn rstring
  | InvalidIndex
  | InvalidTable rstring
  | InvalidType
  | InvalidValue rstring
  | IO
  | MisMatch string string
  | NeedNullAbleOrDefault
  | ParametersNotFound rstring
  | NoTransactionBegin
  | NotNull
  | OverFlow
  | ParseBool
  | ParseDate
  | ParseFloat
  | ParseInt
  | ParserSql
  | PrimaryKeyNotFound
  | PrimaryKeyTooManyLayers
  | RocksDB
  | SharedNotAlign
  | SourceNotFound
  | TableExists
  | TableNotFound
  | TransactionAlreadyExists
  | TryFromDecimal
  | TryFromInt
  | TooLong
  | TupleIdNotFound
  | TooManyBuckets nat nat
  | UnsupportedUnaryOperator logical_type unary_operator
  | UnsupportedBinaryOperator logical_type binary_operator
  | UnsupportedStmt rstring
  | Utf8Error
  | ValuesLenMismatch nat nat
  | ViewExists
  | ViewNotFound
  | Panic
  | Undefined

type_synonym 'a res = "database_error + 'a"

section \<open>Raw width and classification\<close>

text \<open>The outer \<open>option\<close> is the \<open>unreachable!()\<close> of the tuple type.\<close>

fun raw_len :: "logical_type \<Rightarrow> nat option res" where
  "raw_len SqlNull = Ok (Some 0)"
| "raw_len BooleanT = Ok (Some 1)"
| "raw_len Tinyint = Ok (Some 1)"
| "raw_len UTinyint = Ok (Some 1)"
| "raw_len Smallint = Ok (Some 2)"
| "raw_len USmallint = Ok (Some 2)"
| "raw_len Integer = Ok (Some 4)"
| "raw_len UInteger = Ok (Some 4)"
| "raw_len Bigint = Ok (Some 8)"
| "raw_len UBigint = Ok (Some 8)"
| "raw_len FloatT = Ok (Some 4)"
| "raw_len DoubleT = Ok (Some 8)"
| "raw_len (Varchar _ _) = Ok None"
| "raw_len (CharT len unit) =
     (case unit of Characters \<Rightarrow> Ok None | Octets \<Rightarrow> Ok (Some (unat len)))"
| "raw_len (DecimalT _ _) = Ok (Some 16)"
| "raw_len DateT = Ok (Some 4)"
| "raw_len DateTimeT = Ok (Some 8)"
| "raw_len (TimeT _) = Ok (Some 4)"
| "raw_len (TimeStampT _ _) = Ok (Some 8)"
| "raw_len (TupleT _) = Err Panic"

definition is_numeric :: "logical_type \<Rightarrow> bool" where
  "is_numeric ty = (case ty of
     Tinyint \<Rightarrow> True | UTinyint \<Rightarrow> True | Smallint \<Rightarrow> True | USmallint \<Rightarrow> True | Integer \<Rightarrow> True
   | UInteger \<Rightarrow> True | Bigint \<Rightarrow> True | UBigint \<Rightarrow> True | FloatT \<Rightarrow> True | DoubleT \<Rightarrow> True
   | DecimalT _ _ \<Rightarrow> True | _ \<Rightarrow> False)"

definition is_signed_numeric :: "logical_type \<Rightarrow> bool" where
  "is_signed_numeric ty \<longleftrightarrow> ty \<in> {Tinyint, Smallint, Integer, Bigint}"

definition is_unsigned_numeric :: "logical_type \<Rightarrow> bool" where
  "is_unsigned_numeric ty \<longleftrightarrow> ty \<in> {UTinyint, USmallint, UInteger, UBigint}"

definition is_floating_point_numeric :: "logical_type \<Rightarrow> bool" where
  "is_floating_point_numeric ty \<longleftrightarrow> ty \<in> {FloatT, DoubleT}"

section \<open>Implicit casts and common types\<close>

definition is_decimal_ty :: "logical_type \<Rightarrow> bool" where
  "is_decimal_ty ty = (case ty of DecimalT _ _ \<Rightarrow> True | _ \<Rightarrow> False)"

definition is_varchar_ty :: "logical_type \<Rightarrow> bool" where
  "is_varchar_ty ty = (case ty of Varchar _ _ \<Rightarrow> True | _ \<Rightarrow> False)"

definition is_char_ty :: "logical_type \<Rightarrow> bool" where
  "is_char_ty ty = (case ty of CharT _ _ \<Rightarrow> True | _ \<Rightarrow> False)"

definition is_time_ty :: "logical_type \<Rightarrow> bool" where
  "is_time_ty ty = (case ty of TimeT _ \<Rightarrow> True | _ \<Rightarrow> False)"

definition can_implicit_cast :: "logical_type \<Rightarrow> logical_type \<Rightarrow> bool" where
  "can_implicit_cast from to =
    (if from = to then True else
     case from of
       SqlNull \<Rightarrow> True
     | BooleanT \<Rightarrow> False
     | Tinyint \<Rightarrow> to \<in> {Smallint, Integer, Bigint, FloatT, DoubleT} \<or> is_decimal_ty to
     | UTinyint \<Rightarrow> to \<in> {USmallint, UInteger, UBigint, Smallint, Integer, Bigint, FloatT, DoubleT}
         \<or> is_decimal_ty to
     | Smallint \<Rightarrow> to \<in> {Integer, Bigint, FloatT, DoubleT} \<or> is_decimal_ty to
     | USmallint \<Rightarrow> to \<in> {UInteger, UBigint, Integer, Bigint, FloatT, DoubleT} \<or> is_decimal_ty to
     | Integer \<Rightarrow> to \<in> {Bigint, FloatT, DoubleT} \<or> is_decimal_ty to
     | UInteger \<Rightarrow> to \<in> {UBigint, Bigint, FloatT, DoubleT} \<or> is_decimal_ty to
     | Bigint \<Rightarrow> to \<in> {FloatT, DoubleT} \<or> is_decimal_ty to
     | UBigint \<Rightarrow> to \<in> {FloatT, DoubleT} \<or> is_decimal_ty to
     | FloatT \<Rightarrow> to = DoubleT \<or> is_decimal_ty to
     | DoubleT \<Rightarrow> is_decimal_ty to
     | CharT _ _ \<Rightarrow> False
     | Varchar _ _ \<Rightarrow> False
     | DateT \<Rightarrow> to = DateTimeT \<or> is_varchar_ty to \<or> is_char_ty to
     | DateTimeT \<Rightarrow> to = DateT \<or> is_time_ty to \<or> is_varchar_ty to \<or> is_char_ty to
     | TimeStampT _ _ \<Rightarrow> to = DateT \<or> is_time_ty to \<or> is_varchar_ty to \<or> is_char_ty to
     | TimeT _ \<Rightarrow> is_varchar_ty to \<or> is_char_ty to
     | DecimalT _ _ \<Rightarrow> False
     | TupleT _ \<Rightarrow> False)"

fun max_option :: "'a::linorder option \<Rightarrow> 'a option \<Rightarrow> 'a option" where
  "max_option (Some a) (Some b) = Some (max a b)"
| "max_option (Some a) None = Some a"
| "max_option None (Some b) = Some b"
| "max_option None None = None"

text \<open>
  The upcasts at the end of \<open>combine_numeric_types\<close>, tried in the order of the match arms.
\<close>

definition combine_upcast :: "logical_type \<Rightarrow> logical_type \<Rightarrow> logical_type res" where
  "combine_upcast left right =
    (if left = Bigint \<or> right = UBigint then Ok DoubleT
     else if left = Integer \<or> right = UInteger then Ok Bigint
     else if left = Smallint \<or> right = USmallint then Ok Integer
     else if left = Tinyint \<or> right = UTinyint then Ok Smallint
     else case (left, right) of
       (DecimalT precision_0 scale_0, DecimalT precision_1 scale_1) \<Rightarrow>
         Ok (DecimalT (max_option precision_0 precision_1) (max_option scale_0 scale_1))
     | _ \<Rightarrow> Err (Incomparable left right))"

definition combine_ordered :: "logical_type \<Rightarrow> logical_type \<Rightarrow> logical_type res" where
  "combine_ordered left right =
    (if can_implicit_cast left right then Ok right
     else if can_implicit_cast right left then Ok left
     else combine_upcast left right)"

text \<open>
  The source calls itself once with the operands swapped; the swapped call never swaps again, so
  the recursion is unfolded here.
\<close>

definition combine_numeric_types :: "logical_type \<Rightarrow> logical_type \<Rightarrow> logical_type res" where
  "combine_numeric_types left right =
    (if left = right then Ok left
     else if is_signed_numeric left \<and> is_unsigned_numeric right then combine_ordered right left
     else combine_ordered left right)"

definition max_logical_type :: "logical_type \<Rightarrow> logical_type \<Rightarrow> logical_type res" where
  "max_logical_type left right =
    (if left = right then Ok left
     else case (left, right) of
       (SqlNull, _) \<Rightarrow> Ok right
     | (_, SqlNull) \<Rightarrow> Ok left
     | (TupleT types_0, TupleT types_1) \<Rightarrow>
         if length types_0 > length types_1 then Ok left else Ok right
     | _ \<Rightarrow>
        (if is_numeric left \<and> is_numeric right then combine_numeric_types left right
         else if (left = DateT \<and> is_varchar_ty right) \<or> (is_varchar_ty left \<and> right = DateT)
         then Ok DateT
         else if (left = DateT \<and> right = DateTimeT) \<or> (left = DateTimeT \<and> right = DateT)
         then Ok DateTimeT
         else if (left = DateTimeT \<and> is_varchar_ty right) \<or> (is_varchar_ty left \<and> right = DateTimeT)
         then Ok DateTimeT
         else if (is_char_ty left \<or> is_varchar_ty left) \<and> (is_char_ty right \<or> is_varchar_ty right)
         then Ok (Varchar None Characters)
         else Err (Incomparable left right)))"

section \<open>Lemmas\<close>

lemmas combine_defs =
  combine_numeric_types_def combine_ordered_def combine_upcast_def can_implicit_cast_def
  is_signed_numeric_def is_unsigned_numeric_def is_decimal_ty_def is_numeric_def

lemma max_option_commute: "max_option a b = max_option b a"
  by (cases a; cases b) (auto simp: max.commute)

section \<open>Properties\<close>

text \<open>
  The common type of two numeric types does not depend on their order.
\<close>

theorem combine_numeric_commute:
  assumes "is_numeric l" "is_numeric r"
  shows "combine_numeric_types l r = combine_numeric_types r l"
  using assms
  by (cases l; cases r) (simp_all add: combine_defs max_option_commute)

theorem combine_numeric_commute_witness:
  "combine_numeric_types Smallint UTinyint = combine_numeric_types UTinyint Smallint"
  using combine_numeric_commute [of Smallint UTinyint] by (simp add: is_numeric_def)

text \<open>
  The common type of two numeric types, not both decimal, is a numeric type to which both are
  implicitly cast.
\<close>

theorem combine_numeric_upper:
  assumes "is_numeric l" "is_numeric r" "\<not> (is_decimal_ty l \<and> is_decimal_ty r)"
    and "combine_numeric_types l r = Ok t"
  shows "is_numeric t \<and> can_implicit_cast l t \<and> can_implicit_cast r t"
  using assms
  by (cases l; cases r) (auto simp add: combine_defs)

theorem combine_numeric_upper_witness:
  "can_implicit_cast Integer DoubleT \<and> can_implicit_cast DoubleT DoubleT"
  using combine_numeric_upper [of Integer DoubleT DoubleT]
  by (simp add: combine_defs)

text \<open>
  The numeric types without a common type are exactly a signed and an unsigned integer type of
  which the unsigned one is not implicitly cast to the signed one. The upcasts that the source lists
  for these pairs are never reached: the operands are swapped the other way round.
\<close>

theorem combine_numeric_Err_iff:
  assumes "is_numeric l" "is_numeric r"
  shows "(\<exists>e. combine_numeric_types l r = Err e) \<longleftrightarrow>
    (is_signed_numeric l \<and> is_unsigned_numeric r \<and> \<not> can_implicit_cast r l) \<or>
    (is_unsigned_numeric l \<and> is_signed_numeric r \<and> \<not> can_implicit_cast l r)"
  using assms
  by (cases l; cases r) (simp_all add: combine_defs)

theorem combine_numeric_Err_iff_witness:
  "\<exists>e. combine_numeric_types Integer UInteger = Err e"
  using combine_numeric_Err_iff [of Integer UInteger] by (simp add: combine_defs)

end
