(* ===== verification/Data_Value.thy ===== *)
theory Data_Value
  imports Logical_Type
begin

text \<open>
  \<open>DataValue\<close> of \<open>src/src/types/value.rs\<close>: the tagged union of SQL values, its equality, partial order
  and hash, length checks, the packed time representation, default values and the raw (row storage)
  encoding with its decoder. The decimals of \<open>rust_decimal\<close>, the float order of \<open>ordered_float\<close> and
  the calendar of \<open>chrono\<close> are other crates: the model takes them as the record \<open>crates\<close>, and what the
  code relies on is stated by the predicates \<open>decimal_laws\<close> and \<open>ordered_float_laws\<close>. A float is its
  IEEE bit pattern.
\<close>

section \<open>Values\<close>

datatype utf8_type = Variable "32 word option" | Fixed "32 word"

datatype 'd data_value =
    Null
  | Boolean bool
  | Float32 "32 word"
  | Float64 "64 word"
  | Int8 "8 word"
  | Int16 "16 word"
  | Int32 "32 word"
  | Int64 "64 word"
  | UInt8 "8 word"
  | UInt16 "16 word"
  | UInt32 "32 word"
  | UInt64 "64 word"
  | Utf8 rstring utf8_type char_length_units
  | Date32 "32 word"
  | Date64 "64 word"
  | Time32 "32 word" "64 word"
  | Time64 "64 word" "64 word" bool
  | Decimal 'd
  | Tuple "'d data_value list" bool

section \<open>Functions of other crates\<close>

record 'd crates =
  dec_eq :: "'d \<Rightarrow> 'd \<Rightarrow> bool"
  dec_cmp :: "'d \<Rightarrow> 'd \<Rightarrow> ordering"
  dec_hash :: "'d \<Rightarrow> bytes"
  dec_mantissa :: "'d \<Rightarrow> int"
  dec_scale :: "'d \<Rightarrow> nat"
  dec_is_zero :: "'d \<Rightarrow> bool"
  dec_is_sign_negative :: "'d \<Rightarrow> bool"
  dec_new :: "int \<Rightarrow> nat \<Rightarrow> 'd"
  dec_serialize :: "'d \<Rightarrow> bytes"
  dec_deserialize :: "bytes \<Rightarrow> 'd"
  of32_eq :: "32 word \<Rightarrow> 32 word \<Rightarrow> bool"
  of64_eq :: "64 word \<Rightarrow> 64 word \<Rightarrow> bool"
  of32_cmp :: "32 word \<Rightarrow> 32 word \<Rightarrow> ordering"
  of64_cmp :: "64 word \<Rightarrow> 64 word \<Rightarrow> ordering"
  of32_hash :: "32 word \<Rightarrow> bytes"
  of64_hash :: "64 word \<Rightarrow> bytes"
  unix_days_from_ce :: "32 word"
  unix_seconds_from_midnight :: "32 word"
  unix_timestamp :: "64 word"
  unix_timestamp_millis :: "64 word"
  unix_timestamp_micros :: "64 word"
  unix_timestamp_nanos_opt :: "64 word option"

text \<open>
  The documented behaviour of \<open>rust_decimal\<close>: a decimal is \<open>mantissa / 10 ^ scale\<close> with a mantissa
  below \<open>2 ^ 96\<close> in absolute value and a scale of at most 28; comparison is comparison of the
  numbers; equal decimals hash alike; the 16-byte serialisation is decoded by \<open>deserialize\<close>.
\<close>

definition decimal_laws :: "'d crates \<Rightarrow> bool" where
  "decimal_laws K \<longleftrightarrow>
    (\<forall>a b. dec_eq K a b \<longleftrightarrow> dec_cmp K a b = Equal) \<and>
    (\<forall>a b. dec_cmp K a b =
       cmp_of (dec_mantissa K a * 10 ^ dec_scale K b) (dec_mantissa K b * 10 ^ dec_scale K a)) \<and>
    (\<forall>a b. dec_eq K a b \<longrightarrow> dec_hash K a = dec_hash K b) \<and>
    (\<forall>a. \<bar>dec_mantissa K a\<bar> < 2 ^ 96 \<and> dec_scale K a \<le> 28) \<and>
    (\<forall>a. dec_is_zero K a \<longleftrightarrow> dec_mantissa K a = 0) \<and>
    (\<forall>a. dec_mantissa K a \<noteq> 0 \<longrightarrow> (dec_is_sign_negative K a \<longleftrightarrow> dec_mantissa K a < 0)) \<and>
    (\<forall>a. length (dec_serialize K a) = 16 \<and> dec_deserialize K (dec_serialize K a) = a)"

section \<open>Floats as bit patterns\<close>

definition f32_is_nan :: "32 word \<Rightarrow> bool" where
  "f32_is_nan w \<longleftrightarrow> unat w mod 2 ^ 31 > 0x7f800000"

definition f64_is_nan :: "64 word \<Rightarrow> bool" where
  "f64_is_nan w \<longleftrightarrow> unat w mod 2 ^ 63 > 0x7ff0000000000000"

text \<open>
  The sign-magnitude key of a bit pattern: on patterns that are not NaN, IEEE comparison is
  comparison of the keys (the two zeros have the same key).
\<close>

definition f32_key :: "32 word \<Rightarrow> int" where
  "f32_key w = (if unat w < 2 ^ 31 then int (unat w) else - int (unat w - 2 ^ 31))"

definition f64_key :: "64 word \<Rightarrow> int" where
  "f64_key w = (if unat w < 2 ^ 63 then int (unat w) else - int (unat w - 2 ^ 63))"

definition f32_ge_zero :: "32 word \<Rightarrow> bool" where
  "f32_ge_zero w \<longleftrightarrow> \<not> f32_is_nan w \<and> 0 \<le> f32_key w"

definition f64_ge_zero :: "64 word \<Rightarrow> bool" where
  "f64_ge_zero w \<longleftrightarrow> \<not> f64_is_nan w \<and> 0 \<le> f64_key w"

text \<open>
  The documented behaviour of \<open>ordered_float\<close>: on numbers the IEEE order, NaN equal to itself and
  greater than every number; equality is comparison with result \<open>Equal\<close>; equal floats hash alike.
\<close>

definition ordered_cmp :: "('w \<Rightarrow> bool) \<Rightarrow> ('w \<Rightarrow> int) \<Rightarrow> 'w \<Rightarrow> 'w \<Rightarrow> ordering" where
  "ordered_cmp nan key a b =
    (if nan a then (if nan b then Equal else Greater)
     else if nan b then Less else cmp_of (key a) (key b))"

definition ordered_float_laws :: "'d crates \<Rightarrow> bool" where
  "ordered_float_laws K \<longleftrightarrow>
    (\<forall>a b. of32_cmp K a b = ordered_cmp f32_is_nan f32_key a b) \<and>
    (\<forall>a b. of64_cmp K a b = ordered_cmp f64_is_nan f64_key a b) \<and>
    (\<forall>a b. of32_eq K a b \<longleftrightarrow> of32_cmp K a b = Equal) \<and>
    (\<forall>a b. of64_eq K a b \<longleftrightarrow> of64_cmp K a b = Equal) \<and>
    (\<forall>a b. of32_eq K a b \<longrightarrow> of32_hash K a = of32_hash K b) \<and>
    (\<forall>a b. of64_eq K a b \<longrightarrow> of64_hash K a = of64_hash K b)"

section \<open>Equality, order, hash\<close>

definition is_null :: "'d data_value \<Rightarrow> bool" where
  "is_null v = (case v of Null \<Rightarrow> True | _ \<Rightarrow> False)"

fun value_eq :: "'d crates \<Rightarrow> 'd data_value \<Rightarrow> 'd data_value \<Rightarrow> bool"
  and values_eq :: "'d crates \<Rightarrow> 'd data_value list \<Rightarrow> 'd data_value list \<Rightarrow> bool" where
  "value_eq K (Boolean v1) other = (case other of Boolean v2 \<Rightarrow> v1 = v2 | _ \<Rightarrow> False)"
| "value_eq K (Float32 v1) other = (case other of Float32 v2 \<Rightarrow> of32_eq K v1 v2 | _ \<Rightarrow> False)"
| "value_eq K (Float64 v1) other = (case other of Float64 v2 \<Rightarrow> of64_eq K v1 v2 | _ \<Rightarrow> False)"
| "value_eq K (Int8 v1) other = (case other of Int8 v2 \<Rightarrow> v1 = v2 | _ \<Rightarrow> False)"
| "value_eq K (Int16 v1) other = (case other of Int16 v2 \<Rightarrow> v1 = v2 | _ \<Rightarrow> False)"
| "value_eq K (Int32 v1) other = (case other of Int32 v2 \<Rightarrow> v1 = v2 | _ \<Rightarrow> False)"
| "value_eq K (Int64 v1) other = (case other of Int64 v2 \<Rightarrow> v1 = v2 | _ \<Rightarrow> False)"
| "value_eq K (UInt8 v1) other = (case other of UInt8 v2 \<Rightarrow> v1 = v2 | _ \<Rightarrow> False)"
| "value_eq K (UInt16 v1) other = (case other of UInt16 v2 \<Rightarrow> v1 = v2 | _ \<Rightarrow> False)"
| "value_eq K (UInt32 v1) other = (case other of UInt32 v2 \<Rightarrow> v1 = v2 | _ \<Rightarrow> False)"
| "value_eq K (UInt64 v1) other = (case other of UInt64 v2 \<Rightarrow> v1 = v2 | _ \<Rightarrow> False)"
| "value_eq K (Utf8 v1 _ _) other = (case other of Utf8 v2 _ _ \<Rightarrow> v1 = v2 | _ \<Rightarrow> False)"
| "value_eq K Null other = (case other of Null \<Rightarrow> True | _ \<Rightarrow> False)"
| "value_eq K (Date32 v1) other = (case other of Date32 v2 \<Rightarrow> v1 = v2 | _ \<Rightarrow> False)"
| "value_eq K (Date64 v1) other = (case other of Date64 v2 \<Rightarrow> v1 = v2 | _ \<Rightarrow> False)"
| "value_eq K (Time32 v1 _) other = (case other of Time32 v2 _ \<Rightarrow> v1 = v2 | _ \<Rightarrow> False)"
| "value_eq K (Time64 v1 _ _) other = (case other of Time64 v2 _ _ \<Rightarrow> v1 = v2 | _ \<Rightarrow> False)"
| "value_eq K (Decimal v1) other = (case other of Decimal v2 \<Rightarrow> dec_eq K v1 v2 | _ \<Rightarrow> False)"
| "value_eq K (Tuple values_1 is_upper_1) other =
     (case other of
        Tuple values_2 is_upper_2 \<Rightarrow> values_eq K values_1 values_2 \<and> is_upper_1 = is_upper_2
      | _ \<Rightarrow> False)"
| "values_eq K [] ws = (case ws of [] \<Rightarrow> True | _ \<Rightarrow> False)"
| "values_eq K (v # vs) ws = (case ws of w # ws' \<Rightarrow> value_eq K v w \<and> values_eq K vs ws' | [] \<Rightarrow> False)"

definition scmp :: "'w::len word \<Rightarrow> 'w word \<Rightarrow> ordering" where
  "scmp a b = cmp_of (sint a) (sint b)"

fun partial_cmp :: "'d crates \<Rightarrow> 'd data_value \<Rightarrow> 'd data_value \<Rightarrow> ordering option" where
  "partial_cmp K (Boolean v1) other = (case other of Boolean v2 \<Rightarrow> Some (cmp_of v1 v2) | _ \<Rightarrow> None)"
| "partial_cmp K (Float32 v1) other = (case other of Float32 v2 \<Rightarrow> Some (of32_cmp K v1 v2) | _ \<Rightarrow> None)"
| "partial_cmp K (Float64 v1) other = (case other of Float64 v2 \<Rightarrow> Some (of64_cmp K v1 v2) | _ \<Rightarrow> None)"
| "partial_cmp K (Int8 v1) other = (case other of Int8 v2 \<Rightarrow> Some (scmp v1 v2) | _ \<Rightarrow> None)"
| "partial_cmp K (Int16 v1) other = (case other of Int16 v2 \<Rightarrow> Some (scmp v1 v2) | _ \<Rightarrow> None)"
| "partial_cmp K (Int32 v1) other = (case other of Int32 v2 \<Rightarrow> Some (scmp v1 v2) | _ \<Rightarrow> None)"
| "partial_cmp K (Int64 v1) other = (case other of Int64 v2 \<Rightarrow> Some (scmp v1 v2) | _ \<Rightarrow> None)"
| "partial_cmp K (UInt8 v1) other = (case other of UInt8 v2 \<Rightarrow> Some (cmp_of v1 v2) | _ \<Rightarrow> None)"
| "partial_cmp K (UInt16 v1) other = (case other of UInt16 v2 \<Rightarrow> Some (cmp_of v1 v2) | _ \<Rightarrow> None)"
| "partial_cmp K (UInt32 v1) other = (case other of UInt32 v2 \<Rightarrow> Some (cmp_of v1 v2) | _ \<Rightarrow> None)"
| "partial_cmp K (UInt64 v1) other = (case other of UInt64 v2 \<Rightarrow> Some (cmp_of v1 v2) | _ \<Rightarrow> None)"
| "partial_cmp K (Utf8 v1 _ _) other = (case other of Utf8 v2 _ _ \<Rightarrow> Some (cmp_of v1 v2) | _ \<Rightarrow> None)"
| "partial_cmp K Null other = (case other of Null \<Rightarrow> Some Equal | _ \<Rightarrow> None)"
| "partial_cmp K (Date32 v1) other = (case other of Date32 v2 \<Rightarrow> Some (scmp v1 v2) | _ \<Rightarrow> None)"
| "partial_cmp K (Date64 v1) other = (case other of Date64 v2 \<Rightarrow> Some (scmp v1 v2) | _ \<Rightarrow> None)"
| "partial_cmp K (Time32 v1 _) other = (case other of Time32 v2 _ \<Rightarrow> Some (cmp_of v1 v2) | _ \<Rightarrow> None)"
| "partial_cmp K (Time64 v1 _ _) other = (case other of Time64 v2 _ _ \<Rightarrow> Some (scmp v1 v2) | _ \<Rightarrow> None)"
| "partial_cmp K (Decimal v1) other = (case other of Decimal v2 \<Rightarrow> Some (dec_cmp K v1 v2) | _ \<Rightarrow> None)"
| "partial_cmp K (Tuple _ _) other = None"

text \<open>
  \<open>Hash\<close>: the bytes fed to the hasher. An integer feeds its native-endian bytes, a string its bytes
  and the terminator \<open>0xFF\<close>, a vector its length and its elements.
\<close>

fun hash_value :: "'d crates \<Rightarrow> 'd data_value \<Rightarrow> bytes"
  and hash_values :: "'d crates \<Rightarrow> 'd data_value list \<Rightarrow> bytes" where
  "hash_value K (Boolean v) = [if v then 1 else 0]"
| "hash_value K (Float32 v) = of32_hash K v"
| "hash_value K (Float64 v) = of64_hash K v"
| "hash_value K (Int8 v) = le_bytes 1 (unat v)"
| "hash_value K (Int16 v) = le_bytes 2 (unat v)"
| "hash_value K (Int32 v) = le_bytes 4 (unat v)"
| "hash_value K (Int64 v) = le_bytes 8 (unat v)"
| "hash_value K (UInt8 v) = le_bytes 1 (unat v)"
| "hash_value K (UInt16 v) = le_bytes 2 (unat v)"
| "hash_value K (UInt32 v) = le_bytes 4 (unat v)"
| "hash_value K (UInt64 v) = le_bytes 8 (unat v)"
| "hash_value K (Utf8 v _ _) = v @ [0xFF]"
| "hash_value K Null = le_bytes 4 1"
| "hash_value K (Date32 v) = le_bytes 4 (unat v)"
| "hash_value K (Date64 v) = le_bytes 8 (unat v)"
| "hash_value K (Time32 v _) = le_bytes 4 (unat v)"
| "hash_value K (Time64 v _ _) = le_bytes 8 (unat v)"
| "hash_value K (Decimal v) = dec_hash K v"
| "hash_value K (Tuple vs is_upper) =
     le_bytes 8 (length vs) @ hash_values K vs @ [if is_upper then 1 else 0]"
| "hash_values K [] = []"
| "hash_values K (v # vs) = hash_value K v @ hash_values K vs"

section \<open>The order of values as an order of keys\<close>

text \<open>
  The abstract order: values with the same tag are compared by an integer key (lexicographically by
  the bytes for strings). \<open>partial_cmp\<close> and \<open>value_eq\<close> are shown to implement it.
\<close>

fun value_tag :: "'d data_value \<Rightarrow> nat" where
  "value_tag Null = 0"
| "value_tag (Boolean _) = 1"
| "value_tag (Float32 _) = 2"
| "value_tag (Float64 _) = 3"
| "value_tag (Int8 _) = 4"
| "value_tag (Int16 _) = 5"
| "value_tag (Int32 _) = 6"
| "value_tag (Int64 _) = 7"
| "value_tag (UInt8 _) = 8"
| "value_tag (UInt16 _) = 9"
| "value_tag (UInt32 _) = 10"
| "value_tag (UInt64 _) = 11"
| "value_tag (Utf8 _ _ _) = 12"
| "value_tag (Date32 _) = 13"
| "value_tag (Date64 _) = 14"
| "value_tag (Time32 _ _) = 15"
| "value_tag (Time64 _ _ _) = 16"
| "value_tag (Decimal _) = 17"
| "value_tag (Tuple _ _) = 18"

definition is_tuple :: "'d data_value \<Rightarrow> bool" where
  "is_tuple v = (case v of Tuple _ _ \<Rightarrow> True | _ \<Rightarrow> False)"

lemma is_tuple_simps [simp]: "is_tuple (Tuple vs u)" "\<not> is_tuple Null" "\<not> is_tuple (Boolean b)"
  "\<not> is_tuple (Float32 f)" "\<not> is_tuple (Float64 g)" "\<not> is_tuple (Int8 i)" "\<not> is_tuple (Int16 j)"
  "\<not> is_tuple (Int32 k)" "\<not> is_tuple (Int64 l)" "\<not> is_tuple (UInt8 m)" "\<not> is_tuple (UInt16 n)"
  "\<not> is_tuple (UInt32 p)" "\<not> is_tuple (UInt64 q)" "\<not> is_tuple (Utf8 s t x)" "\<not> is_tuple (Date32 k)"
  "\<not> is_tuple (Date64 l)" "\<not> is_tuple (Time32 p q)" "\<not> is_tuple (Time64 l q b)"
  "\<not> is_tuple (Decimal d)"
  by (simp_all add: is_tuple_def)

lemma is_tuple_iff_tag: "is_tuple v \<longleftrightarrow> value_tag v = 18"
  by (cases v) auto

lemma is_null_iff [simp]: "is_null v \<longleftrightarrow> v = Null"
  by (cases v) (auto simp: is_null_def)

definition f32_order_key :: "32 word \<Rightarrow> int" where
  "f32_order_key w = (if f32_is_nan w then 2 ^ 64 else f32_key w)"

definition f64_order_key :: "64 word \<Rightarrow> int" where
  "f64_order_key w = (if f64_is_nan w then 2 ^ 64 else f64_key w)"

definition dec_key :: "'d crates \<Rightarrow> 'd \<Rightarrow> int" where
  "dec_key K d = dec_mantissa K d * 10 ^ (28 - dec_scale K d)"

fun value_key :: "'d crates \<Rightarrow> 'd data_value \<Rightarrow> int list" where
  "value_key K Null = []"
| "value_key K (Boolean b) = [if b then 1 else 0]"
| "value_key K (Float32 w) = [f32_order_key w]"
| "value_key K (Float64 w) = [f64_order_key w]"
| "value_key K (Int8 w) = [sint w]"
| "value_key K (Int16 w) = [sint w]"
| "value_key K (Int32 w) = [sint w]"
| "value_key K (Int64 w) = [sint w]"
| "value_key K (UInt8 w) = [uint w]"
| "value_key K (UInt16 w) = [uint w]"
| "value_key K (UInt32 w) = [uint w]"
| "value_key K (UInt64 w) = [uint w]"
| "value_key K (Utf8 s _ _) = map uint s"
| "value_key K (Date32 w) = [sint w]"
| "value_key K (Date64 w) = [sint w]"
| "value_key K (Time32 w _) = [uint w]"
| "value_key K (Time64 w _ _) = [sint w]"
| "value_key K (Decimal d) = [dec_key K d]"
| "value_key K (Tuple _ _) = []"

lemma cmp_of_singleton [simp]: "cmp_of [a] [b] = cmp_of a (b :: 'a::linorder)"
  by (simp add: cmp_of_def)

lemma cmp_of_refl [simp]: "cmp_of a a = Equal"
  by (simp add: cmp_of_def)

lemma cmp_of_uint: "cmp_of (uint a) (uint b) = cmp_of a (b :: 'w::len word)"
  by (simp add: cmp_of_def word_less_def word_uint_eq_iff)

lemma map_uint_less_iff: "map uint (a :: bytes) < map uint b \<longleftrightarrow> a < b"
proof (induction a arbitrary: b)
  case Nil
  then show ?case by (cases b) auto
next
  case (Cons x xs)
  then show ?case by (cases b) (simp_all flip: word_less_def word_uint_eq_iff)
qed

lemma map_uint_eq_iff: "map uint (a :: bytes) = map uint b \<longleftrightarrow> a = b"
  by (rule inj_map_eq_map) (simp add: inj_def word_uint_eq_iff)

lemma cmp_of_map_uint: "cmp_of (map uint a) (map uint b) = cmp_of a (b :: bytes)"
  by (simp add: cmp_of_def map_uint_less_iff map_uint_eq_iff)

lemma cmp_of_bool: "cmp_of (if a then 1 else 0 :: int) (if b then 1 else 0) = cmp_of a b"
  by (auto simp: cmp_of_def)

lemma f32_key_bounds: "f32_key w < 2 ^ 64"
proof -
  have "int (unat w) < 2 ^ 32" using unsigned_less [of w, where 'a = int] by simp
  then show ?thesis unfolding f32_key_def by (simp del: int_nat_eq of_nat_unat)
qed

lemma f64_key_bounds: "f64_key w < 2 ^ 64"
proof -
  have "int (unat w) < 2 ^ 64" using unsigned_less [of w, where 'a = int] by simp
  then show ?thesis unfolding f64_key_def by (simp del: int_nat_eq of_nat_unat)
qed

lemma ordered_cmp_f32: "ordered_cmp f32_is_nan f32_key a b = cmp_of (f32_order_key a) (f32_order_key b)"
  using f32_key_bounds [of a] f32_key_bounds [of b]
  by (auto simp: ordered_cmp_def f32_order_key_def cmp_of_def)

lemma ordered_cmp_f64: "ordered_cmp f64_is_nan f64_key a b = cmp_of (f64_order_key a) (f64_order_key b)"
  using f64_key_bounds [of a] f64_key_bounds [of b]
  by (auto simp: ordered_cmp_def f64_order_key_def cmp_of_def)

lemma cmp_of_scale:
  fixes x y :: int
  assumes "s \<le> n" "t \<le> n"
  shows "cmp_of (x * 10 ^ (n - s)) (y * 10 ^ (n - t)) = cmp_of (x * 10 ^ t) (y * 10 ^ s)"
proof -
  have p: "(10::int) ^ n = 10 ^ (n - k) * 10 ^ k" if "k \<le> n" for k :: nat
    using that by (simp flip: power_add)
  have x: "x * 10 ^ (n - s) * 10 ^ (s + t) = x * 10 ^ t * 10 ^ n"
    unfolding p [OF assms(1)] power_add by (simp only: ac_simps)
  have y: "y * 10 ^ (n - t) * 10 ^ (s + t) = y * 10 ^ s * 10 ^ n"
    unfolding p [OF assms(2)] power_add by (simp only: ac_simps)
  have c: "cmp_of (a * 10 ^ k) (b * 10 ^ k) = cmp_of a b" for a b :: int and k :: nat
    by (simp add: cmp_of_def)
  show ?thesis by (metis c x y)
qed

lemma dec_cmp_key:
  assumes "decimal_laws K"
  shows "dec_cmp K a b = cmp_of (dec_key K a) (dec_key K b)"
proof -
  have "dec_scale K a \<le> 28" "dec_scale K b \<le> 28"
    using assms unfolding decimal_laws_def by blast+
  from cmp_of_scale [OF this] show ?thesis
    using assms unfolding decimal_laws_def dec_key_def by metis
qed

lemma of32_cmp_key:
  assumes "ordered_float_laws K"
  shows "of32_cmp K a b = cmp_of (f32_order_key a) (f32_order_key b)"
    and "of64_cmp K c d = cmp_of (f64_order_key c) (f64_order_key d)"
  using assms unfolding ordered_float_laws_def by (metis ordered_cmp_f32, metis ordered_cmp_f64)

lemma partial_cmp_key:
  assumes "decimal_laws K" "ordered_float_laws K"
  shows "partial_cmp K a b =
    (if value_tag a = value_tag b \<and> \<not> is_tuple a then Some (cmp_of (value_key K a) (value_key K b))
     else None)"
  by (cases a; cases b)
    (simp_all add: of32_cmp_key [OF assms(2)] dec_cmp_key [OF assms(1)]
      scmp_def cmp_of_uint cmp_of_map_uint cmp_of_bool)

lemma of_eq_key:
  assumes "ordered_float_laws K"
  shows "of32_eq K a b \<longleftrightarrow> f32_order_key a = f32_order_key b"
    and "of64_eq K c d \<longleftrightarrow> f64_order_key c = f64_order_key d"
  using assms of32_cmp_key [OF assms] unfolding ordered_float_laws_def by simp_all

lemma dec_eq_key:
  assumes "decimal_laws K"
  shows "dec_eq K a b \<longleftrightarrow> dec_key K a = dec_key K b"
  using assms dec_cmp_key [OF assms] unfolding decimal_laws_def by simp

lemma bool_key_eq: "((if a then 1 else 0 :: int) = (if b then 1 else 0)) \<longleftrightarrow> a = b"
  by simp

lemma sint_eq_iff: "sint a = sint b \<longleftrightarrow> a = b"
  by (auto intro: signed_word_eqI)

lemma value_eq_key:
  assumes "decimal_laws K" "ordered_float_laws K" "\<not> is_tuple a"
  shows "value_eq K a b \<longleftrightarrow> value_tag a = value_tag b \<and> value_key K a = value_key K b"
  using assms(3)
  by (cases a; cases b)
    (simp_all add: of_eq_key [OF assms(2)] dec_eq_key [OF assms(1)] bool_key_eq map_uint_eq_iff
      word_uint_eq_iff sint_eq_iff)

lemma value_eq_Tuple:
  "value_eq K (Tuple vs u) b \<longleftrightarrow> (\<exists>ws. b = Tuple ws u \<and> values_eq K vs ws)"
  by (cases b) auto

lemma values_eq_list_all2: "values_eq K vs ws \<longleftrightarrow> list_all2 (value_eq K) vs ws"
  by (induction vs arbitrary: ws) (auto split: list.splits simp: list_all2_Cons1)

lemma value_eq_tag: "value_eq K a b \<Longrightarrow> value_tag a = value_tag b"
  by (cases a; cases b) simp_all

lemma value_eq_refl:
  assumes "decimal_laws K" "ordered_float_laws K"
  shows "value_eq K v v"
proof (induction v)
  case (Tuple vs u)
  then show ?case by (simp add: values_eq_list_all2 list.rel_refl_strong)
qed (simp_all add: value_eq_key [OF assms] del: value_eq.simps)

lemma value_eq_sym:
  assumes "decimal_laws K" "ordered_float_laws K"
  shows "value_eq K a b \<Longrightarrow> value_eq K b a"
proof (induction a arbitrary: b)
  case (Tuple vs u)
  then obtain ws where b: "b = Tuple ws u" and *: "list_all2 (value_eq K) vs ws"
    by (auto simp: value_eq_Tuple values_eq_list_all2 simp del: value_eq.simps)
  have "list_all2 (value_eq K) ws vs"
    using * Tuple.IH by (auto simp: list_all2_conv_all_nth)
  with b show ?case by (simp add: values_eq_list_all2)
qed (auto simp: value_eq_key [OF assms] is_tuple_iff_tag simp del: value_eq.simps)

lemma value_eq_trans:
  assumes "decimal_laws K" "ordered_float_laws K"
  shows "value_eq K a b \<Longrightarrow> value_eq K b c \<Longrightarrow> value_eq K a c"
proof (induction a arbitrary: b c)
  case (Tuple vs u)
  then obtain ws xs where bc: "b = Tuple ws u" "c = Tuple xs u"
    and *: "list_all2 (value_eq K) vs ws" "list_all2 (value_eq K) ws xs"
    by (auto simp: value_eq_Tuple values_eq_list_all2 simp del: value_eq.simps)
  have "list_all2 (value_eq K) vs xs"
    using * Tuple.IH by (auto simp: list_all2_conv_all_nth)
  with bc show ?case by (simp add: values_eq_list_all2)
qed (auto simp: value_eq_key [OF assms] is_tuple_iff_tag simp del: value_eq.simps)

lemma crate_hash_eq:
  assumes "decimal_laws K" "ordered_float_laws K"
  shows "dec_eq K d d' \<Longrightarrow> dec_hash K d = dec_hash K d'"
    and "of32_eq K a b \<Longrightarrow> of32_hash K a = of32_hash K b"
    and "of64_eq K p q \<Longrightarrow> of64_hash K p = of64_hash K q"
  using assms unfolding decimal_laws_def ordered_float_laws_def by blast+

lemma value_eq_hash:
  assumes "decimal_laws K" "ordered_float_laws K"
  shows "value_eq K a b \<Longrightarrow> hash_value K a = hash_value K b"
proof (induction a arbitrary: b)
  case (Tuple vs u)
  then obtain ws where b: "b = Tuple ws u" and *: "list_all2 (value_eq K) vs ws"
    by (auto simp: value_eq_Tuple values_eq_list_all2 simp del: value_eq.simps)
  have "hash_values K vs = hash_values K ws"
    using * Tuple.IH by (induction rule: list_all2_induct) auto
  with b list_all2_lengthD [OF *] show ?case by simp
qed (auto split: data_value.splits dest: crate_hash_eq [OF assms])

section \<open>A concrete instance\<close>

text \<open>
  Decimals of scale 0 with a 64-bit mantissa, and the float order by definition: an instance of the
  crate functions that satisfies the laws, on which the properties are evaluated.
\<close>

definition sample_crates :: "64 word crates" where
  "sample_crates = \<lparr>
    dec_eq = (=),
    dec_cmp = scmp,
    dec_hash = (\<lambda>d. le_bytes 8 (unat d)),
    dec_mantissa = sint,
    dec_scale = (\<lambda>_. 0),
    dec_is_zero = (\<lambda>d. d = 0),
    dec_is_sign_negative = (\<lambda>d. sint d < 0),
    dec_new = (\<lambda>m _. word_of_int m),
    dec_serialize = (\<lambda>d. le_bytes 16 (unat d)),
    dec_deserialize = (\<lambda>b. word_of_nat (le_nat b)),
    of32_eq = (\<lambda>a b. f32_order_key a = f32_order_key b),
    of64_eq = (\<lambda>a b. f64_order_key a = f64_order_key b),
    of32_cmp = ordered_cmp f32_is_nan f32_key,
    of64_cmp = ordered_cmp f64_is_nan f64_key,
    of32_hash = (\<lambda>w. le_bytes 9 (nat (f32_order_key w + 2 ^ 64))),
    of64_hash = (\<lambda>w. le_bytes 9 (nat (f64_order_key w + 2 ^ 64))),
    unix_days_from_ce = 719163,
    unix_seconds_from_midnight = 0,
    unix_timestamp = 0,
    unix_timestamp_millis = 0,
    unix_timestamp_micros = 0,
    unix_timestamp_nanos_opt = Some 0 \<rparr>"

lemma sint_64_bounds: "\<bar>sint (d :: 64 word)\<bar> < 2 ^ 96"
proof -
  have "- (2 ^ 63) \<le> sint d" "sint d < 2 ^ 63"
    using sint_greater_eq [of d] sint_less [of d] by simp_all
  then show ?thesis by simp
qed

lemma sint_eq_0_iff: "sint a = 0 \<longleftrightarrow> a = 0"
  using sint_eq_iff [of a 0] by simp

lemma decimal_laws_sample: "decimal_laws sample_crates"
proof -
  have "unat d < 256 ^ 16" for d :: "64 word"
    using unsigned_less [of d, where 'a = nat] by simp
  then have "le_nat (le_bytes 16 (unat d)) = unat d" for d :: "64 word"
    by (simp add: le_nat_le_bytes)
  then show ?thesis
    unfolding decimal_laws_def sample_crates_def
    by (simp add: scmp_def sint_eq_iff sint_64_bounds [simplified] sint_eq_0_iff del: le_bytes.simps)
qed

lemma ordered_float_laws_sample: "ordered_float_laws sample_crates"
  unfolding ordered_float_laws_def sample_crates_def
  by (simp add: ordered_cmp_f32 ordered_cmp_f64 del: le_bytes.simps)

section \<open>Properties\<close>

text \<open>
  C18: \<open>partial_cmp\<close> is defined exactly on two values of one type other than tuples, and on each type it
  is a total preorder: reversing the operands reverses the result, and it is transitive.
\<close>

theorem partial_cmp_total_order:
  assumes "decimal_laws K" "ordered_float_laws K"
  shows "(partial_cmp K a b \<noteq> None \<longleftrightarrow> value_tag a = value_tag b \<and> \<not> is_tuple a) \<and>
    partial_cmp K b a = map_option reverse_ord (partial_cmp K a b) \<and>
    (partial_cmp K a b \<in> {Some Less, Some Equal} \<and> partial_cmp K b c \<in> {Some Less, Some Equal} \<longrightarrow>
      partial_cmp K a c \<in> {Some Less, Some Equal})"
proof (intro conjI)
  show "partial_cmp K b a = map_option reverse_ord (partial_cmp K a b)"
    using cmp_of_sym [of "value_key K b" "value_key K a"]
    by (auto simp: partial_cmp_key [OF assms] is_tuple_iff_tag)
qed (auto simp: partial_cmp_key [OF assms] is_tuple_iff_tag)

theorem partial_cmp_total_order_witness:
  "partial_cmp sample_crates (Decimal 2) (Decimal 7) \<noteq> None"
  using partial_cmp_total_order [OF decimal_laws_sample ordered_float_laws_sample, of "Decimal 2" "Decimal 7"]
  by simp

text \<open>
  C19: Equality of values is an equivalence relation, agrees with \<open>partial_cmp\<close> on everything but
  tuples, and equal values feed the same bytes to the hasher (the contract of \<open>Hash\<close> that hash joins
  and grouping rely on).
\<close>

theorem value_eq_contract:
  assumes "decimal_laws K" "ordered_float_laws K"
  shows "equivp (value_eq K) \<and>
    (\<not> is_tuple a \<longrightarrow> (value_eq K a b \<longleftrightarrow> partial_cmp K a b = Some Equal)) \<and>
    (value_eq K a b \<longrightarrow> hash_value K a = hash_value K b)"
proof -
  have "equivp (value_eq K)"
    using value_eq_refl [OF assms] value_eq_sym [OF assms] value_eq_trans [OF assms]
    by (intro equivpI reflpI sympI transpI) blast+
  then show ?thesis
    using value_eq_hash [OF assms, of a b]
    by (auto simp: value_eq_key [OF assms] partial_cmp_key [OF assms] simp del: value_eq.simps)
qed

theorem value_eq_contract_witness:
  "hash_value sample_crates (Float32 0) = hash_value sample_crates (Float32 0x80000000)"
  using value_eq_contract [OF decimal_laws_sample ordered_float_laws_sample, of "Float32 0" "Float32 0x80000000"]
  by (simp add: of_eq_key [OF ordered_float_laws_sample] f32_order_key_def f32_is_nan_def f32_key_def)

end
