(* ===== verification/Value_Ops.thy ===== *)
theory Value_Ops
  imports Data_Value
begin

text \<open>
  Operations on values of \<open>src/src/types/value.rs\<close>: the accessors, length checks against a declared
  type, the packed time representation, default values, types of values, truth values and the common
  prefix length used by the optimizer's histograms.
\<close>

section \<open>UTF-8\<close>

text \<open>A byte that continues a character: \<open>10xxxxxx\<close>.\<close>

definition is_utf8_cont :: "byte \<Rightarrow> bool" where
  "is_utf8_cont b \<longleftrightarrow> 0x80 \<le> b \<and> b \<le> 0xBF"

text \<open>\<open>s.chars().count()\<close> of a valid UTF-8 string: the bytes that do not continue a character.\<close>

definition char_count :: "rstring \<Rightarrow> nat" where
  "char_count s = length (filter (\<lambda>b. \<not> is_utf8_cont b) s)"

text \<open>The characters of a valid UTF-8 string, each as its bytes.\<close>

function utf8_chars :: "rstring \<Rightarrow> bytes list" where
  "utf8_chars [] = []"
| "utf8_chars (b # bs) =
     (b # takeWhile is_utf8_cont bs) # utf8_chars (dropWhile is_utf8_cont bs)"
  by pat_completeness auto
termination
  by (relation "measure length") (simp_all add: length_dropWhile_le le_imp_less_Suc)

definition in_range :: "byte \<Rightarrow> byte \<Rightarrow> byte \<Rightarrow> bool" where
  "in_range lo hi b \<longleftrightarrow> lo \<le> b \<and> b \<le> hi"

text \<open>The well-formed byte sequences \<open>String::from_utf8\<close> accepts.\<close>

fun utf8_valid :: "bytes \<Rightarrow> bool" where
  "utf8_valid [] = True"
| "utf8_valid (b # bs) =
    (if b < 0x80 then utf8_valid bs
     else if in_range 0xC2 0xDF b then
       (case bs of c # r \<Rightarrow> in_range 0x80 0xBF c \<and> utf8_valid r | _ \<Rightarrow> False)
     else if in_range 0xE0 0xEF b then
       (case bs of c # d # r \<Rightarrow>
          in_range (if b = 0xE0 then 0xA0 else 0x80) (if b = 0xED then 0x9F else 0xBF) c
          \<and> in_range 0x80 0xBF d \<and> utf8_valid r
        | _ \<Rightarrow> False)
     else if in_range 0xF0 0xF4 b then
       (case bs of c # d # e # r \<Rightarrow>
          in_range (if b = 0xF0 then 0x90 else 0x80) (if b = 0xF4 then 0x8F else 0xBF) c
          \<and> in_range 0x80 0xBF d \<and> in_range 0x80 0xBF e \<and> utf8_valid r
        | _ \<Rightarrow> False)
     else False)"

section \<open>Length checks\<close>

text \<open>True when the string is too long, as in the source.\<close>

definition check_string_len :: "rstring \<Rightarrow> nat \<Rightarrow> char_length_units \<Rightarrow> bool" where
  "check_string_len s len unit =
    (case unit of Characters \<Rightarrow> char_count s > len | Octets \<Rightarrow> length s > len)"

fun ilog10 :: "nat \<Rightarrow> nat" where
  "ilog10 n = (if n < 10 then 0 else Suc (ilog10 (n div 10)))"

declare ilog10.simps [simp del]

definition check_decimal_len ::
  "'d crates \<Rightarrow> 8 word option \<Rightarrow> 8 word option \<Rightarrow> 'd \<Rightarrow> unit res" where
  "check_decimal_len K full_len scale_len val =
    (let mantissa = nat \<bar>dec_mantissa K val\<bar> in
     if (case full_len of None \<Rightarrow> False
         | Some len \<Rightarrow> mantissa \<noteq> 0 \<and> ilog10 mantissa + 1 > unat len)
     then Err TooLong
     else if (case scale_len of None \<Rightarrow> False | Some len \<Rightarrow> dec_scale K val > unat len) then Err TooLong
     else Ok ())"

definition check_len :: "'d crates \<Rightarrow> 'd data_value \<Rightarrow> logical_type \<Rightarrow> unit res" where
  "check_len K v logic_type =
    (let over = (\<lambda>b. if b then Err TooLong else Ok ()) in
     case logic_type of
       Varchar (Some len) unit \<Rightarrow>
         (case v of
            Utf8 val (Variable _) unit' \<Rightarrow>
              if unit' = unit then over (check_string_len val (unat len) unit) else Ok ()
          | _ \<Rightarrow> Ok ())
     | CharT len unit \<Rightarrow>
         (case v of
            Utf8 val (Fixed _) unit' \<Rightarrow>
              if unit' = unit then over (check_string_len val (unat len) unit) else Ok ()
          | _ \<Rightarrow> Ok ())
     | DecimalT full_len scale_len \<Rightarrow>
         (case v of Decimal val \<Rightarrow> check_decimal_len K full_len scale_len val | _ \<Rightarrow> Ok ())
     | _ \<Rightarrow> Ok ())"

section \<open>Packed times\<close>

definition ONE_SEC_TO_NANO :: nat where
  "ONE_SEC_TO_NANO = 1000000000"

definition ONE_DAY_TO_SEC :: nat where
  "ONE_DAY_TO_SEC = 86400"

definition time_shift :: "64 word \<Rightarrow> nat" where
  "time_shift precision =
    (if precision = 1 then 28 else if precision = 2 then 25 else if precision = 3 then 22
     else if precision = 4 then 18 else 31)"

text \<open>
  \<open>1000000000 / 10_u32.pow(precision as u32)\<close>: the power overflows \<open>u32\<close> from the exponent 10 on.
\<close>

definition nano_unit :: "64 word \<Rightarrow> nat res" where
  "nano_unit precision =
    (let e = unat precision mod 2 ^ 32 in
     if 10 ^ min e 10 \<ge> (2 ^ 32 :: nat) then Err Panic else Ok (1000000000 div 10 ^ e))"

definition pack :: "32 word \<Rightarrow> 32 word \<Rightarrow> 64 word \<Rightarrow> 32 word res" where
  "pack a b precision =
    (if \<not> unat b \<le> ONE_SEC_TO_NANO then Err Panic
     else if \<not> unat a \<le> ONE_DAY_TO_SEC then Err Panic
     else res_bind (nano_unit precision) (\<lambda>u.
       let scaled_b = word_of_nat (unat b div u) :: 32 word in
       Ok (push_bit (time_shift precision) scaled_b OR a)))"

definition unpack :: "32 word \<Rightarrow> 64 word \<Rightarrow> (32 word \<times> 32 word) res" where
  "unpack combined precision =
    (let p = time_shift precision;
         scaled_a = drop_bit p combined;
         b = combined AND (2 ^ p - 1)
     in res_bind (nano_unit precision) (\<lambda>u.
       if unat scaled_a * u \<ge> 2 ^ 32 then Err Panic
       else Ok (b, word_of_nat (unat scaled_a * u))))"

section \<open>Default values and types of values\<close>

fun init :: "'d crates \<Rightarrow> logical_type \<Rightarrow> 'd data_value res" where
  "init K SqlNull = Ok Null"
| "init K BooleanT = Ok (Boolean False)"
| "init K Tinyint = Ok (Int8 0)"
| "init K UTinyint = Ok (UInt8 0)"
| "init K Smallint = Ok (Int16 0)"
| "init K USmallint = Ok (UInt16 0)"
| "init K Integer = Ok (Int32 0)"
| "init K UInteger = Ok (UInt32 0)"
| "init K Bigint = Ok (Int64 0)"
| "init K UBigint = Ok (UInt64 0)"
| "init K FloatT = Ok (Float32 0)"
| "init K DoubleT = Ok (Float64 0)"
| "init K (CharT len unit) = Ok (Utf8 [] (Fixed len) unit)"
| "init K (Varchar len unit) = Ok (Utf8 [] (Variable len) unit)"
| "init K DateT = Ok (Date32 (unix_days_from_ce K))"
| "init K DateTimeT = Ok (Date64 (unix_timestamp K))"
| "init K (TimeT precision) =
     (case precision of
        Some i \<Rightarrow> Ok (Time32 (unix_seconds_from_midnight K) i)
      | None \<Rightarrow> Ok (Time32 (unix_seconds_from_midnight K) 0))"
| "init K (TimeStampT precision zone) =
     (case precision of
        None \<Rightarrow> Ok (Time64 (unix_timestamp K) 0 zone)
      | Some p \<Rightarrow>
          if p = 3 then Ok (Time64 (unix_timestamp_millis K) 3 zone)
          else if p = 6 then Ok (Time64 (unix_timestamp_micros K) 6 zone)
          else if p = 9 then
            (case unix_timestamp_nanos_opt K of
               Some value \<Rightarrow> Ok (Time64 value 9 zone) | None \<Rightarrow> Err Panic)
          else Err Panic)"
| "init K (DecimalT _ _) = Ok (Decimal (dec_new K 0 0))"
| "init K (TupleT types) = res_bind (res_map (init K) types) (\<lambda>values. Ok (Tuple values False))"

fun logical_type :: "'d data_value \<Rightarrow> logical_type" where
  "logical_type Null = SqlNull"
| "logical_type (Boolean _) = BooleanT"
| "logical_type (Float32 _) = FloatT"
| "logical_type (Float64 _) = DoubleT"
| "logical_type (Int8 _) = Tinyint"
| "logical_type (Int16 _) = Smallint"
| "logical_type (Int32 _) = Integer"
| "logical_type (Int64 _) = Bigint"
| "logical_type (UInt8 _) = UTinyint"
| "logical_type (UInt16 _) = USmallint"
| "logical_type (UInt32 _) = UInteger"
| "logical_type (UInt64 _) = UBigint"
| "logical_type (Utf8 _ ty unit) =
     (case ty of Variable len \<Rightarrow> Varchar len unit | Fixed len \<Rightarrow> CharT len unit)"
| "logical_type (Date32 _) = DateT"
| "logical_type (Date64 _) = DateTimeT"
| "logical_type (Time32 _ _) = TimeT None"
| "logical_type (Time64 _ _ _) = TimeStampT None False"
| "logical_type (Decimal _) = DecimalT None None"
| "logical_type (Tuple values _) = TupleT (map logical_type values)"

section \<open>Truth values and common prefixes\<close>

definition is_true :: "'d data_value \<Rightarrow> bool res" where
  "is_true v =
    (if is_null v then Ok False
     else case v of Boolean b \<Rightarrow> Ok b | _ \<Rightarrow> Err InvalidType)"

definition values_to_tuple :: "'d data_value list \<Rightarrow> 'd data_value option" where
  "values_to_tuple values =
    (if length values > 1 then Some (Tuple values False)
     else if values = [] then None else Some (last values))"

text \<open>The loop \<open>for i in 0..min_len\<close> over the two character iterators, from index \<open>i\<close> on.\<close>

fun common_prefix_loop :: "nat \<Rightarrow> nat \<Rightarrow> bytes list \<Rightarrow> bytes list \<Rightarrow> nat" where
  "common_prefix_loop i 0 cs ds = i"
| "common_prefix_loop i (Suc n) [] [] = common_prefix_loop (Suc i) n [] []"
| "common_prefix_loop i (Suc n) (c # cs) (d # ds) =
     (if c = d then common_prefix_loop (Suc i) n cs ds else i)"
| "common_prefix_loop i (Suc n) [] (d # ds) = i"
| "common_prefix_loop i (Suc n) (c # cs) [] = i"

text \<open>\<open>s.get(0..n)\<close> is \<open>None\<close> when \<open>n\<close> is not a character boundary.\<close>

definition is_char_boundary :: "rstring \<Rightarrow> nat \<Rightarrow> bool" where
  "is_char_boundary s n \<longleftrightarrow> n = 0 \<or> n = length s \<or> (n < length s \<and> \<not> is_utf8_cont (s ! n))"

definition common_prefix_length :: "'d data_value \<Rightarrow> 'd data_value \<Rightarrow> nat option res" where
  "common_prefix_length v target =
    (if is_null v \<and> is_null target then Ok (Some 0)
     else if is_null v \<or> is_null target then Ok None
     else case (v, target) of
       (Utf8 v1 _ _, Utf8 v2 _ _) \<Rightarrow>
         (let min_len = min (length v1) (length v2) in
          if \<not> is_char_boundary v1 min_len \<or> \<not> is_char_boundary v2 min_len then Err Panic
          else Ok (Some (common_prefix_loop 0 min_len
                 (utf8_chars (take min_len v1)) (utf8_chars (take min_len v2)))))
     | _ \<Rightarrow> Ok (Some 0))"

section \<open>Lemmas\<close>

text \<open>A word built from a shifted high part and a low part is taken apart again.\<close>

lemma split_push_or:
  fixes x a :: "'w::len word"
  assumes "p < LENGTH('w)" "unat x < 2 ^ (LENGTH('w) - p)" "unat a < 2 ^ p"
  shows "drop_bit p (push_bit p x OR a) = x" and "(push_bit p x OR a) AND (2 ^ p - 1) = a"
proof -
  have "take_bit (LENGTH('w) - p) x = x" "take_bit p a = a"
    using assms by (simp_all add: word_unat_eq_iff unsigned_take_bit_eq take_bit_nat_eq_self)
  then have bx: "bit x n \<Longrightarrow> p + n < LENGTH('w)" and ba: "bit a n \<Longrightarrow> n < p" for n
    by (metis bit_take_bit_iff less_diff_conv add.commute)+
  show "drop_bit p (push_bit p x OR a) = x"
    by (rule bit_word_eqI) (use bx ba in \<open>auto simp: bit_simps\<close>)
  show "(push_bit p x OR a) AND (2 ^ p - 1) = a"
    unfolding mask_eq_exp_minus_1 [symmetric]
    by (rule bit_word_eqI) (use ba in \<open>auto simp: bit_simps\<close>)
qed

lemma ilog10_less_iff: "0 < m \<Longrightarrow> ilog10 m < n \<longleftrightarrow> m < 10 ^ n"
proof (induction m arbitrary: n rule: ilog10.induct)
  case (1 m)
  show ?case
  proof (cases "m < 10")
    case True
    then show ?thesis using 1(2)
      by (cases n) (auto simp: ilog10.simps [of m] intro: less_le_trans [of m 10])
  next
    case False
    then show ?thesis using 1
      by (cases n) (simp_all add: ilog10.simps [of m] less_mult_imp_div_less div_less_iff_less_mult mult.commute)
  qed
qed

lemma check_decimal_len_iff:
  "check_decimal_len K full_len scale_len d = Ok () \<longleftrightarrow>
    (\<forall>n. full_len = Some n \<longrightarrow> \<bar>dec_mantissa K d\<bar> < 10 ^ unat n) \<and>
    (\<forall>n. scale_len = Some n \<longrightarrow> dec_scale K d \<le> unat n)"
proof -
  let ?m = "nat \<bar>dec_mantissa K d\<bar>"
  have m: "\<bar>dec_mantissa K d\<bar> < 10 ^ k \<longleftrightarrow> \<not> (?m \<noteq> 0 \<and> ilog10 ?m + 1 > k)" for k
  proof -
    have "\<bar>dec_mantissa K d\<bar> < 10 ^ k \<longleftrightarrow> ?m < 10 ^ k"
      by (metis nat_less_iff abs_ge_zero of_nat_numeral of_nat_power)
    also have "\<dots> \<longleftrightarrow> \<not> (?m \<noteq> 0 \<and> ilog10 ?m + 1 > k)"
      using ilog10_less_iff [of ?m k] by (cases "?m = 0") auto
    finally show ?thesis .
  qed
  show ?thesis unfolding m check_decimal_len_def Let_def
    by (auto split: option.splits)
qed

lemma utf8_chars_ascii: "\<forall>b \<in> set s. b < 0x80 \<Longrightarrow> utf8_chars s = map (\<lambda>b. [b]) s"
proof (induction s)
  case (Cons b bs)
  have "takeWhile is_utf8_cont bs = [] \<and> dropWhile is_utf8_cont bs = bs"
    using Cons.prems by (cases bs) (auto simp: is_utf8_cont_def)
  with Cons show ?case by simp
qed simp

lemma common_prefix_loop_ascii:
  "length xs = n \<Longrightarrow> length ys = n \<Longrightarrow>
    common_prefix_loop i n (map (\<lambda>b. [b]) xs) (map (\<lambda>b. [b]) ys)
      = i + length (takeWhile (\<lambda>(x, y). x = y) (zip xs ys))"
proof (induction n arbitrary: i xs ys)
  case (Suc n)
  then show ?case by (cases xs; cases ys) auto
qed simp

lemma check_len_Varchar:
  "check_len K (Utf8 val (Variable m) unit) (Varchar (Some len) unit) =
    (if check_string_len val (unat len) unit then Err TooLong else Ok ())"
  by (simp add: check_len_def)

section \<open>Properties\<close>

text \<open>
  C36: A time packed by \<open>DataValue::pack\<close> at one of the precisions 0 to 4 that \<open>TIME(p)\<close> admits is
  unpacked to the same second of the day and to the nanoseconds rounded down to a multiple of
  \<open>10 ^ (9 - p)\<close>; neither function panics.
\<close>

theorem pack_unpack:
  assumes "unat a \<le> ONE_DAY_TO_SEC" "unat b \<le> ONE_SEC_TO_NANO" "unat precision \<le> 4"
  shows "\<exists>c. pack a b precision = Ok c \<and>
    unpack c precision = Ok (a, word_of_nat (unat b div 10 ^ (9 - unat precision) * 10 ^ (9 - unat precision)))"
proof -
  define u :: nat where "u = 10 ^ (9 - unat precision)"
  define p where "p = time_shift precision"
  define x :: "32 word" where "x = word_of_nat (unat b div u)"
  have "precision \<in> {0, 1, 2, 3, 4}"
    using assms(3) by (auto simp: word_unat_eq_iff)
  then consider "precision = 0" | "precision = 1" | "precision = 2" | "precision = 3" | "precision = 4"
    by blast
  then have pu: "p < 32 \<and> ONE_DAY_TO_SEC < 2 ^ p \<and> ONE_SEC_TO_NANO div u < 2 ^ (32 - p) \<and>
      nano_unit precision = Ok u \<and> 2 ^ (32 - p) * u \<le> 2 ^ 32"
    by cases (simp_all add: p_def u_def time_shift_def nano_unit_def ONE_DAY_TO_SEC_def
        ONE_SEC_TO_NANO_def min_def)
  have bd: "unat b div u < 2 ^ (32 - p)"
    using pu div_le_mono [OF assms(2), of u] by linarith
  moreover have "2 ^ (32 - p) \<le> (2 ^ 32 :: nat)" by (rule power_increasing) simp_all
  ultimately have "unat b div u < 2 ^ 32" by linarith
  then have ux: "unat x = unat b div u" by (simp add: x_def unat_of_nat)
  from bd pu have "unat b div u * u < 2 ^ (32 - p) * u" by (intro mult_strict_right_mono) (auto simp: u_def)
  with pu have ov: "\<not> 2 ^ 32 \<le> unat b div u * u" by linarith
  have sp: "drop_bit p (push_bit p x OR a) = x" "(push_bit p x OR a) AND (2 ^ p - 1) = a"
    using split_push_or [of p x a] pu bd ux assms(1) by auto
  have "pack a b precision = Ok (push_bit p x OR a)"
    using assms pu by (simp add: pack_def p_def x_def)
  moreover have "unpack (push_bit p x OR a) precision = Ok (a, word_of_nat (unat b div u * u))"
    using pu ov ux sp by (simp add: unpack_def flip: p_def)
  ultimately show ?thesis unfolding u_def by blast
qed

theorem pack_unpack_witness:
  "\<exists>c. pack 3661 123456789 3 = Ok c \<and> unpack c 3 = Ok (3661, 123000000)"
  using pack_unpack [of 3661 123456789 3] by (simp add: ONE_DAY_TO_SEC_def ONE_SEC_TO_NANO_def)

text \<open>
  \<open>check_len\<close> accepts a decimal for \<open>DECIMAL(p, s)\<close> exactly when its mantissa has at most \<open>p\<close>
  digits and its scale is at most \<open>s\<close> (an omitted bound admits everything).
\<close>

theorem check_len_decimal:
  "check_len K (Decimal d) (DecimalT full_len scale_len) = Ok () \<longleftrightarrow>
    (case full_len of None \<Rightarrow> True | Some n \<Rightarrow> \<bar>dec_mantissa K d\<bar> < 10 ^ unat n) \<and>
    (case scale_len of None \<Rightarrow> True | Some n \<Rightarrow> dec_scale K d \<le> unat n)"
  by (auto simp: check_len_def check_decimal_len_iff split: option.splits)

text \<open>
  On ASCII strings \<open>common_prefix_length\<close> returns the length of the longest common prefix.
\<close>

theorem common_prefix_length_ascii:
  assumes "\<forall>b \<in> set v1. b < 0x80" "\<forall>b \<in> set v2. b < 0x80"
  shows "common_prefix_length (Utf8 v1 t1 u1) (Utf8 v2 t2 u2)
    = Ok (Some (length (takeWhile (\<lambda>(x, y). x = y) (zip v1 v2))))"
proof -
  let ?m = "min (length v1) (length v2)"
  have "is_char_boundary v1 ?m \<and> is_char_boundary v2 ?m"
    using assms by (auto simp: is_char_boundary_def is_utf8_cont_def min_def)
      (metis linorder_not_le nth_mem order_le_less)+
  moreover have "\<forall>b \<in> set (take ?m v1). b < 0x80" "\<forall>b \<in> set (take ?m v2). b < 0x80"
    using assms by (auto dest: in_set_takeD)
  moreover have "zip (take ?m v1) (take ?m v2) = zip v1 v2"
    by (metis min.idem take_zip take_all length_zip order_refl)
  ultimately show ?thesis
    by (simp add: common_prefix_length_def utf8_chars_ascii common_prefix_loop_ascii)
qed

theorem common_prefix_length_ascii_witness:
  "common_prefix_length (Utf8 [97, 98, 99] (Variable None) Characters)
     (Utf8 [97, 98, 120, 121] (Variable None) Characters) = Ok (Some 2)"
  using common_prefix_length_ascii [of "[97, 98, 99]" "[97, 98, 120, 121]"]
  by (simp flip: numeral_2_eq_2)

text \<open>
  On strings with multi-byte characters \<open>common_prefix_length\<close> panics when the shorter string's
  length is no character boundary of the longer one: the strings \<open>a\<close> and \<open>e\<close> with an accent.
\<close>

theorem common_prefix_length_panics:
  "common_prefix_length (Utf8 [0x61] (Variable None) Characters)
     (Utf8 [0xC3, 0xA9] (Variable None) Characters) = Err Panic"
  by (simp add: common_prefix_length_def is_char_boundary_def is_utf8_cont_def)

end
