(* ===== verification/Memcomparable.thy ===== *)
theory Memcomparable
  imports Value_Ops
begin

text \<open>
  The order-preserving key encoding of \<open>src/src/types/value.rs\<close>: \<open>memcomparable_encode\<close> with its
  string groups (\<open>encode_bytes\<close>, \<open>realloc_bytes\<close>), float and decimal encodings and tuples. The
  functions append to the buffer \<open>b\<close>, as the source does. The contract \<open>order_codec\<close> (the encoding of
  a smaller key is smaller at some byte) is proved for each scalar type and composed for tuples.
\<close>

section \<open>Encoder\<close>

definition ENCODE_GROUP_SIZE :: nat where
  "ENCODE_GROUP_SIZE = 8"

definition ENCODE_MARKER :: byte where
  "ENCODE_MARKER = 0xFF"

definition BOUND_MIN_TAG :: byte where
  "BOUND_MIN_TAG = 0"

definition BOUND_MAX_TAG :: byte where
  "BOUND_MAX_TAG = 0xFF"

definition realloc_bytes :: "bytes \<Rightarrow> nat \<Rightarrow> bytes" where
  "realloc_bytes b new_size =
    (if new_size > length b then b @ replicate (new_size - length b) 0 else b)"

text \<open>The loop of \<open>encode_bytes\<close> on the data from \<open>idx\<close> on.\<close>

function encode_groups :: "bytes \<Rightarrow> bytes" where
  "encode_groups data =
    (if length data \<ge> ENCODE_GROUP_SIZE
     then take ENCODE_GROUP_SIZE data @ ENCODE_MARKER # encode_groups (drop ENCODE_GROUP_SIZE data)
     else let pad_count = ENCODE_GROUP_SIZE - length data in
       data @ replicate pad_count 0 @ [ENCODE_MARKER - word_of_nat pad_count])"
  by pat_completeness auto
termination
  by (relation "measure length") (auto simp: ENCODE_GROUP_SIZE_def)

declare encode_groups.simps [simp del]

definition encode_bytes :: "bytes \<Rightarrow> bytes \<Rightarrow> bytes" where
  "encode_bytes b data =
    (let realloc_size = (length data div ENCODE_GROUP_SIZE + 1) * (ENCODE_GROUP_SIZE + 1)
     in realloc_bytes b realloc_size @ encode_groups data)"

text \<open>\<open>decimal_e_m\<close>: base-100 exponent and significand.\<close>

definition POW10 :: "nat list" where
  "POW10 = map (\<lambda>i. 10 ^ i) [0..<30]"

fun strip_zeros :: "nat \<Rightarrow> nat \<Rightarrow> nat \<times> nat" where
  "strip_zeros mantissa digit_num =
    (if mantissa mod 10 = 0 \<and> mantissa \<noteq> 0 then strip_zeros (mantissa div 10) (digit_num - 1)
     else (mantissa, digit_num))"

declare strip_zeros.simps [simp del]

definition base100_byte :: "nat \<Rightarrow> byte" where
  "base100_byte mantissa = word_of_nat (mantissa mod 100) * 2 + 1"

function base100_wide :: "nat \<Rightarrow> bytes \<times> nat" where
  "base100_wide mantissa =
    (if mantissa < 2 ^ 64 then ([], mantissa)
     else let (byte_array, rest) = base100_wide (mantissa div 100) in
       (base100_byte mantissa # byte_array, rest))"
  by pat_completeness auto
termination
  by (relation "measure id") auto

declare base100_wide.simps [simp del]

fun base100 :: "nat \<Rightarrow> bytes" where
  "base100 mantissa = (if mantissa = 0 then [] else base100_byte mantissa # base100 (mantissa div 100))"

declare base100.simps [simp del]

definition decrement_head :: "bytes \<Rightarrow> bytes" where
  "decrement_head b = (case b of [] \<Rightarrow> [] | x # xs \<Rightarrow> (x - 1) # xs)"

definition decimal_e_m :: "'d crates \<Rightarrow> 'd \<Rightarrow> int \<times> bytes" where
  "decimal_e_m K decimal =
    (if dec_is_zero K decimal then (0, [])
     else
       let m = nat \<bar>dec_mantissa K decimal\<bar>;
           prec = length (takeWhile (\<lambda>p. p \<le> m) POW10);
           e10 = int prec - int (dec_scale K decimal);
           e100 = (if e10 \<ge> 0 then (e10 + 1) div 2 else - ((- e10) div 2));
           digit_num = (if e10 = 2 * e100 then prec else prec + 1);
           (m', digit_num') = strip_zeros m digit_num;
           m'' = (if digit_num' mod 2 = 1 then m' * 10 else m');
           (wide, rest) = base100_wide m'';
           byte_array = decrement_head (wide @ base100 rest)
       in (e100, rev byte_array))"

text \<open>
  \<open>serialize_decimal\<close>: the exponent is an \<open>i8\<close>; \<open>!e as u8\<close> is the complement of its byte.
\<close>

definition serialize_decimal :: "'d crates \<Rightarrow> 'd \<Rightarrow> bytes" where
  "serialize_decimal K decimal =
    (if dec_is_zero K decimal then [0x15]
     else
       let (exponent, significand) = decimal_e_m K decimal;
           e = word_of_int exponent :: byte
       in if \<not> dec_is_sign_negative K decimal then
            (if 11 \<le> exponent then [0x22, e]
             else if 0 \<le> exponent then [0x17 + e]
             else [0x16, NOT (- e)]) @ significand
          else
            (if 11 \<le> exponent then [0x8, NOT e]
             else if 0 \<le> exponent then [0x13 - e]
             else [0x14, - e]) @ map (\<lambda>b. NOT b) significand)"

definition f32_bits :: "32 word \<Rightarrow> 32 word" where
  "f32_bits u = (if f32_ge_zero u then u OR 0x80000000 else NOT u)"

definition f64_bits :: "64 word \<Rightarrow> 64 word" where
  "f64_bits u = (if f64_ge_zero u then u OR 0x8000000000000000 else NOT u)"

text \<open>The bytes appended for a value that is neither a string nor a tuple.\<close>

fun memcomparable_scalar :: "'d crates \<Rightarrow> 'd data_value \<Rightarrow> bytes" where
  "memcomparable_scalar K (Int8 v) = be_bytes 1 (unat (v XOR 0x80))"
| "memcomparable_scalar K (Int16 v) = be_bytes 2 (unat (v XOR 0x8000))"
| "memcomparable_scalar K (Int32 v) = be_bytes 4 (unat (v XOR 0x80000000))"
| "memcomparable_scalar K (Date32 v) = be_bytes 4 (unat (v XOR 0x80000000))"
| "memcomparable_scalar K (Int64 v) = be_bytes 8 (unat (v XOR 0x8000000000000000))"
| "memcomparable_scalar K (Date64 v) = be_bytes 8 (unat (v XOR 0x8000000000000000))"
| "memcomparable_scalar K (Time64 v _ _) = be_bytes 8 (unat (v XOR 0x8000000000000000))"
| "memcomparable_scalar K (UInt8 v) = be_bytes 1 (unat v)"
| "memcomparable_scalar K (UInt16 v) = be_bytes 2 (unat v)"
| "memcomparable_scalar K (UInt32 v) = be_bytes 4 (unat v)"
| "memcomparable_scalar K (Time32 v _) = be_bytes 4 (unat v)"
| "memcomparable_scalar K (UInt64 v) = be_bytes 8 (unat v)"
| "memcomparable_scalar K (Boolean v) = [if v then 0x31 else 0x30]"
| "memcomparable_scalar K (Float32 f) = be_bytes 4 (unat (f32_bits f))"
| "memcomparable_scalar K (Float64 f) = be_bytes 8 (unat (f64_bits f))"
| "memcomparable_scalar K Null = []"
| "memcomparable_scalar K (Decimal v) = serialize_decimal K v"
| "memcomparable_scalar K (Utf8 _ _ _) = []"
| "memcomparable_scalar K (Tuple _ _) = []"

text \<open>
  \<open>memcomparable_encode\<close> appends to the buffer; an empty tuple fails on \<open>values.len() - 1\<close>.
\<close>

fun memcomparable_encode :: "'d crates \<Rightarrow> 'd data_value \<Rightarrow> bytes \<Rightarrow> bytes res"
  and memcomparable_tuple :: "'d crates \<Rightarrow> bool \<Rightarrow> 'd data_value list \<Rightarrow> bytes \<Rightarrow> bytes res" where
  "memcomparable_encode K (Utf8 v _ _) b = Ok (encode_bytes b v)"
| "memcomparable_encode K (Tuple vs is_upper) b =
     (if vs = [] then Err Panic else memcomparable_tuple K is_upper vs b)"
| "memcomparable_encode K v b = Ok (b @ memcomparable_scalar K v)"
| "memcomparable_tuple K is_upper [] b = Ok b"
| "memcomparable_tuple K is_upper (v # vs) b =
     res_bind (memcomparable_encode K v b) (\<lambda>b'.
       memcomparable_tuple K is_upper vs
         (b' @ [if (is_null v \<or> vs = []) \<and> is_upper then BOUND_MAX_TAG else BOUND_MIN_TAG]))"

section \<open>Strictly smaller at some byte\<close>

fun byte_less :: "bytes \<Rightarrow> bytes \<Rightarrow> bool" where
  "byte_less (x # xs) (y # ys) \<longleftrightarrow> x < y \<or> (x = y \<and> byte_less xs ys)"
| "byte_less _ _ \<longleftrightarrow> False"

lemma byte_less_append: "byte_less a b \<Longrightarrow> a @ r < b @ s"
  by (induction a b rule: byte_less.induct) auto

lemma byte_less_same_length: "length a = length b \<Longrightarrow> byte_less a b \<longleftrightarrow> a < b"
  by (induction a b rule: list_induct2) auto

lemma byte_less_prefix [simp]: "byte_less (p @ a) (p @ b) \<longleftrightarrow> byte_less a b"
  by (induction p) auto

lemma byte_less_appendI: "byte_less a b \<Longrightarrow> byte_less (a @ r) (b @ s)"
  by (induction a b rule: byte_less.induct) auto

lemma byte_less_irrefl: "\<not> byte_less a a"
  by (induction a) auto

lemma byte_less_trans: "byte_less a b \<Longrightarrow> byte_less b c \<Longrightarrow> byte_less a c"
proof (induction a b arbitrary: c rule: byte_less.induct)
  case (1 x xs y ys)
  then show ?case by (cases c) auto
qed auto

section \<open>The contract of an order-preserving encoding\<close>

locale order_codec =
  fixes enc :: "'a \<Rightarrow> bytes"
    and key :: "'a \<Rightarrow> 'k::linorder"
    and D :: "'a \<Rightarrow> bool"
  assumes enc_less: "D a \<Longrightarrow> D b \<Longrightarrow> key a < key b \<Longrightarrow> byte_less (enc a) (enc b)"
    and enc_eq: "D a \<Longrightarrow> D b \<Longrightarrow> key a = key b \<Longrightarrow> enc a = enc b"
begin

lemma cmp_enc_append:
  assumes "D a" "D b"
  shows "cmp_of (enc a @ r) (enc b @ s) = then_ord (cmp_of (key a) (key b)) (cmp_of r (s :: bytes))"
proof (cases "key a" "key b" rule: linorder_cases)
  case less
  then show ?thesis using byte_less_append [OF enc_less [OF assms less], of r s]
    by (simp add: cmp_of_def)
next
  case equal
  then show ?thesis using enc_eq [OF assms equal]
    by (simp add: cmp_of_bytes_append)
next
  case greater
  then show ?thesis using byte_less_append [OF enc_less [OF assms(2,1) greater], of s r]
    by (auto simp: cmp_of_def)
qed

lemma enc_order: "D a \<Longrightarrow> D b \<Longrightarrow> enc a < enc b \<longleftrightarrow> key a < key b"
  using cmp_enc_append [of a b "[]" "[]"] by (cases "key a" "key b" rule: linorder_cases) (auto simp: cmp_of_def split: if_splits)

lemma enc_inject: "D a \<Longrightarrow> D b \<Longrightarrow> enc a = enc b \<longleftrightarrow> key a = key b"
  using enc_eq enc_less byte_less_irrefl by (metis linorder_neqE)

text \<open>Keys of several columns: concatenation compares lexicographically.\<close>

lemma cmp_enc_list:
  assumes "\<forall>a \<in> set as. D a" "\<forall>b \<in> set bs. D b" "length as = length bs"
  shows "cmp_of (concat (map enc as) @ r) (concat (map enc bs) @ s)
    = then_ord (cmp_of (map key as) (map key bs)) (cmp_of r (s :: bytes))"
  using assms(3,1,2)
proof (induction as bs rule: list_induct2)
  case (Cons a as b bs)
  have "cmp_of (key a # map key as) (key b # map key bs)
      = then_ord (cmp_of (key a) (key b)) (cmp_of (map key as) (map key bs))"
    by (auto simp: cmp_of_def)
  with Cons show ?case
    by (cases "cmp_of (key a) (key b)") (simp_all add: cmp_enc_append del: cmp_of_iff)
qed simp

end

section \<open>Integers\<close>

lemma xor_msb:
  fixes w :: "'w::len word"
  shows "w XOR push_bit (LENGTH('w) - 1) 1 = w + 2 ^ (LENGTH('w) - 1)"
proof -
  have z: "2 ^ (LENGTH('w) - 1) + 2 ^ (LENGTH('w) - 1) = (0 :: 'w word)"
    by (metis len_gt_0 mult_2 power_Suc Suc_diff_1 exp_eq_zero_iff order_refl)
  have "w XOR push_bit (LENGTH('w) - 1) 1 = flip_bit (LENGTH('w) - 1) w"
    by (simp add: flip_bit_eq_xor)
  also have "\<dots> = (if bit w (LENGTH('w) - 1) then w - 2 ^ (LENGTH('w) - 1) else w + 2 ^ (LENGTH('w) - 1))"
    by (simp add: flip_bit_eq_if set_bit_eq unset_bit_eq)
  also have "w - 2 ^ (LENGTH('w) - 1) = w + 2 ^ (LENGTH('w) - 1)"
    using minus_unique [OF z] by (metis diff_conv_add_uminus)
  finally show ?thesis by simp
qed

lemma uint_xor_msb:
  fixes w :: "'w::len word"
  shows "uint (w XOR push_bit (LENGTH('w) - 1) 1) = sint w + 2 ^ (LENGTH('w) - 1)"
proof -
  have "w + 2 ^ (LENGTH('w) - 1) = word_of_int (sint w + 2 ^ (LENGTH('w) - 1))"
    by simp
  then have "uint (w + 2 ^ (LENGTH('w) - 1)) = (sint w + 2 ^ (LENGTH('w) - 1)) mod 2 ^ LENGTH('w)"
    by (metis uint_word_of_int)
  moreover have "0 \<le> sint w + 2 ^ (LENGTH('w) - 1)" using sint_greater_eq [of w] by simp
  moreover have "2 ^ (LENGTH('w) - 1) + 2 ^ (LENGTH('w) - 1) = (2 :: int) ^ LENGTH('w)"
    by (metis len_gt_0 mult_2 power_Suc Suc_diff_1)
  then have "sint w + 2 ^ (LENGTH('w) - 1) < 2 ^ LENGTH('w)" using sint_less [of w] by simp
  ultimately show ?thesis unfolding xor_msb by simp
qed

lemma msb_iff:
  fixes w :: "'w::len word"
  shows "bit w (LENGTH('w) - 1) \<longleftrightarrow> 2 ^ (LENGTH('w) - 1) \<le> uint w"
proof -
  let ?n = "LENGTH('w) - 1"
  have "(2 :: int) ^ LENGTH('w) = 2 * 2 ^ ?n" by (metis len_gt_0 power_Suc Suc_diff_1)
  then have lt: "uint w < 2 * 2 ^ ?n" using unsigned_less [of w, where 'a = int] by simp
  have "bit w ?n \<longleftrightarrow> bit (uint w) ?n" by (simp add: bit_simps)
  also have "\<dots> \<longleftrightarrow> odd (uint w div 2 ^ ?n)" by (rule bit_iff_odd)
  also have "uint w div 2 ^ ?n = (if 2 ^ ?n \<le> uint w then 1 else 0)"
    using lt by (auto intro: int_div_pos_eq [where r = "uint w - 2 ^ ?n"] simp: not_le)
  finally show ?thesis by simp
qed

lemma uint_or_msb:
  fixes w :: "'w::len word"
  shows "uint (w OR push_bit (LENGTH('w) - 1) 1)
    = (if uint w < 2 ^ (LENGTH('w) - 1) then uint w + 2 ^ (LENGTH('w) - 1) else uint w)"
proof (cases "uint w < 2 ^ (LENGTH('w) - 1)")
  case True
  then have nb: "\<not> bit w (LENGTH('w) - 1)" unfolding msb_iff by simp
  have "w OR push_bit (LENGTH('w) - 1) 1 = w XOR push_bit (LENGTH('w) - 1) 1"
    by (rule bit_word_eqI) (use nb in \<open>auto simp: bit_simps\<close>)
  moreover have "sint w = uint w"
    using True uint_ge_0 [of w] unfolding sint_uint
    by (intro signed_take_bit_int_eq_self) (auto intro: order_trans [of _ 0])
  ultimately show ?thesis using True uint_xor_msb [of w] by simp
next
  case False
  then have b: "bit w (LENGTH('w) - 1)" unfolding msb_iff by simp
  have "w OR push_bit (LENGTH('w) - 1) 1 = w"
    by (rule bit_word_eqI) (use b in \<open>auto simp: bit_simps\<close>)
  with False show ?thesis by simp
qed

lemma uint_not:
  fixes w :: "'w::len word"
  shows "uint (NOT w) = 2 ^ LENGTH('w) - 1 - uint w"
proof -
  have "NOT w = word_of_int (2 ^ LENGTH('w) - 1 - uint w)"
    by (simp add: not_eq_complement)
  then have "uint (NOT w) = (2 ^ LENGTH('w) - 1 - uint w) mod 2 ^ LENGTH('w)"
    by (metis uint_word_of_int)
  also have "\<dots> = 2 ^ LENGTH('w) - 1 - uint w"
    using unsigned_less [of w, where 'a = int] uint_ge_0 [of w] by (intro mod_pos_pos_trivial) linarith+
  finally show ?thesis .
qed

lemma word_codec:
  fixes key :: "'a \<Rightarrow> 'k::linorder" and g :: "'a \<Rightarrow> 'w::len word"
  assumes "LENGTH('w) = 8 * n"
    and "\<And>a b. D a \<Longrightarrow> D b \<Longrightarrow> key a < key b \<Longrightarrow> uint (g a) < uint (g b)"
    and "\<And>a b. D a \<Longrightarrow> D b \<Longrightarrow> key a = key b \<Longrightarrow> uint (g a) = uint (g b)"
  shows "order_codec (\<lambda>a. be_bytes n (unat (g a))) key D"
proof
  have lt: "unat (g a) < 256 ^ n" for a
    using unsigned_less [of "g a", where 'a = nat] assms(1) by (simp add: power_mult)
  fix a b assume D: "D a" "D b"
  show "byte_less (be_bytes n (unat (g a))) (be_bytes n (unat (g b)))" if "key a < key b"
    using assms(2) [OF D that] lt
    by (subst byte_less_same_length) (simp_all add: be_bytes_less_iff flip: word_less_def word_less_nat_alt)
  show "be_bytes n (unat (g a)) = be_bytes n (unat (g b))" if "key a = key b"
    using assms(3) [OF D that] by (simp flip: word_uint_eq_iff)
qed

lemma flip_sign:
  "uint (a XOR 0x80 :: 8 word) = sint a + 2 ^ 7"
  "uint (b XOR 0x8000 :: 16 word) = sint b + 2 ^ 15"
  "uint (c XOR 0x80000000 :: 32 word) = sint c + 2 ^ 31"
  "uint (d XOR 0x8000000000000000 :: 64 word) = sint d + 2 ^ 63"
  using uint_xor_msb [of a] uint_xor_msb [of b] uint_xor_msb [of c] uint_xor_msb [of d] by simp_all

text \<open>The integer types: the key is the signed or unsigned value.\<close>

interpretation enc_i8: order_codec "\<lambda>v. memcomparable_scalar K (Int8 v)" sint "\<lambda>_. True"
  unfolding memcomparable_scalar.simps by (rule word_codec) (simp_all add: flip_sign)

interpretation enc_i16: order_codec "\<lambda>v. memcomparable_scalar K (Int16 v)" sint "\<lambda>_. True"
  unfolding memcomparable_scalar.simps by (rule word_codec) (simp_all add: flip_sign)

interpretation enc_i32: order_codec "\<lambda>v. memcomparable_scalar K (Int32 v)" sint "\<lambda>_. True"
  unfolding memcomparable_scalar.simps by (rule word_codec) (simp_all add: flip_sign)

interpretation enc_i64: order_codec "\<lambda>v. memcomparable_scalar K (Int64 v)" sint "\<lambda>_. True"
  unfolding memcomparable_scalar.simps by (rule word_codec) (simp_all add: flip_sign)

interpretation enc_u8: order_codec "\<lambda>v. memcomparable_scalar K (UInt8 v)" uint "\<lambda>_. True"
  unfolding memcomparable_scalar.simps by (rule word_codec) simp_all

interpretation enc_u16: order_codec "\<lambda>v. memcomparable_scalar K (UInt16 v)" uint "\<lambda>_. True"
  unfolding memcomparable_scalar.simps by (rule word_codec) simp_all

interpretation enc_u32: order_codec "\<lambda>v. memcomparable_scalar K (UInt32 v)" uint "\<lambda>_. True"
  unfolding memcomparable_scalar.simps by (rule word_codec) simp_all

interpretation enc_u64: order_codec "\<lambda>v. memcomparable_scalar K (UInt64 v)" uint "\<lambda>_. True"
  unfolding memcomparable_scalar.simps by (rule word_codec) simp_all

section \<open>Floats\<close>

lemma key_uint:
  fixes w :: "'w::len word"
  shows "(if unat w < 2 ^ n then int (unat w) else - int (unat w - 2 ^ n))
    = (if uint w < 2 ^ n then uint w else 2 ^ n - uint w)"
proof -
  have "unat w < 2 ^ n \<longleftrightarrow> uint w < 2 ^ n"
    using of_nat_less_iff [of "unat w" "2 ^ n", where 'a = int] by simp
  moreover have "int (unat w - 2 ^ n) = uint w - 2 ^ n" if "\<not> unat w < 2 ^ n"
    using that by (simp add: of_nat_diff)
  ultimately show ?thesis by simp
qed

lemma f32_bits_key:
  assumes "\<not> f32_is_nan w"
  shows "uint (f32_bits w) = (if 0 \<le> f32_key w then 2 ^ 31 + f32_key w else 2 ^ 31 - 1 + f32_key w)"
proof -
  have "0 \<le> uint w" by simp
  moreover have "f32_key w = (if uint w < 2 ^ 31 then uint w else 2 ^ 31 - uint w)"
    unfolding f32_key_def by (rule key_uint)
  moreover have "uint (w OR 0x80000000) = (if uint w < 2 ^ 31 then uint w + 2 ^ 31 else uint w)"
    using uint_or_msb [of w] by simp
  moreover have "uint (NOT w) = 2 ^ 32 - 1 - uint w" using uint_not [of w] by simp
  moreover have "f32_ge_zero w \<longleftrightarrow> 0 \<le> f32_key w" using assms by (simp add: f32_ge_zero_def)
  ultimately show ?thesis unfolding f32_bits_def by (auto split: if_splits)
qed

lemma f64_bits_key:
  assumes "\<not> f64_is_nan w"
  shows "uint (f64_bits w) = (if 0 \<le> f64_key w then 2 ^ 63 + f64_key w else 2 ^ 63 - 1 + f64_key w)"
proof -
  have "0 \<le> uint w" by simp
  moreover have "f64_key w = (if uint w < 2 ^ 63 then uint w else 2 ^ 63 - uint w)"
    unfolding f64_key_def by (rule key_uint)
  moreover have "uint (w OR 0x8000000000000000) = (if uint w < 2 ^ 63 then uint w + 2 ^ 63 else uint w)"
    using uint_or_msb [of w] by simp
  moreover have "uint (NOT w) = 2 ^ 64 - 1 - uint w" using uint_not [of w] by simp
  moreover have "f64_ge_zero w \<longleftrightarrow> 0 \<le> f64_key w" using assms by (simp add: f64_ge_zero_def)
  ultimately show ?thesis unfolding f64_bits_def by (auto split: if_splits)
qed

interpretation enc_f32: order_codec "\<lambda>w. memcomparable_scalar K (Float32 w)" f32_key "\<lambda>w. \<not> f32_is_nan w"
  unfolding memcomparable_scalar.simps by (rule word_codec) (auto simp: f32_bits_key)

interpretation enc_f64: order_codec "\<lambda>w. memcomparable_scalar K (Float64 w)" f64_key "\<lambda>w. \<not> f64_is_nan w"
  unfolding memcomparable_scalar.simps by (rule word_codec) (auto simp: f64_bits_key)

section \<open>Strings\<close>

text \<open>The first group of an encoded string: eight bytes padded with zeros, and how many are data.\<close>

definition first_group :: "bytes \<Rightarrow> bytes" where
  "first_group a = take 8 a @ replicate (8 - length a) 0"

definition group_marker :: "bytes \<Rightarrow> byte" where
  "group_marker a = 247 + word_of_nat (min 8 (length a))"

lemma length_first_group [simp]: "length (first_group a) = 8"
  by (simp add: first_group_def min_def)

lemma encode_groups_unfold:
  "encode_groups a = first_group a @ group_marker a #
    (if length a \<ge> 8 then encode_groups (drop 8 a) else [])"
proof (cases "length a \<ge> 8")
  case True
  then show ?thesis
    by (simp add: encode_groups.simps [of a] first_group_def group_marker_def ENCODE_GROUP_SIZE_def ENCODE_MARKER_def)
next
  case False
  then have "(0xFF :: byte) - word_of_nat (8 - length a) = 247 + word_of_nat (length a)"
    by (simp add: of_nat_diff)
  with False show ?thesis
    by (simp add: encode_groups.simps [of a] first_group_def group_marker_def ENCODE_GROUP_SIZE_def
        ENCODE_MARKER_def Let_def min_def)
qed

lemma group_marker_less: "min 8 (length a) < min 8 (length b) \<Longrightarrow> group_marker a < group_marker b"
  by (simp add: group_marker_def word_less_nat_alt unat_word_ariths unat_of_nat)

lemma zeros_le: "length z = n \<Longrightarrow> replicate n (0 :: byte) \<le> z"
proof (induction n arbitrary: z)
  case (Suc n)
  then show ?case by (cases z) (auto simp: word_gt_0)
qed simp

lemma padded_less:
  fixes x y :: bytes
  assumes "x < y" "length x \<le> n" "length y \<le> n"
  shows "x @ replicate (n - length x) 0 < y @ replicate (n - length y) 0 \<or>
    (x @ replicate (n - length x) 0 = y @ replicate (n - length y) 0 \<and> length x < length y)"
  using assms
proof (induction x arbitrary: y n)
  case Nil
  then have "y \<noteq> []" by auto
  have "replicate n 0 \<le> y @ replicate (n - length y) (0 :: byte)"
    using Nil by (intro zeros_le) simp
  then show ?case using \<open>y \<noteq> []\<close> by (auto simp: order_le_less)
next
  case (Cons a x)
  then obtain b y' m where "y = b # y'" "n = Suc m" by (cases y; cases n) auto
  with Cons show ?case by auto
qed

lemma less_take_drop:
  fixes a b :: bytes
  assumes "a < b"
  shows "take n a < take n b \<or> (take n a = take n b \<and> drop n a < drop n b)"
  using assms
proof (induction n arbitrary: a b)
  case (Suc n)
  then show ?case by (cases a; cases b) auto
qed simp

text \<open>The three ways in which the first group of the smaller string can be the smaller one.\<close>

lemma first_group_less:
  assumes "a < b"
  shows "first_group a < first_group b \<or>
    (first_group a = first_group b \<and> min 8 (length a) < min 8 (length b)) \<or>
    (first_group a = first_group b \<and> 8 \<le> length a \<and> 8 \<le> length b \<and> drop 8 a < drop 8 b)"
proof -
  have g: "first_group c = take 8 c @ replicate (8 - length (take 8 c)) 0" for c
    by (simp add: first_group_def min_def)
  consider "take 8 a < take 8 b" | "take 8 a = take 8 b" "drop 8 a < drop 8 b"
    using less_take_drop [OF assms] by blast
  then show ?thesis
  proof cases
    case 1
    then show ?thesis using padded_less [OF 1, of 8] unfolding g by (auto simp: min.commute)
  next
    case 2
    have "8 < length b"
    proof (rule ccontr)
      assume "\<not> 8 < length b"
      then have "drop 8 b = []" by simp
      with 2(2) show False by simp
    qed
    moreover from this have "8 \<le> length a" using arg_cong [OF 2(1), of length] by simp
    ultimately show ?thesis using 2 unfolding g by simp
  qed
qed

lemma encode_groups_less: "a < b \<Longrightarrow> byte_less (encode_groups a) (encode_groups b)"
proof (induction a arbitrary: b rule: encode_groups.induct)
  case (1 a)
  from first_group_less [OF 1(2)] show ?case
  proof (elim disjE conjE)
    assume "first_group a < first_group b"
    then show ?thesis unfolding encode_groups_unfold [of a] encode_groups_unfold [of b]
      by (intro byte_less_appendI) (simp add: byte_less_same_length)
  next
    assume "first_group a = first_group b" "min 8 (length a) < min 8 (length b)"
    then show ?thesis unfolding encode_groups_unfold [of a] encode_groups_unfold [of b]
      by (simp add: group_marker_less)
  next
    assume "first_group a = first_group b" "8 \<le> length a" "8 \<le> length b" "drop 8 a < drop 8 b"
    then show ?thesis
      using 1(1) [of "drop 8 b"] unfolding encode_groups_unfold [of a] encode_groups_unfold [of b]
      by (simp add: group_marker_def ENCODE_GROUP_SIZE_def)
  qed
qed

interpretation enc_str: order_codec encode_groups id "\<lambda>_. True"
  by unfold_locales (simp_all add: encode_groups_less)

section \<open>Keys of single columns\<close>

text \<open>
  The values whose encoding is order preserving when it is appended to a buffer of \<open>n\<close> bytes: every
  scalar but NaN, and the strings for which \<open>realloc_bytes\<close> does not extend the buffer.
\<close>

definition key_domain :: "nat \<Rightarrow> 'd data_value \<Rightarrow> bool" where
  "key_domain n v = (case v of
     Null \<Rightarrow> False
   | Decimal _ \<Rightarrow> False
   | Tuple _ _ \<Rightarrow> False
   | Float32 w \<Rightarrow> \<not> f32_is_nan w
   | Float64 w \<Rightarrow> \<not> f64_is_nan w
   | Utf8 s _ _ \<Rightarrow> (length s div 8 + 1) * 9 \<le> n
   | _ \<Rightarrow> True)"

definition column_bytes :: "'d crates \<Rightarrow> 'd data_value \<Rightarrow> bytes" where
  "column_bytes K v = (case v of Utf8 s _ _ \<Rightarrow> encode_groups s | _ \<Rightarrow> memcomparable_scalar K v)"

lemma key_domain_mono: "key_domain n v \<Longrightarrow> n \<le> m \<Longrightarrow> key_domain m v"
  by (cases v) (auto simp: key_domain_def)

lemma memcomparable_encode_column:
  assumes "key_domain (length b) v"
  shows "memcomparable_encode K v b = Ok (b @ column_bytes K v)"
  using assms
  by (cases v) (auto simp: key_domain_def column_bytes_def encode_bytes_def realloc_bytes_def ENCODE_GROUP_SIZE_def)

lemma bool_codec: "order_codec (\<lambda>v. memcomparable_scalar K (Boolean v)) id (\<lambda>_. True)"
  by unfold_locales auto

lemma column_bytes_order:
  assumes "ordered_float_laws K" "key_domain n a" "key_domain m b" "value_tag a = value_tag b"
  shows "\<exists>c. partial_cmp K a b = Some c \<and>
    (\<forall>r s. cmp_of (column_bytes K a @ r) (column_bytes K b @ s) = then_ord c (cmp_of r (s :: bytes)))"
proof -
  note codecs = enc_i8.cmp_enc_append enc_i16.cmp_enc_append enc_i32.cmp_enc_append
    enc_i64.cmp_enc_append enc_u8.cmp_enc_append enc_u16.cmp_enc_append enc_u32.cmp_enc_append
    enc_u64.cmp_enc_append enc_f32.cmp_enc_append enc_f64.cmp_enc_append enc_str.cmp_enc_append
    order_codec.cmp_enc_append [OF bool_codec]
  have dates: "memcomparable_scalar K (Date32 x) = memcomparable_scalar K (Int32 x)"
    "memcomparable_scalar K (Date64 y) = memcomparable_scalar K (Int64 y)"
    "memcomparable_scalar K (Time32 x p) = memcomparable_scalar K (UInt32 x)"
    "memcomparable_scalar K (Time64 y p z) = memcomparable_scalar K (Int64 y)" for x y p z by simp_all
  show ?thesis
    using assms(2-4)
    by (cases a; cases b)
      (simp_all add: key_domain_def column_bytes_def codecs dates scmp_def cmp_of_uint
        of32_cmp_key [OF assms(1)] f32_order_key_def f64_order_key_def del: memcomparable_scalar.simps be_bytes.simps)
qed

section \<open>Keys of several columns\<close>

text \<open>Column by column comparison; it stops when either side is exhausted.\<close>

fun lex_cmp :: "'d crates \<Rightarrow> 'd data_value list \<Rightarrow> 'd data_value list \<Rightarrow> ordering option" where
  "lex_cmp K (v # vs) (w # ws) =
    (case partial_cmp K v w of Some Equal \<Rightarrow> lex_cmp K vs ws | r \<Rightarrow> r)"
| "lex_cmp K _ _ = Some Equal"

definition same_tags :: "'d data_value list \<Rightarrow> 'd data_value list \<Rightarrow> bool" where
  "same_tags vs ws \<longleftrightarrow> list_all2 (\<lambda>v w. value_tag v = value_tag w) (take (length ws) vs) ws"

fun tuple_bytes :: "'d crates \<Rightarrow> bool \<Rightarrow> 'd data_value list \<Rightarrow> bytes" where
  "tuple_bytes K up [] = []"
| "tuple_bytes K up (v # vs) = column_bytes K v @
     (if vs = [] \<and> up then BOUND_MAX_TAG else BOUND_MIN_TAG) # tuple_bytes K up vs"

lemma memcomparable_tuple_bytes:
  assumes "\<forall>v \<in> set vs. key_domain (length b) v"
  shows "memcomparable_tuple K up vs b = Ok (b @ tuple_bytes K up vs)"
  using assms
proof (induction vs arbitrary: b)
  case (Cons v vs)
  have "v \<noteq> Null" using Cons.prems by (auto simp: key_domain_def)
  moreover have "\<forall>w \<in> set vs. key_domain (length (b @ column_bytes K v @ [t])) w" for t
    using Cons.prems by (auto intro: key_domain_mono)
  ultimately show ?case
    using Cons by (simp add: memcomparable_encode_column)
qed simp

lemma same_tags_simps [simp]:
  "same_tags vs []" "same_tags [] ws \<longleftrightarrow> ws = []"
  "same_tags (v # vs) (w # ws) \<longleftrightarrow> value_tag v = value_tag w \<and> same_tags vs ws"
  by (simp_all add: same_tags_def)

lemma cmp_Cons_same [simp]: "cmp_of (x # xs) (x # ys) = cmp_of xs (ys :: 'a::linorder list)"
  by (simp add: cmp_of_def)

lemma then_ord_assoc [simp]: "then_ord (then_ord a b) c = then_ord a (then_ord b c)"
  by (cases a) simp_all

lemma then_ord_Equal [simp]: "then_ord a Equal = a"
  by (cases a) simp_all

text \<open>A key against a bound on its first columns; \<open>r\<close> is what follows the columns in the key.\<close>

lemma tuple_bytes_lower:
  assumes "ordered_float_laws K" "same_tags vs ws"
    and "\<forall>v \<in> set vs. key_domain n v" "\<forall>w \<in> set ws. key_domain m w"
  shows "\<exists>c. lex_cmp K vs ws = Some c \<and>
    cmp_of (tuple_bytes K False vs @ r) (tuple_bytes K False ws)
      = then_ord c (cmp_of (tuple_bytes K False (drop (length ws) vs) @ r) [])"
  using assms
proof (induction K vs ws rule: lex_cmp.induct)
  case (1 K v vs w ws)
  then obtain c where c: "partial_cmp K v w = Some c"
    "\<And>p q. cmp_of (column_bytes K v @ p) (column_bytes K w @ q) = then_ord c (cmp_of p (q :: bytes))"
    using column_bytes_order [OF 1(2), of n v m w] by auto
  then show ?case using 1 by (cases c) auto
qed auto

lemma tuple_bytes_upper:
  assumes "ordered_float_laws K" "same_tags vs ws" "ws \<noteq> []"
    and "\<forall>v \<in> set vs. key_domain n v" "\<forall>w \<in> set ws. key_domain m w"
  shows "\<exists>c. lex_cmp K vs ws = Some c \<and>
    cmp_of (tuple_bytes K False vs @ r) (tuple_bytes K True ws) = then_ord c Less"
  using assms
proof (induction K vs ws rule: lex_cmp.induct)
  case (1 K v vs w ws)
  then obtain c where c: "partial_cmp K v w = Some c"
    "\<And>p q. cmp_of (column_bytes K v @ p) (column_bytes K w @ q) = then_ord c (cmp_of p (q :: bytes))"
    using column_bytes_order [OF 1(2), of n v m w] by auto
  show ?case
  proof (cases "ws = []")
    case True
    have "cmp_of (BOUND_MIN_TAG # x) [BOUND_MAX_TAG] = Less" for x
      by (simp add: BOUND_MIN_TAG_def BOUND_MAX_TAG_def cmp_of_def)
    with c True show ?thesis by (cases c) auto
  next
    case False
    with c 1 show ?thesis by (cases c) auto
  qed
qed auto

lemma encode_bytes_length:
  "length (encode_bytes b s) = max (length b) ((length s div 8 + 1) * 9) + length (encode_groups s)"
  by (simp add: encode_bytes_def realloc_bytes_def ENCODE_GROUP_SIZE_def max_def Let_def)

lemma length_encode_groups: "length (encode_groups s) = (length s div 8 + 1) * 9"
proof (induction s rule: encode_groups.induct)
  case (1 s)
  show ?case
  proof (cases "8 \<le> length s")
    case True
    then have "length s div 8 = Suc ((length s - 8) div 8)" by (simp add: le_div_geq)
    with 1 True show ?thesis by (simp add: encode_groups_unfold [of s] ENCODE_GROUP_SIZE_def)
  next
    case False
    then show ?thesis by (simp add: encode_groups_unfold [of s])
  qed
qed

lemma append_le_same [simp]: "buf @ x \<le> buf @ y \<longleftrightarrow> x \<le> (y :: 'a::linorder list)"
  by (induction buf) auto

section \<open>Properties\<close>





text \<open>
  Distinct strings have distinct keys, with any buffer (uniqueness of primary keys does not depend
  on the padding that \<open>realloc_bytes\<close> inserts).
\<close>

theorem encode_bytes_injective: "encode_bytes b s = encode_bytes b t \<longleftrightarrow> s = t"
proof
  assume eq: "encode_bytes b s = encode_bytes b t"
  from arg_cong [OF this, of length] have "length s div 8 = length t div 8"
    by (auto simp: encode_bytes_length length_encode_groups max_def split: if_splits)
  with eq have "encode_groups s = encode_groups t" by (simp add: encode_bytes_def ENCODE_GROUP_SIZE_def)
  then show "s = t" using enc_str.enc_inject [of s t] by simp
qed simp


text \<open>
  The key of a NaN sorts among the finite numbers although \<open>ordered_float\<close> makes NaN the greatest
  value.
\<close>

theorem nan_key_not_greatest:
  "partial_cmp sample_crates (Float32 0x7FC00000) (Float32 0x3F800000) = Some Greater \<and>
   memcomparable_scalar sample_crates (Float32 0x7FC00000) < memcomparable_scalar sample_crates (Float32 0x3F800000)"
proof -
  have "ordered_float_laws sample_crates" by (rule ordered_float_laws_sample)
  then show ?thesis
    by (simp add: of32_cmp_key f32_order_key_def f32_key_def f32_is_nan_def cmp_of_def f32_bits_def f32_ge_zero_def
        be_bytes_less_iff del: be_bytes.simps)
qed

end
