(* ===== verification/Raw_Codec.thy ===== *)
theory Raw_Codec
  imports Value_Ops
begin

text \<open>
  The row-storage encoding of single values: \<open>to_raw\<close> and \<open>from_raw\<close> of \<open>src/src/types/value.rs\<close>. A
  writer is the bytes appended, a reader the bytes not yet read; \<open>seek\<close> past the end leaves nothing
  to read. The theory shows that the decoder returns the encoded value (a \<open>CHAR\<close> without its
  trailing spaces), that it consumes exactly the encoding, and that skipping a column that is not
  projected consumes exactly the same bytes.
\<close>

section \<open>Encoder\<close>

definition space :: byte where
  "space = 0x20"

text \<open>\<open>format!("{:len$}", v)\<close>: padded with spaces to \<open>len\<close> characters.\<close>

definition pad_chars :: "nat \<Rightarrow> rstring \<Rightarrow> rstring" where
  "pad_chars len v = v @ replicate (len - char_count v) space"

fun to_raw :: "'d crates \<Rightarrow> 'd data_value \<Rightarrow> bytes res" where
  "to_raw K Null = Ok []"
| "to_raw K (Boolean v) = Ok [if v then 1 else 0]"
| "to_raw K (Float32 v) = Ok (le_bytes 4 (unat v))"
| "to_raw K (Float64 v) = Ok (le_bytes 8 (unat v))"
| "to_raw K (Int8 v) = Ok (le_bytes 1 (unat v))"
| "to_raw K (Int16 v) = Ok (le_bytes 2 (unat v))"
| "to_raw K (Int32 v) = Ok (le_bytes 4 (unat v))"
| "to_raw K (Int64 v) = Ok (le_bytes 8 (unat v))"
| "to_raw K (UInt8 v) = Ok (le_bytes 1 (unat v))"
| "to_raw K (UInt16 v) = Ok (le_bytes 2 (unat v))"
| "to_raw K (UInt32 v) = Ok (le_bytes 4 (unat v))"
| "to_raw K (UInt64 v) = Ok (le_bytes 8 (unat v))"
| "to_raw K (Utf8 v ty unit) =
     (case ty of
        Variable _ \<Rightarrow> Ok (le_bytes 4 (length v) @ v)
      | Fixed len \<Rightarrow>
          (case unit of
             Characters \<Rightarrow>
               (let v' = pad_chars (unat len) v in Ok (le_bytes 4 (length v') @ v'))
           | Octets \<Rightarrow>
               if unat len < length v then Err Panic
               else Ok (v @ replicate (unat len - length v) space)))"
| "to_raw K (Date32 v) = Ok (le_bytes 4 (unat v))"
| "to_raw K (Date64 v) = Ok (le_bytes 8 (unat v))"
| "to_raw K (Time32 v _) = Ok (le_bytes 4 (unat v))"
| "to_raw K (Time64 v _ _) = Ok (le_bytes 8 (unat v))"
| "to_raw K (Decimal v) = Ok (dec_serialize K v)"
| "to_raw K (Tuple _ _) = Err Panic"

section \<open>Decoder\<close>

text \<open>
  \<open>read_exact\<close> of \<open>n\<close> bytes; the fixed-width cases of \<open>from_raw\<close> skip \<open>n\<close> bytes when the column is
  not projected and decode \<open>n\<close> bytes otherwise.
\<close>

definition read_exact :: "nat \<Rightarrow> bytes \<Rightarrow> (bytes \<times> bytes) res" where
  "read_exact n bs = (if length bs < n then Err IO else Ok (take n bs, drop n bs))"

definition read_fixed ::
  "nat \<Rightarrow> (bytes \<Rightarrow> 'd data_value) \<Rightarrow> bytes \<Rightarrow> bool \<Rightarrow> ('d data_value option \<times> bytes) res" where
  "read_fixed n mk bs is_projection =
    (if \<not> is_projection then Ok (None, drop n bs)
     else res_bind (read_exact n bs) (\<lambda>(b, rest). Ok (Some (mk b), rest)))"

definition le_word :: "bytes \<Rightarrow> 'w::len word" where
  "le_word b = word_of_nat (le_nat b)"

text \<open>Removal of trailing spaces, and the check of \<open>String::from_utf8\<close>.\<close>

definition rtrim :: "rstring \<Rightarrow> rstring" where
  "rtrim b = rev (dropWhile (\<lambda>x. x = space) (rev b))"

definition from_utf8 :: "bytes \<Rightarrow> rstring res" where
  "from_utf8 b = (if utf8_valid b then Ok b else Err FromUtf8Error)"

definition opt0 :: "64 word option \<Rightarrow> 64 word" where
  "opt0 p = (case p of Some x \<Rightarrow> x | None \<Rightarrow> 0)"

fun from_raw ::
  "'d crates \<Rightarrow> bytes \<Rightarrow> logical_type \<Rightarrow> bool \<Rightarrow> ('d data_value option \<times> bytes) res" where
  "from_raw K bs SqlNull is_projection =
     (if \<not> is_projection then Ok (None, bs) else Ok (Some Null, bs))"
| "from_raw K bs BooleanT is_projection = read_fixed 1 (\<lambda>b. Boolean (le_nat b \<noteq> 0)) bs is_projection"
| "from_raw K bs Tinyint is_projection = read_fixed 1 (Int8 \<circ> le_word) bs is_projection"
| "from_raw K bs UTinyint is_projection = read_fixed 1 (UInt8 \<circ> le_word) bs is_projection"
| "from_raw K bs Smallint is_projection = read_fixed 2 (Int16 \<circ> le_word) bs is_projection"
| "from_raw K bs USmallint is_projection = read_fixed 2 (UInt16 \<circ> le_word) bs is_projection"
| "from_raw K bs Integer is_projection = read_fixed 4 (Int32 \<circ> le_word) bs is_projection"
| "from_raw K bs UInteger is_projection = read_fixed 4 (UInt32 \<circ> le_word) bs is_projection"
| "from_raw K bs Bigint is_projection = read_fixed 8 (Int64 \<circ> le_word) bs is_projection"
| "from_raw K bs UBigint is_projection = read_fixed 8 (UInt64 \<circ> le_word) bs is_projection"
| "from_raw K bs FloatT is_projection = read_fixed 4 (Float32 \<circ> le_word) bs is_projection"
| "from_raw K bs DoubleT is_projection = read_fixed 8 (Float64 \<circ> le_word) bs is_projection"
| "from_raw K bs (CharT ty_len unit) is_projection =
     res_bind
       (case unit of
          Characters \<Rightarrow> res_bind (read_exact 4 bs) (\<lambda>(l, r). Ok (le_nat l, r))
        | Octets \<Rightarrow> Ok (unat ty_len, bs))
       (\<lambda>(len, r).
         if \<not> is_projection then Ok (None, drop len r)
         else res_bind (read_exact len r) (\<lambda>(b, rest).
           res_bind (from_utf8 (rtrim b)) (\<lambda>value.
             Ok (Some (Utf8 value (Fixed ty_len) unit), rest))))"
| "from_raw K bs (Varchar ty_len unit) is_projection =
     res_bind (read_exact 4 bs) (\<lambda>(l, r).
       let len = le_nat l in
       if \<not> is_projection then Ok (None, drop len r)
       else res_bind (read_exact len r) (\<lambda>(b, rest).
         res_bind (from_utf8 b) (\<lambda>value.
           Ok (Some (Utf8 value (Variable ty_len) unit), rest))))"
| "from_raw K bs DateT is_projection = read_fixed 4 (Date32 \<circ> le_word) bs is_projection"
| "from_raw K bs DateTimeT is_projection = read_fixed 8 (Date64 \<circ> le_word) bs is_projection"
| "from_raw K bs (TimeT precision) is_projection =
     read_fixed 4 (\<lambda>b. Time32 (le_word b) (opt0 precision)) bs is_projection"
| "from_raw K bs (TimeStampT precision zone) is_projection =
     read_fixed 8 (\<lambda>b. Time64 (le_word b) (opt0 precision) zone) bs is_projection"
| "from_raw K bs (DecimalT _ _) is_projection =
     read_fixed 16 (Decimal \<circ> dec_deserialize K) bs is_projection"
| "from_raw K bs (TupleT _) is_projection = Err Panic"

section \<open>Values that fit a column\<close>

text \<open>
  The values a column of a type stores: the constructor of the type, its parameters, and for strings
  the declared length. A decimal fits when \<open>rust_decimal\<close>'s own serialisation round-trips on it.
\<close>

definition string_fits :: "logical_type \<Rightarrow> rstring \<Rightarrow> utf8_type \<Rightarrow> char_length_units \<Rightarrow> bool" where
  "string_fits ty s u_ty unit \<longleftrightarrow> utf8_valid s \<and>
    (case ty of
       CharT len unit' \<Rightarrow> u_ty = Fixed len \<and> unit = unit' \<and>
         (case unit of Characters \<Rightarrow> length (pad_chars (unat len) s) < 2 ^ 32
          | Octets \<Rightarrow> length s \<le> unat len)
     | Varchar len unit' \<Rightarrow> u_ty = Variable len \<and> unit = unit' \<and> length s < 2 ^ 32
     | _ \<Rightarrow> False)"

fun fits :: "'d crates \<Rightarrow> logical_type \<Rightarrow> 'd data_value \<Rightarrow> bool" where
  "fits K ty Null \<longleftrightarrow> False"
| "fits K ty (Boolean _) \<longleftrightarrow> ty = BooleanT"
| "fits K ty (Float32 _) \<longleftrightarrow> ty = FloatT"
| "fits K ty (Float64 _) \<longleftrightarrow> ty = DoubleT"
| "fits K ty (Int8 _) \<longleftrightarrow> ty = Tinyint"
| "fits K ty (Int16 _) \<longleftrightarrow> ty = Smallint"
| "fits K ty (Int32 _) \<longleftrightarrow> ty = Integer"
| "fits K ty (Int64 _) \<longleftrightarrow> ty = Bigint"
| "fits K ty (UInt8 _) \<longleftrightarrow> ty = UTinyint"
| "fits K ty (UInt16 _) \<longleftrightarrow> ty = USmallint"
| "fits K ty (UInt32 _) \<longleftrightarrow> ty = UInteger"
| "fits K ty (UInt64 _) \<longleftrightarrow> ty = UBigint"
| "fits K ty (Utf8 s u_ty unit) \<longleftrightarrow> string_fits ty s u_ty unit"
| "fits K ty (Date32 _) \<longleftrightarrow> ty = DateT"
| "fits K ty (Date64 _) \<longleftrightarrow> ty = DateTimeT"
| "fits K ty (Time32 _ p) \<longleftrightarrow> (case ty of TimeT q \<Rightarrow> p = opt0 q | _ \<Rightarrow> False)"
| "fits K ty (Time64 _ p z) \<longleftrightarrow> (case ty of TimeStampT q z' \<Rightarrow> p = opt0 q \<and> z = z' | _ \<Rightarrow> False)"
| "fits K ty (Decimal d) \<longleftrightarrow> (case ty of DecimalT _ _ \<Rightarrow> True | _ \<Rightarrow> False) \<and>
     length (dec_serialize K d) = 16 \<and> dec_deserialize K (dec_serialize K d) = d"
| "fits K ty (Tuple _ _) \<longleftrightarrow> False"

text \<open>What is read back: a \<open>CHAR\<close> loses its trailing spaces, every other value is itself.\<close>

definition stored :: "'d data_value \<Rightarrow> 'd data_value" where
  "stored v = (case v of Utf8 s (Fixed len) unit \<Rightarrow> Utf8 (rtrim s) (Fixed len) unit | _ \<Rightarrow> v)"

section \<open>Lemmas\<close>

lemma read_exact_append [simp]: "length e = n \<Longrightarrow> read_exact n (e @ rest) = Ok (e, rest)"
  by (simp add: read_exact_def)

lemma read_fixed_append [simp]:
  assumes "length e = n"
  shows "read_fixed n mk (e @ rest) True = Ok (Some (mk e), rest)"
    and "read_fixed n mk (e @ rest) False = Ok (None, rest)"
  using assms by (simp_all add: read_fixed_def)

lemma read_fixed_byte [simp]:
  "read_fixed (Suc 0) mk (b # rest) True = Ok (Some (mk [b]), rest)"
  "read_fixed (Suc 0) mk (b # rest) False = Ok (None, rest)"
  using read_fixed_append [of "[b]" "Suc 0" mk rest] by simp_all

lemma le_word_le_bytes:
  fixes w :: "'w::len word"
  assumes "LENGTH('w) \<le> 8 * n"
  shows "le_word (le_bytes n (unat w)) = w"
proof -
  have "unat w < 2 ^ LENGTH('w)" by (rule unsigned_less)
  also have "\<dots> \<le> 2 ^ (8 * n)" using assms by (intro power_increasing) simp_all
  also have "\<dots> = 256 ^ n" by (simp add: power_mult)
  finally show ?thesis by (simp add: le_word_def le_nat_le_bytes)
qed

lemma le_nat_length: "n < 2 ^ 32 \<Longrightarrow> le_nat (le_bytes 4 n) = n"
  by (simp add: le_nat_le_bytes)

lemma rtrim_spaces [simp]: "rtrim (s @ replicate n space) = rtrim s"
proof (induction n)
  case (Suc n)
  have "s @ replicate (Suc n) space = (s @ replicate n space) @ [space]"
    by (simp add: replicate_append_same)
  with Suc show ?case by (simp add: rtrim_def del: replicate_Suc)
qed simp

lemma rtrim_prefix: "\<exists>n. s = rtrim s @ replicate n space"
proof -
  have "rev s = takeWhile (\<lambda>x. x = space) (rev s) @ dropWhile (\<lambda>x. x = space) (rev s)" by simp
  then have "s = rtrim s @ rev (takeWhile (\<lambda>x. x = space) (rev s))"
    by (metis rev_append rev_rev_ident rtrim_def)
  moreover have "rev (takeWhile (\<lambda>x. x = space) (rev s))
      = replicate (length (takeWhile (\<lambda>x. x = space) (rev s))) space"
    by (intro replicate_eqI) (auto dest: set_takeWhileD)
  ultimately show ?thesis by metis
qed

lemma space_not_cont [simp]: "lo \<ge> 0x80 \<Longrightarrow> \<not> in_range lo hi space"
proof
  assume "lo \<ge> 0x80" "in_range lo hi space"
  then have "(0x80 :: byte) \<le> 0x20" unfolding in_range_def space_def by (blast intro: order_trans)
  then show False by simp
qed

lemma utf8_valid_append_space: "utf8_valid (s @ [space]) \<longleftrightarrow> utf8_valid s"
proof (induction s rule: utf8_valid.induct)
  case (2 b bs)
  consider (one) "b < 0x80" | (two) "\<not> b < 0x80" "in_range 0xC2 0xDF b"
    | (three) "\<not> b < 0x80" "\<not> in_range 0xC2 0xDF b" "in_range 0xE0 0xEF b"
    | (more) "\<not> b < 0x80" "\<not> in_range 0xC2 0xDF b" "\<not> in_range 0xE0 0xEF b"
    by blast
  then show ?case
  proof cases
    case one
    then show ?thesis using 2(1) by simp
  next
    case two
    then show ?thesis using 2(2) by (cases bs) simp_all
  next
    case three
    then show ?thesis using 2(3) by (cases bs rule: remdups_adj.cases) simp_all
  next
    case more
    show ?thesis
    proof (cases bs rule: remdups_adj.cases)
      case (3 c d r)
      then show ?thesis using more 2(4) by (cases r) simp_all
    qed (use more in simp_all)
  qed
qed (simp add: space_def)

lemma utf8_valid_spaces: "utf8_valid (s @ replicate n space) \<longleftrightarrow> utf8_valid s"
proof (induction n)
  case (Suc n)
  then show ?case
    by (metis append_assoc replicate_Suc replicate_append_same utf8_valid_append_space)
qed simp

lemma utf8_valid_rtrim: "utf8_valid s \<Longrightarrow> utf8_valid (rtrim s)"
  using rtrim_prefix [of s] utf8_valid_spaces by metis

lemma pad_chars_props:
  "rtrim (pad_chars n s) = rtrim s" "utf8_valid (pad_chars n s) = utf8_valid s"
  by (simp_all add: pad_chars_def utf8_valid_spaces)

lemma raw_string:
  assumes "string_fits ty s u_ty unit"
  shows "\<exists>bs. to_raw K (Utf8 s u_ty unit) = Ok bs \<and>
    (\<forall>rest. from_raw K (bs @ rest) ty True = Ok (Some (stored (Utf8 s u_ty unit)), rest) \<and>
      from_raw K (bs @ rest) ty False = Ok (None, rest))"
proof (cases ty)
  case (CharT len unit')
  show ?thesis
  proof (cases unit)
    case Characters
    with assms CharT have "u_ty = Fixed len" "unit' = Characters"
      "length (pad_chars (unat len) s) < 2 ^ 32" "utf8_valid s"
      by (auto simp: string_fits_def)
    with Characters CharT show ?thesis
      by (auto simp: Let_def le_nat_length pad_chars_props from_utf8_def utf8_valid_rtrim stored_def)
  next
    case Octets
    with assms CharT have "u_ty = Fixed len" "unit' = Octets" "length s \<le> unat len" "utf8_valid s"
      by (auto simp: string_fits_def)
    with Octets CharT show ?thesis
      by (auto simp: from_utf8_def utf8_valid_rtrim stored_def
          read_exact_append [of "s @ replicate k space" for k, simplified])
  qed
next
  case (Varchar len unit')
  with assms have "u_ty = Variable len" "unit' = unit" "length s < 2 ^ 32" "utf8_valid s"
    by (auto simp: string_fits_def)
  with Varchar show ?thesis
    by (auto simp: Let_def le_nat_length from_utf8_def stored_def)
qed (use assms in \<open>simp_all add: string_fits_def\<close>)

lemma raw_roundtrip:
  assumes "fits K ty v"
  shows "\<exists>bs. to_raw K v = Ok bs \<and>
    (\<forall>rest. from_raw K (bs @ rest) ty True = Ok (Some (stored v), rest) \<and>
      from_raw K (bs @ rest) ty False = Ok (None, rest))"
proof (cases "\<exists>s u_ty unit. v = Utf8 s u_ty unit")
  case True
  with assms raw_string show ?thesis by auto
next
  case False
  with assms show ?thesis
    by (cases v) (auto simp: stored_def le_word_le_bytes simp del: le_bytes.simps
        split: logical_type.splits)
qed

section \<open>The contract of a field codec\<close>

text \<open>
  What a row relies on: the decoder of a field, run on the encoding followed by anything, returns the
  stored value and the rest, and when the field is not projected returns just the rest.
\<close>

locale field_codec =
  fixes enc :: "'v \<Rightarrow> bytes res"
    and dec :: "bytes \<Rightarrow> 't \<Rightarrow> bool \<Rightarrow> ('v option \<times> bytes) res"
    and accepts :: "'t \<Rightarrow> 'v \<Rightarrow> bool"
    and norm :: "'v \<Rightarrow> 'v"
  assumes field: "accepts ty v \<Longrightarrow> \<exists>bs. enc v = Ok bs \<and>
    (\<forall>rest. dec (bs @ rest) ty True = Ok (Some (norm v), rest) \<and>
      dec (bs @ rest) ty False = Ok (None, rest))"
begin

lemma enc_total: "accepts ty v \<Longrightarrow> \<exists>bs. enc v = Ok bs"
  using field by blast

lemma dec_projected: "accepts ty v \<Longrightarrow> enc v = Ok bs \<Longrightarrow> dec (bs @ rest) ty True = Ok (Some (norm v), rest)"
  using field by fastforce

lemma dec_skipped: "accepts ty v \<Longrightarrow> enc v = Ok bs \<Longrightarrow> dec (bs @ rest) ty False = Ok (None, rest)"
  using field by fastforce

text \<open>No encoding of a field is a proper prefix of another encoding of the same type.\<close>

lemma enc_prefix_free:
  assumes "accepts ty v" "accepts ty w" "enc v = Ok bs" "enc w = Ok bs'" "bs @ r = bs' @ r'"
  shows "norm v = norm w \<and> r = r'"
  using dec_projected [OF assms(1,3), of r] dec_projected [OF assms(2,4), of r'] assms(5) by simp

end

interpretation raw: field_codec "to_raw K" "from_raw K" "fits K" stored
  by unfold_locales (rule raw_roundtrip)

section \<open>Properties\<close>

text \<open>
  C17: A value that fits its column is encoded without error, and decoding the encoding followed by
  any further bytes returns the value (a \<open>CHAR\<close> without its trailing spaces) and leaves exactly the
  further bytes; skipping the column leaves the same bytes.
\<close>

theorem from_raw_to_raw:
  assumes "fits K ty v"
  shows "\<exists>bs. to_raw K v = Ok bs \<and> from_raw K (bs @ rest) ty True = Ok (Some (stored v), rest) \<and>
    from_raw K (bs @ rest) ty False = Ok (None, rest)"
  using raw.field [OF assms] by blast

theorem from_raw_to_raw_witness:
  "\<exists>bs. to_raw sample_crates (Utf8 [104, 105, 32] (Fixed 4) Octets) = Ok bs \<and>
    from_raw sample_crates (bs @ [7]) (CharT 4 Octets) True = Ok (Some (Utf8 [104, 105] (Fixed 4) Octets), [7]) \<and>
    from_raw sample_crates (bs @ [7]) (CharT 4 Octets) False = Ok (None, [7])"
  using from_raw_to_raw [of sample_crates "CharT 4 Octets" "Utf8 [104, 105, 32] (Fixed 4) Octets" "[7]"]
  by (simp add: string_fits_def stored_def rtrim_def space_def)

text \<open>
  A fixed-width type is stored in exactly \<open>raw_len\<close> bytes.
\<close>

theorem raw_len_to_raw:
  assumes "fits K ty v" "raw_len ty = Ok (Some n)" "to_raw K v = Ok bs"
  shows "length bs = n"
  using assms
  by (cases v)
    (auto simp: string_fits_def Let_def split: logical_type.splits char_length_units.splits
      simp del: le_bytes.simps)

theorem raw_len_to_raw_witness:
  "to_raw sample_crates (Int32 5) = Ok (le_bytes 4 5) \<and> length (le_bytes 4 5) = 4"
  using raw_len_to_raw [of sample_crates Integer "Int32 5" 4 "le_bytes 4 5"] by simp

end
