(* ===== verification/Tuple_Codec.thy ===== *)
theory Tuple_Codec
  imports Raw_Codec
begin

text \<open>
  Rows: \<open>Tuple\<close> of \<open>src/src/types/tuple.rs\<close> with \<open>serialize_to\<close>, \<open>deserialize_from\<close> and
  \<open>primary_projection\<close>. A row is stored as a null bitmap (one bit per column, the most significant
  bit first) followed by the raw encodings of the columns that are not null. The loops take the
  field encoder and decoder as arguments, so that their correctness is proved against the contract
  \<open>field_codec\<close>; the operations instantiate them with \<open>to_raw\<close> and \<open>from_raw\<close>.
\<close>

section \<open>Null bitmap\<close>

definition BITS_MAX_INDEX :: nat where
  "BITS_MAX_INDEX = 8"

definition flip_bit8 :: "byte \<Rightarrow> nat \<Rightarrow> byte" where
  "flip_bit8 bits i = bits OR push_bit (7 - i) 1"

definition is_none_bit :: "byte \<Rightarrow> nat \<Rightarrow> bool" where
  "is_none_bit bits i \<longleftrightarrow> bits AND push_bit (7 - i) 1 > 0"

definition bits_len :: "nat \<Rightarrow> nat" where
  "bits_len n = (n + BITS_MAX_INDEX) div BITS_MAX_INDEX"

section \<open>Rows\<close>

record 'd tuple =
  pk :: "'d data_value option"
  tuple_values :: "'d data_value list"

text \<open>\<open>serialize_to\<close>: the loop over the columns from index \<open>i\<close> on, writing into \<open>bytes\<close>.\<close>

fun serialize_loop ::
  "('v \<Rightarrow> bytes res) \<Rightarrow> ('v \<Rightarrow> bool) \<Rightarrow> nat \<Rightarrow> bytes \<Rightarrow> 'v list \<Rightarrow> bytes res" where
  "serialize_loop enc null i bytes [] = Ok bytes"
| "serialize_loop enc null i bytes (v # vs) =
    (if null v
     then serialize_loop enc null (Suc i)
       (bytes[i div BITS_MAX_INDEX := flip_bit8 (bytes ! (i div BITS_MAX_INDEX)) (i mod BITS_MAX_INDEX)]) vs
     else res_bind (enc v) (\<lambda>raw. serialize_loop enc null (Suc i) (bytes @ raw) vs))"

definition serialize_to :: "'d crates \<Rightarrow> 'd tuple \<Rightarrow> logical_type list \<Rightarrow> bytes res" where
  "serialize_to K t types =
    (if length (tuple_values t) \<noteq> length types then Err Panic
     else serialize_loop (to_raw K) is_null 0
       (replicate (bits_len (length (tuple_values t))) 0) (tuple_values t))"

text \<open>
  \<open>deserialize_from\<close>: the loop over the column types from index \<open>i\<close> on. \<open>projection_i\<close> counts the
  projected columns already read, \<open>values\<close> is the result vector, \<open>cursor\<close> the bytes left.
\<close>

fun deserialize_loop ::
  "(bytes \<Rightarrow> 't \<Rightarrow> bool \<Rightarrow> ('v option \<times> bytes) res) \<Rightarrow> bytes \<Rightarrow> nat list \<Rightarrow> nat \<Rightarrow>
   nat \<Rightarrow> nat \<Rightarrow> 'v list \<Rightarrow> bytes \<Rightarrow> 't list \<Rightarrow> 'v list res" where
  "deserialize_loop dec bytes projections types_len i projection_i values cursor [] = Ok values"
| "deserialize_loop dec bytes projections types_len i projection_i values cursor (ty # tys) =
    (if length projections \<le> projection_i then Ok values
     else if \<not> projection_i < types_len then Err Panic
     else if is_none_bit (bytes ! (i div BITS_MAX_INDEX)) (i mod BITS_MAX_INDEX)
     then deserialize_loop dec bytes projections types_len (Suc i) (Suc projection_i) values cursor tys
     else res_bind (dec cursor ty (projections ! projection_i = i)) (\<lambda>(r, cursor').
       case r of
         Some value \<Rightarrow> deserialize_loop dec bytes projections types_len (Suc i) (Suc projection_i)
           (values[projection_i := value]) cursor' tys
       | None \<Rightarrow> deserialize_loop dec bytes projections types_len (Suc i) projection_i values cursor' tys))"

definition index_res :: "'a list \<Rightarrow> nat \<Rightarrow> 'a res" where
  "index_res xs i = (if i < length xs then Ok (xs ! i) else Err Panic)"

definition primary_projection :: "nat list \<Rightarrow> 'd data_value list \<Rightarrow> 'd data_value res" where
  "primary_projection pk_indices values =
    (if length pk_indices > 1
     then res_bind (res_map (index_res values) pk_indices) (\<lambda>vs. Ok (Tuple vs False))
     else res_bind (index_res pk_indices 0) (index_res values))"

text \<open>Of the schema only the length is used, in an assertion.\<close>

definition deserialize_from ::
  "'d crates \<Rightarrow> logical_type list \<Rightarrow> nat list \<Rightarrow> nat list \<Rightarrow> nat \<Rightarrow> bytes \<Rightarrow> bool \<Rightarrow> 'd tuple res" where
  "deserialize_from K table_types pk_indices projections schema_len bytes with_pk =
    (if schema_len = 0 \<or> \<not> sorted projections \<or> length projections \<noteq> schema_len then Err Panic
     else if length bytes < bits_len (length table_types) then Err Panic
     else res_bind
       (deserialize_loop (from_raw K) bytes projections (length table_types) 0 0
         (replicate (length projections) Null) (drop (bits_len (length table_types)) bytes) table_types)
       (\<lambda>values.
         if with_pk
         then res_bind (primary_projection pk_indices values)
           (\<lambda>key. Ok \<lparr> pk = Some key, tuple_values = values \<rparr>)
         else Ok \<lparr> pk = None, tuple_values = values \<rparr>))"

section \<open>The bitmap\<close>

lemma is_none_bit_iff: "is_none_bit b i \<longleftrightarrow> bit b (7 - i)"
proof -
  have "b AND push_bit (7 - i) 1 = (if bit b (7 - i) then push_bit (7 - i) 1 else 0)"
    by (rule bit_word_eqI) (auto simp: bit_simps)
  moreover have "bit (push_bit (7 - i) 1 :: byte) (7 - i)"
    by (simp add: bit_simps)
  then have "push_bit (7 - i) 1 \<noteq> (0 :: byte)" by auto
  ultimately show ?thesis by (simp add: is_none_bit_def word_gt_0)
qed

lemma is_none_flip:
  assumes "i < 8" "j < 8"
  shows "is_none_bit (flip_bit8 b i) j \<longleftrightarrow> i = j \<or> is_none_bit b j"
  using assms by (auto simp: is_none_bit_iff flip_bit8_def bit_simps)

lemma is_none_zero [simp]: "\<not> is_none_bit 0 i"
  by (simp add: is_none_bit_def)

lemma div_less_bits_len: "i < n \<Longrightarrow> i div 8 < bits_len n"
  by (simp add: bits_len_def BITS_MAX_INDEX_def)

text \<open>Column \<open>i\<close> of a bitmap, and the effect of setting a bit.\<close>

definition null_at :: "bytes \<Rightarrow> nat \<Rightarrow> bool" where
  "null_at nb i = is_none_bit (nb ! (i div 8)) (i mod 8)"

lemma null_at_update:
  assumes "i div 8 < length nb" "j div 8 < length nb"
  shows "null_at (nb[i div 8 := flip_bit8 (nb ! (i div 8)) (i mod 8)]) j \<longleftrightarrow> i = j \<or> null_at nb j"
proof (cases "i div 8 = j div 8")
  case True
  then have "i = j \<longleftrightarrow> i mod 8 = j mod 8" by (metis div_mult_mod_eq)
  then show ?thesis using True assms by (simp add: null_at_def is_none_flip)
next
  case False
  then show ?thesis by (auto simp: null_at_def)
qed

section \<open>Writing a row\<close>

definition enc_bytes :: "('v \<Rightarrow> bytes res) \<Rightarrow> 'v \<Rightarrow> bytes" where
  "enc_bytes enc v = (case enc v of Inr b \<Rightarrow> b | Inl _ \<Rightarrow> [])"

definition raw_data :: "('v \<Rightarrow> bytes res) \<Rightarrow> ('v \<Rightarrow> bool) \<Rightarrow> 'v list \<Rightarrow> bytes" where
  "raw_data enc null vs = concat (map (enc_bytes enc) (filter (\<lambda>v. \<not> null v) vs))"

lemma raw_data_simps [simp]:
  "raw_data enc null [] = []"
  "raw_data enc null (v # vs) = (if null v then [] else enc_bytes enc v) @ raw_data enc null vs"
  by (simp_all add: raw_data_def)

lemma serialize_loop_spec:
  assumes "\<forall>v \<in> set vs. \<not> null v \<longrightarrow> (\<exists>b. enc v = Ok b)"
    and "\<forall>j. i \<le> j \<and> j < i + length vs \<longrightarrow> j div 8 < length nb"
  shows "\<exists>nb'. serialize_loop enc null i (nb @ data) vs = Ok (nb' @ data @ raw_data enc null vs) \<and>
    length nb' = length nb \<and>
    (\<forall>j. j div 8 < length nb \<longrightarrow>
      (null_at nb' j \<longleftrightarrow> null_at nb j \<or> (i \<le> j \<and> j < i + length vs \<and> null (vs ! (j - i)))))"
  using assms
proof (induction vs arbitrary: i nb data)
  case (Cons v vs)
  have i8: "i div 8 < length nb" using Cons.prems(2) by simp
  have idx: "\<forall>j. Suc i \<le> j \<and> j < Suc i + length vs \<longrightarrow> j div 8 < length nb"
    using Cons.prems(2) by simp
  have split: "(i \<le> j \<and> j < i + length (v # vs) \<and> null ((v # vs) ! (j - i))) \<longleftrightarrow>
      (i = j \<and> null v) \<or> (Suc i \<le> j \<and> j < Suc i + length vs \<and> null (vs ! (j - Suc i)))" for j
    by (cases "i = j") (auto simp: nth_Cons' Suc_diff_Suc)
  show ?case
  proof (cases "null v")
    case True
    let ?nb = "nb[i div 8 := flip_bit8 (nb ! (i div 8)) (i mod 8)]"
    from Cons.IH [of "Suc i" ?nb data] obtain nb' where
      nb': "serialize_loop enc null (Suc i) (?nb @ data) vs = Ok (nb' @ data @ raw_data enc null vs)"
      "length nb' = length nb"
      "\<forall>j. j div 8 < length nb \<longrightarrow> (null_at nb' j \<longleftrightarrow> null_at ?nb j \<or>
        (Suc i \<le> j \<and> j < Suc i + length vs \<and> null (vs ! (j - Suc i))))"
      using Cons.prems(1) idx by auto
    then show ?thesis
      using True i8 unfolding split
      by (intro exI [of _ nb']) (auto simp: BITS_MAX_INDEX_def nth_append list_update_append null_at_update)
  next
    case False
    then obtain b where b: "enc v = Ok b" using Cons.prems(1) by auto
    from Cons.IH [of "Suc i" nb "data @ b"] obtain nb' where
      nb': "serialize_loop enc null (Suc i) (nb @ data @ b) vs = Ok (nb' @ data @ b @ raw_data enc null vs)"
      "length nb' = length nb"
      "\<forall>j. j div 8 < length nb \<longrightarrow> (null_at nb' j \<longleftrightarrow> null_at nb j \<or>
        (Suc i \<le> j \<and> j < Suc i + length vs \<and> null (vs ! (j - Suc i))))"
      using Cons.prems(1) idx by auto
    then show ?thesis
      using False b unfolding split by (intro exI [of _ nb']) (auto simp: enc_bytes_def)
  qed
qed auto

section \<open>Reading a row\<close>

text \<open>
  The columns that are null and not projected make the reader lose its place; a projection is safe
  when every null column it would pass over is itself projected or lies after the last projected one.
\<close>

definition safe_projection :: "nat list \<Rightarrow> nat set \<Rightarrow> bool" where
  "safe_projection projections nulls \<longleftrightarrow>
    (\<forall>k \<in> nulls. k \<in> set projections \<or> (\<forall>p \<in> set projections. p < k))"

lemma sorted_position:
  fixes projections :: "nat list"
  assumes "sorted_wrt (<) projections" "n < length projections"
    and "\<forall>p \<in> set (take n projections). p < i" "i \<le> projections ! n"
  shows "\<forall>p \<in> set (drop (Suc n) projections). Suc i \<le> p"
    and "i \<in> set projections \<longleftrightarrow> projections ! n = i"
proof -
  have eq: "projections = take n projections @ projections ! n # drop (Suc n) projections"
    using assms(2) by (simp add: id_take_nth_drop)
  with assms(1) have "sorted_wrt (<) (projections ! n # drop (Suc n) projections)"
    by (metis sorted_wrt_append)
  then have gt: "\<forall>p \<in> set (drop (Suc n) projections). projections ! n < p" by simp
  then show "\<forall>p \<in> set (drop (Suc n) projections). Suc i \<le> p" using assms(4) by fastforce
  have "set projections = set (take n projections) \<union> {projections ! n} \<union> set (drop (Suc n) projections)"
    using arg_cong [OF eq, of set] by auto
  then show "i \<in> set projections \<longleftrightarrow> projections ! n = i" using gt assms(3,4) by fastforce
qed

context field_codec
begin

lemma enc_bytes_Ok: "accepts ty v \<Longrightarrow> enc v = Ok (enc_bytes enc v)"
  using enc_total by (fastforce simp: enc_bytes_def)

text \<open>
  The loop at column \<open>i\<close> with \<open>n\<close> projected columns read: \<open>T\<close> and \<open>V\<close> are the types and values of
  the whole row, \<open>d\<close> is what the result vector was filled with.
\<close>

lemma deserialize_loop_spec:
  assumes row: "length T = length V" "\<forall>j < length V. null_at bytes j = null (V ! j)"
    "\<forall>j < length V. \<not> null (V ! j) \<longrightarrow> accepts (T ! j) (V ! j)"
    and proj: "sorted_wrt (<) ps" "\<forall>p \<in> set ps. p < length V" "length ps \<le> types_len"
    "safe_projection ps {j. j < length V \<and> null (V ! j)}"
  shows "i \<le> length V \<Longrightarrow> length out = length ps \<Longrightarrow>
    \<forall>p \<in> set (take n ps). p < i \<Longrightarrow> \<forall>p \<in> set (drop n ps). i \<le> p \<Longrightarrow>
    \<forall>k < length ps. n \<le> k \<longrightarrow> out ! k = d \<Longrightarrow>
    deserialize_loop dec bytes ps types_len i n out (raw_data enc null (drop i V) @ rest) (drop i T)
      = Ok (take n out @ map (\<lambda>p. if null (V ! p) then d else norm (V ! p)) (drop n ps))"
proof (induction "length V - i" arbitrary: i n out)
  case 0
  then have "\<forall>p \<in> set (drop n ps). False" using proj(2) by (fastforce dest: in_set_dropD)
  then have "drop n ps = []" by (cases "drop n ps") auto
  with 0 row(1) show ?case by simp
next
  case (Suc k)
  then have i: "i < length V" by linarith
  then have dr: "drop i V = V ! i # drop (Suc i) V" "drop i T = T ! i # drop (Suc i) T"
    using row(1) by (simp_all add: Cons_nth_drop_Suc)
  show ?case
  proof (cases "length ps \<le> n")
    case True
    with Suc.prems dr show ?thesis by simp
  next
    case False
    let ?p = "ps ! n"
    have n: "n < length ps" "n < types_len" "drop n ps = ?p # drop (Suc n) ps"
      "take (Suc n) ps = take n ps @ [?p]"
      using False proj(3) by (simp_all add: Cons_nth_drop_Suc take_Suc_conv_app_nth)
    have p: "i \<le> ?p" using Suc.prems(4) n by simp
    note pos = sorted_position [OF proj(1) n(1) Suc.prems(3) p]
    have bit: "is_none_bit (bytes ! (i div 8)) (i mod 8) = null (V ! i)"
      using row(2) i by (simp add: null_at_def)
    have next_col: "deserialize_loop dec bytes ps types_len (Suc i) n' out'
        (raw_data enc null (drop (Suc i) V) @ rest) (drop (Suc i) T)
      = Ok (take n' out' @ map (\<lambda>p. if null (V ! p) then d else norm (V ! p)) (drop n' ps))"
      if "length out' = length ps" "\<forall>p \<in> set (take n' ps). p < Suc i"
        "\<forall>p \<in> set (drop n' ps). Suc i \<le> p" "\<forall>k < length ps. n' \<le> k \<longrightarrow> out' ! k = d" for n' out'
      using Suc.hyps(1) [of "Suc i" out' n'] Suc.hyps(2) i that by auto
    have tk: "take (Suc n) (out[n := x]) = take n out @ [x]" for x
      using n(1) Suc.prems(2) by (simp add: take_Suc_conv_app_nth)
    show ?thesis
    proof (cases "?p = i")
      case True
      then have "\<forall>p \<in> set (take (Suc n) ps). p < Suc i" using Suc.prems(3) n(4) by auto
      note step = next_col [where n' = "Suc n", OF _ this pos(1)]
      show ?thesis
      proof (cases "null (V ! i)")
        case null: True
        have "take (Suc n) out = take n out @ [d]"
          using n(1) Suc.prems(2,5) by (simp add: take_Suc_conv_app_nth)
        with null True n Suc.prems bit step [of out] show ?thesis
          by (simp add: dr BITS_MAX_INDEX_def)
      next
        case False
        with row(3) i have acc: "accepts (T ! i) (V ! i)" by blast
        from False True n Suc.prems bit tk step [of "out[n := norm (V ! i)]"] show ?thesis
          by (simp add: dr BITS_MAX_INDEX_def dec_projected [OF acc enc_bytes_Ok [OF acc]])
      qed
    next
      case False
      then have "i \<notin> set ps" using pos(2) by simp
      moreover have "?p \<in> set ps" using n(1) by simp
      ultimately have "\<not> null (V ! i)" using proj(4) i p unfolding safe_projection_def by force
      moreover from this row(3) i have acc: "accepts (T ! i) (V ! i)" by blast
      moreover have "\<forall>p \<in> set (drop n ps). Suc i \<le> p" using False p pos(1) n(3) by simp
      ultimately show ?thesis
        using False n Suc.prems bit next_col [of out n]
        by (simp add: dr BITS_MAX_INDEX_def dec_skipped [OF acc enc_bytes_Ok [OF acc]] less_SucI)
    qed
  qed
qed

end

section \<open>Rows of values\<close>

definition row_fits :: "'d crates \<Rightarrow> logical_type list \<Rightarrow> 'd data_value list \<Rightarrow> bool" where
  "row_fits K types vs \<longleftrightarrow> list_all2 (\<lambda>ty v. is_null v \<or> fits K ty v) types vs"

definition null_columns :: "'d data_value list \<Rightarrow> nat set" where
  "null_columns vs = {j. j < length vs \<and> is_null (vs ! j)}"

lemma stored_Null [simp]: "stored Null = Null"
  by (simp add: stored_def)

lemma serialize_row:
  assumes "row_fits K types vs"
  shows "\<exists>nb. serialize_to K \<lparr> pk = k, tuple_values = vs \<rparr> types = Ok (nb @ raw_data (to_raw K) is_null vs) \<and>
    length nb = bits_len (length vs) \<and> (\<forall>j < length vs. null_at nb j = is_null (vs ! j))"
proof -
  let ?nb = "replicate (bits_len (length vs)) (0 :: byte)"
  have "\<forall>v \<in> set vs. \<not> is_null v \<longrightarrow> (\<exists>b. to_raw K v = Ok b)"
    using assms raw.enc_total unfolding row_fits_def list_all2_conv_all_nth by (metis in_set_conv_nth)
  moreover have "null_at ?nb j = False" if "j < length vs" for j
    using div_less_bits_len [OF that] by (simp add: null_at_def)
  ultimately show ?thesis
    using serialize_loop_spec [of vs is_null "to_raw K" 0 ?nb "[]"] list_all2_lengthD [OF assms [unfolded row_fits_def]]
    by (auto simp: serialize_to_def div_less_bits_len)
qed

lemma deserialize_row:
  assumes "row_fits K types vs" "ps \<noteq> []" "sorted_wrt (<) ps" "\<forall>p \<in> set ps. p < length vs"
    and "safe_projection ps (null_columns vs)"
    and "length nb = bits_len (length vs)" "\<forall>j < length vs. null_at nb j = is_null (vs ! j)"
  shows "deserialize_from K types pk_indices ps (length ps) (nb @ raw_data (to_raw K) is_null vs) with_pk =
    (let out = map (\<lambda>p. stored (vs ! p)) ps in
     if with_pk then res_bind (primary_projection pk_indices out) (\<lambda>key. Ok \<lparr> pk = Some key, tuple_values = out \<rparr>)
     else Ok \<lparr> pk = None, tuple_values = out \<rparr>)"
proof -
  have len: "length types = length vs" using assms(1) by (auto simp: row_fits_def list_all2_lengthD)
  have "distinct ps" using assms(3) by (simp add: strict_sorted_iff)
  then have "length ps \<le> length vs"
    using assms(4) card_mono [of "{..<length vs}" "set ps"] by (auto simp: distinct_card)
  moreover have "\<forall>j < length vs. null_at (nb @ raw_data (to_raw K) is_null vs) j = is_null (vs ! j)"
    using assms(6,7) by (simp add: null_at_def nth_append div_less_bits_len)
  moreover have "\<forall>j < length vs. \<not> is_null (vs ! j) \<longrightarrow> fits K (types ! j) (vs ! j)"
    using assms(1) by (auto simp: row_fits_def list_all2_conv_all_nth)
  ultimately have "deserialize_loop (from_raw K) (nb @ raw_data (to_raw K) is_null vs) ps (length types) 0 0
      (replicate (length ps) Null) (raw_data (to_raw K) is_null (drop 0 vs) @ []) (drop 0 types)
    = Ok (map (\<lambda>p. if is_null (vs ! p) then Null else stored (vs ! p)) ps)"
    using raw.deserialize_loop_spec [of types vs "nb @ raw_data (to_raw K) is_null vs" is_null K ps
        "length types" 0 "replicate (length ps) Null" 0 Null "[]"] len assms(3-5)
    by (simp add: null_columns_def del: is_null_iff)
  also have "map (\<lambda>p. if is_null (vs ! p) then Null else stored (vs ! p)) ps = map (\<lambda>p. stored (vs ! p)) ps"
    by auto
  finally show ?thesis
    using assms(2,6) len strict_sorted_imp_sorted [OF assms(3)]
    by (simp add: deserialize_from_def Let_def del: is_null_iff)
qed

lemma safe_projection_all: "(\<forall>j \<in> N. j < n) \<Longrightarrow> safe_projection [0..<n] N"
  by (auto simp: safe_projection_def)

section \<open>Properties\<close>

text \<open>
  C6: A stored row is read back: for every row that fits its column types, and every strictly
  increasing projection that does not pass over a null column outside it, \<open>serialize_to\<close> succeeds and
  \<open>deserialize_from\<close> returns exactly the projected columns (a \<open>CHAR\<close> without its trailing spaces).
\<close>

theorem deserialize_serialize:
  assumes "row_fits K types vs" "ps \<noteq> []" "sorted_wrt (<) ps" "\<forall>p \<in> set ps. p < length vs"
    and "safe_projection ps (null_columns vs)"
  shows "\<exists>bytes. serialize_to K \<lparr> pk = k, tuple_values = vs \<rparr> types = Ok bytes \<and>
    deserialize_from K types pk_indices ps (length ps) bytes False
      = Ok \<lparr> pk = None, tuple_values = map (\<lambda>p. stored (vs ! p)) ps \<rparr>"
  using serialize_row [OF assms(1), of k] deserialize_row [OF assms, where with_pk = False]
  by (auto simp: Let_def)

theorem deserialize_serialize_witness:
  "\<exists>bytes. serialize_to sample_crates
       \<lparr> pk = None, tuple_values = [Int32 5, Boolean True, Null, Int64 7] \<rparr>
       [Integer, BooleanT, Integer, Bigint] = Ok bytes \<and>
     deserialize_from sample_crates [Integer, BooleanT, Integer, Bigint] [] [1, 2, 3] 3 bytes False
       = Ok \<lparr> pk = None, tuple_values = [Boolean True, Null, Int64 7] \<rparr>"
proof -
  have "safe_projection [1, 2, 3] (null_columns [Int32 5, Boolean True, Null, Int64 7 :: 64 word data_value])"
    by (auto simp: safe_projection_def null_columns_def less_Suc_eq numeral_eq_Suc)
  then show ?thesis
    using deserialize_serialize [of sample_crates "[Integer, BooleanT, Integer, Bigint]"
        "[Int32 5, Boolean True, Null, Int64 7]" "[1, 2, 3]" None "[]"]
    by (simp add: row_fits_def stored_def numeral_eq_Suc)
qed

text \<open>
  C35: A full read of a stored row returns the row together with its
  primary key: the single value, or the tuple of the key columns.
\<close>

theorem deserialize_primary_key:
  assumes "row_fits K types vs" "vs \<noteq> []" "pk_indices \<noteq> []" "\<forall>p \<in> set pk_indices. p < length vs"
  shows "\<exists>bytes. serialize_to K \<lparr> pk = k, tuple_values = vs \<rparr> types = Ok bytes \<and>
    deserialize_from K types pk_indices [0..<length vs] (length vs) bytes True
      = Ok \<lparr> pk = Some (if length pk_indices > 1
                   then Tuple (map (\<lambda>i. stored (vs ! i)) pk_indices) False
                   else stored (vs ! hd pk_indices)),
             tuple_values = map stored vs \<rparr>"
proof -
  have out: "map (\<lambda>p. stored (vs ! p)) [0..<length vs] = map stored vs"
    by (rule nth_equalityI) auto
  have "res_map (index_res (map stored vs)) pk_indices = Ok (map (\<lambda>i. stored (vs ! i)) pk_indices)"
    using assms(4) by (auto simp: res_map_Ok_iff list_all2_conv_all_nth index_res_def)
  moreover have "length pk_indices \<le> 1 \<Longrightarrow> index_res pk_indices 0 = Ok (hd pk_indices)"
    using assms(3) by (simp add: index_res_def hd_conv_nth)
  ultimately have "primary_projection pk_indices (map stored vs) = Ok (if length pk_indices > 1
      then Tuple (map (\<lambda>i. stored (vs ! i)) pk_indices) False else stored (vs ! hd pk_indices))"
    using assms(3,4) by (simp add: primary_projection_def index_res_def)
  moreover obtain nb where nb: "serialize_to K \<lparr> pk = k, tuple_values = vs \<rparr> types
        = Ok (nb @ raw_data (to_raw K) is_null vs)"
      "length nb = bits_len (length vs)" "\<forall>j < length vs. null_at nb j = is_null (vs ! j)"
    using serialize_row [OF assms(1), of k] by blast
  moreover have "safe_projection [0..<length vs] (null_columns vs)"
    by (rule safe_projection_all) (simp add: null_columns_def)
  moreover note deserialize_row [OF assms(1) _ _ _ this nb(2,3), where with_pk = True and pk_indices = pk_indices]
  ultimately show ?thesis using assms(2) by (simp add: Let_def out del: is_null_iff)
qed

theorem deserialize_primary_key_witness:
  "\<exists>bytes. serialize_to sample_crates \<lparr> pk = None, tuple_values = [Int32 5, Null] \<rparr> [Integer, BooleanT]
      = Ok bytes \<and>
    deserialize_from sample_crates [Integer, BooleanT] [0] [0, 1] 2 bytes True
      = Ok \<lparr> pk = Some (Int32 5), tuple_values = [Int32 5, Null] \<rparr>"
  using deserialize_primary_key [of sample_crates "[Integer, BooleanT]" "[Int32 5, Null]" "[0]" None]
  by (simp add: row_fits_def stored_def numeral_eq_Suc upt_rec)


end
