(* ===== verification/Table_Codec.thy ===== *)
theory Table_Codec
  imports Memcomparable Tuple_Codec
begin

text \<open>
  The key layout of \<open>src/src/storage/table_codec.rs\<close>: the key prefix of a table and a kind of entry,
  the bounds of each key range, and the keys of rows, indexes, columns, statistics, views and roots.
  The 64-bit hash of \<open>siphasher\<close> is the parameter \<open>sip\<close> (a function of the bytes fed to the hasher),
  the \<open>bincode\<close> serialisation of a tuple id the parameters \<open>ser\<close> and \<open>de\<close>; a column id is the
  16 bytes of its \<open>Ulid\<close>.
\<close>

section \<open>Primary keys\<close>

definition check_primary_key_type :: "logical_type \<Rightarrow> unit res" where
  "check_primary_key_type ty = (case ty of
     Tinyint \<Rightarrow> Ok () | Smallint \<Rightarrow> Ok () | Integer \<Rightarrow> Ok () | Bigint \<Rightarrow> Ok ()
   | UTinyint \<Rightarrow> Ok () | USmallint \<Rightarrow> Ok () | UInteger \<Rightarrow> Ok () | UBigint \<Rightarrow> Ok ()
   | CharT _ _ \<Rightarrow> Ok () | Varchar _ _ \<Rightarrow> Ok ()
   | _ \<Rightarrow> Err InvalidType)"

fun check_primary_key :: "'d data_value \<Rightarrow> nat \<Rightarrow> unit res"
  and check_primary_keys :: "'d data_value list \<Rightarrow> nat \<Rightarrow> unit res" where
  "check_primary_key (Tuple vs _) indentation =
     (if indentation > 1 then Err PrimaryKeyTooManyLayers else check_primary_keys vs (indentation + 1))"
| "check_primary_key v indentation =
     (if indentation > 1 then Err PrimaryKeyTooManyLayers
      else if is_null v then Err NotNull
      else check_primary_key_type (logical_type v))"
| "check_primary_keys [] indentation = Ok ()"
| "check_primary_keys (v # vs) indentation =
     res_bind (check_primary_key v indentation) (\<lambda>_. check_primary_keys vs indentation)"

section \<open>Key prefixes and bounds\<close>

datatype codec_type = CColumn | CIndexMeta | CIndex | CStatistics | CView | CTuple | CRoot | CHash

definition ROOT_BYTES :: bytes where
  "ROOT_BYTES = [0x52, 0x6F, 0x6F, 0x74]"

definition VIEW_BYTES :: bytes where
  "VIEW_BYTES = [0x56, 0x69, 0x65, 0x77]"

definition HASH_BYTES :: bytes where
  "HASH_BYTES = [0x48, 0x61, 0x73, 0x68]"

definition hash_bytes :: "(bytes \<Rightarrow> 64 word) \<Rightarrow> rstring \<Rightarrow> bytes" where
  "hash_bytes sip name = le_bytes 8 (unat (sip (name @ [0xFF])))"

definition key_prefix :: "(bytes \<Rightarrow> 64 word) \<Rightarrow> codec_type \<Rightarrow> rstring \<Rightarrow> bytes" where
  "key_prefix sip ty name =
    (let table_bytes = hash_bytes sip name in
     case ty of
       CColumn \<Rightarrow> table_bytes @ [0x30]
     | CIndexMeta \<Rightarrow> table_bytes @ [0x31]
     | CIndex \<Rightarrow> table_bytes @ [0x33]
     | CStatistics \<Rightarrow> table_bytes @ [0x34]
     | CTuple \<Rightarrow> table_bytes @ [0x38]
     | CRoot \<Rightarrow> ROOT_BYTES @ [BOUND_MIN_TAG] @ table_bytes
     | CView \<Rightarrow> VIEW_BYTES @ [BOUND_MIN_TAG] @ table_bytes
     | CHash \<Rightarrow> HASH_BYTES @ [BOUND_MIN_TAG] @ table_bytes)"

definition both_bounds :: "(byte \<Rightarrow> bytes) \<Rightarrow> bytes \<times> bytes" where
  "both_bounds op = (op BOUND_MIN_TAG, op BOUND_MAX_TAG)"

definition tuple_bound :: "(bytes \<Rightarrow> 64 word) \<Rightarrow> rstring \<Rightarrow> bytes \<times> bytes" where
  "tuple_bound sip table_name = both_bounds (\<lambda>t. key_prefix sip CTuple table_name @ [t])"

definition index_meta_bound :: "(bytes \<Rightarrow> 64 word) \<Rightarrow> rstring \<Rightarrow> bytes \<times> bytes" where
  "index_meta_bound sip table_name = both_bounds (\<lambda>t. key_prefix sip CIndexMeta table_name @ [t])"

definition index_bound :: "(bytes \<Rightarrow> 64 word) \<Rightarrow> rstring \<Rightarrow> 32 word \<Rightarrow> bytes \<times> bytes" where
  "index_bound sip table_name index_id =
    both_bounds (\<lambda>t. key_prefix sip CIndex table_name @ [BOUND_MIN_TAG] @ le_bytes 4 (unat index_id) @ [t])"

definition all_index_bound :: "(bytes \<Rightarrow> 64 word) \<Rightarrow> rstring \<Rightarrow> bytes \<times> bytes" where
  "all_index_bound sip table_name = both_bounds (\<lambda>t. key_prefix sip CIndex table_name @ [t])"

definition root_table_bound :: "bytes \<times> bytes" where
  "root_table_bound = both_bounds (\<lambda>t. ROOT_BYTES @ [t])"

definition table_bound :: "(bytes \<Rightarrow> 64 word) \<Rightarrow> rstring \<Rightarrow> bytes \<times> bytes" where
  "table_bound sip table_name =
    (key_prefix sip CColumn table_name @ [BOUND_MIN_TAG], key_prefix sip CIndexMeta table_name @ [BOUND_MAX_TAG])"

definition columns_bound :: "(bytes \<Rightarrow> 64 word) \<Rightarrow> rstring \<Rightarrow> bytes \<times> bytes" where
  "columns_bound sip table_name = both_bounds (\<lambda>t. key_prefix sip CColumn table_name @ [t])"

definition statistics_bound :: "(bytes \<Rightarrow> 64 word) \<Rightarrow> rstring \<Rightarrow> bytes \<times> bytes" where
  "statistics_bound sip table_name = both_bounds (\<lambda>t. key_prefix sip CStatistics table_name @ [t])"

definition view_bound :: "bytes \<times> bytes" where
  "view_bound = both_bounds (\<lambda>t. VIEW_BYTES @ [t])"

section \<open>Keys\<close>

definition encode_tuple_key ::
  "(bytes \<Rightarrow> 64 word) \<Rightarrow> 'd crates \<Rightarrow> rstring \<Rightarrow> 'd data_value \<Rightarrow> bytes res" where
  "encode_tuple_key sip K table_name tuple_id =
    res_bind (check_primary_key tuple_id 0) (\<lambda>_.
      memcomparable_encode K tuple_id (key_prefix sip CTuple table_name @ [BOUND_MIN_TAG]))"

definition encode_tuple ::
  "(bytes \<Rightarrow> 64 word) \<Rightarrow> 'd crates \<Rightarrow> rstring \<Rightarrow> 'd tuple \<Rightarrow> logical_type list \<Rightarrow> (bytes \<times> bytes) res" where
  "encode_tuple sip K table_name t types =
    (case pk t of
       None \<Rightarrow> Err PrimaryKeyNotFound
     | Some tuple_id \<Rightarrow>
         res_bind (encode_tuple_key sip K table_name tuple_id) (\<lambda>key.
           res_bind (serialize_to K t types) (\<lambda>value. Ok (key, value))))"

definition encode_index_meta_key :: "(bytes \<Rightarrow> 64 word) \<Rightarrow> rstring \<Rightarrow> 32 word \<Rightarrow> bytes" where
  "encode_index_meta_key sip table_name index_id =
    key_prefix sip CIndexMeta table_name @ [BOUND_MIN_TAG] @ le_bytes 4 (unat index_id)"

datatype index_type = PrimaryKey bool | Unique | Normal | Composite

record 'd index =
  ix_id :: "32 word"
  ix_value :: "'d data_value"
  ix_ty :: index_type

definition encode_index_bound_key ::
  "(bytes \<Rightarrow> 64 word) \<Rightarrow> 'd crates \<Rightarrow> rstring \<Rightarrow> 'd index \<Rightarrow> bool \<Rightarrow> bytes res" where
  "encode_index_bound_key sip K name index is_upper =
    res_bind
      (memcomparable_encode K (ix_value index)
        (key_prefix sip CIndex name @ [BOUND_MIN_TAG] @ le_bytes 4 (unat (ix_id index)) @ [BOUND_MIN_TAG]))
      (\<lambda>key. Ok (if is_upper then key @ [BOUND_MAX_TAG] else key))"

definition encode_index_key ::
  "(bytes \<Rightarrow> 64 word) \<Rightarrow> 'd crates \<Rightarrow> rstring \<Rightarrow> 'd index \<Rightarrow> 'd data_value option \<Rightarrow> bytes res" where
  "encode_index_key sip K name index tuple_id =
    res_bind (encode_index_bound_key sip K name index False) (\<lambda>key.
      case tuple_id of
        Some id' \<Rightarrow>
          if ix_ty index = Normal \<or> ix_ty index = Composite then memcomparable_encode K id' key else Ok key
      | None \<Rightarrow> Ok key)"

definition encode_index ::
  "(bytes \<Rightarrow> 64 word) \<Rightarrow> 'd crates \<Rightarrow> ('d data_value \<Rightarrow> bytes res) \<Rightarrow> rstring \<Rightarrow> 'd index \<Rightarrow> 'd data_value
    \<Rightarrow> (bytes \<times> bytes) res" where
  "encode_index sip K ser name index tuple_id =
    res_bind (encode_index_key sip K name index (Some tuple_id)) (\<lambda>key.
      res_bind (ser tuple_id) (\<lambda>value. Ok (key, value)))"

definition encode_column_key :: "(bytes \<Rightarrow> 64 word) \<Rightarrow> rstring \<Rightarrow> bytes \<Rightarrow> bytes" where
  "encode_column_key sip table_name column_id =
    key_prefix sip CColumn table_name @ [BOUND_MIN_TAG] @ column_id"

definition encode_statistics_path_key :: "(bytes \<Rightarrow> 64 word) \<Rightarrow> rstring \<Rightarrow> 32 word \<Rightarrow> bytes" where
  "encode_statistics_path_key sip table_name index_id =
    key_prefix sip CStatistics table_name @ [BOUND_MIN_TAG] @ le_bytes 4 (unat index_id)"

definition encode_statistics_path ::
  "(bytes \<Rightarrow> 64 word) \<Rightarrow> rstring \<Rightarrow> 32 word \<Rightarrow> rstring \<Rightarrow> bytes \<times> bytes" where
  "encode_statistics_path sip table_name index_id path =
    (encode_statistics_path_key sip table_name index_id, path)"

definition decode_statistics_path :: "bytes \<Rightarrow> rstring res" where
  "decode_statistics_path b = from_utf8 b"

definition encode_view_key :: "(bytes \<Rightarrow> 64 word) \<Rightarrow> rstring \<Rightarrow> bytes" where
  "encode_view_key sip view_name = key_prefix sip CView view_name"

definition encode_root_table_key :: "(bytes \<Rightarrow> 64 word) \<Rightarrow> rstring \<Rightarrow> bytes" where
  "encode_root_table_key sip table_name = key_prefix sip CRoot table_name"

definition encode_table_hash_key :: "(bytes \<Rightarrow> 64 word) \<Rightarrow> rstring \<Rightarrow> bytes" where
  "encode_table_hash_key sip table_name = key_prefix sip CHash table_name"

definition encode_table_hash :: "(bytes \<Rightarrow> 64 word) \<Rightarrow> rstring \<Rightarrow> bytes \<times> bytes" where
  "encode_table_hash sip table_name = (key_prefix sip CHash table_name, [])"

section \<open>Lemmas\<close>

lemmas bound_defs = tuple_bound_def index_meta_bound_def index_bound_def all_index_bound_def
  root_table_bound_def table_bound_def columns_bound_def statistics_bound_def view_bound_def both_bounds_def

definition within :: "bytes \<Rightarrow> bytes \<times> bytes \<Rightarrow> bool" where
  "within k b \<longleftrightarrow> fst b \<le> k \<and> k \<le> snd b"

lemma length_hash_bytes [simp]: "length (hash_bytes sip name) = 8"
  by (simp add: hash_bytes_def del: le_bytes.simps)

lemma within_prefix:
  assumes "fst b = p @ [BOUND_MIN_TAG]" "snd b = p @ [BOUND_MAX_TAG]"
  shows "within (p @ BOUND_MIN_TAG # r) b"
  unfolding within_def assms
  by (simp add: BOUND_MIN_TAG_def BOUND_MAX_TAG_def)

text \<open>Everything between two keys with the same prefix has that prefix.\<close>

lemma between_prefix:
  fixes p k :: bytes
  assumes "p @ x \<le> k" "k \<le> p @ y"
  shows "\<exists>z. k = p @ z"
  using assms
proof (induction p arbitrary: k)
  case (Cons a p)
  then obtain b k' where k: "k = b # k'" by (cases k) auto
  with Cons.prems have "b = a" "p @ x \<le> k'" "k' \<le> p @ y" by auto
  with Cons.IH k show ?case by auto
qed simp

lemma within_both_bounds:
  assumes "within k (both_bounds (\<lambda>t. p @ [t]))"
  shows "\<exists>z. k = p @ z"
  using assms between_prefix unfolding within_def both_bounds_def by (metis fst_conv snd_conv)

text \<open>The encoders only append to the buffer.\<close>

lemma memcomparable_encode_extends: "memcomparable_encode K v b = Ok x \<Longrightarrow> \<exists>y. x = b @ y"
proof (induction v arbitrary: b x)
  case (Tuple vs u)
  have "memcomparable_tuple K u ws b = Ok x \<Longrightarrow> \<exists>y. x = b @ y" if "set ws \<subseteq> set vs" for ws b x
    using that
  proof (induction ws arbitrary: b)
    case (Cons w ws)
    then obtain b' t where b': "memcomparable_encode K w b = Ok b'" "memcomparable_tuple K u ws (b' @ [t]) = Ok x"
      by (auto simp: res_bind_Ok_iff)
    obtain y where "b' = b @ y" using Tuple.IH [OF _ b'(1)] Cons.prems by auto
    moreover obtain z where "x = (b' @ [t]) @ z" using Cons.IH [OF b'(2)] Cons.prems by auto
    ultimately show ?case by auto
  qed simp
  with Tuple.prems show ?case by (auto split: if_splits)
qed (auto simp: encode_bytes_def realloc_bytes_def Let_def split: if_splits)

lemma append_inject: "length p = length q \<Longrightarrow> p @ x = q @ y \<longleftrightarrow> p = q \<and> x = y"
  by simp

lemma encode_tuple_key_shape:
  assumes "encode_tuple_key sip K name tid = Ok k"
  shows "\<exists>y. k = hash_bytes sip name @ 0x38 # BOUND_MIN_TAG # y"
  using assms memcomparable_encode_extends
  by (fastforce simp: encode_tuple_key_def res_bind_Ok_iff key_prefix_def Let_def)

lemma encode_index_key_shape:
  assumes "encode_index_key sip K name ix tid = Ok k"
  shows "\<exists>y. k = hash_bytes sip name @ [0x33, BOUND_MIN_TAG] @ le_bytes 4 (unat (ix_id ix)) @ BOUND_MIN_TAG # y"
proof -
  obtain b where b: "encode_index_bound_key sip K name ix False = Ok b"
    and k: "k = b \<or> (\<exists>v. memcomparable_encode K v b = Ok k)"
    using assms by (auto simp: encode_index_key_def res_bind_Ok_iff split: option.splits if_splits)
  from k obtain z where "k = b @ z" using memcomparable_encode_extends by blast
  moreover from b obtain y where
    "b = (hash_bytes sip name @ [0x33, BOUND_MIN_TAG] @ le_bytes 4 (unat (ix_id ix)) @ [BOUND_MIN_TAG]) @ y"
    using memcomparable_encode_extends
    by (fastforce simp: encode_index_bound_key_def res_bind_Ok_iff key_prefix_def Let_def simp del: le_bytes.simps)
  ultimately show ?thesis by auto
qed

lemma region_mem:
  assumes "within (hash_bytes sip n @ t # r) (both_bounds (\<lambda>b. (hash_bytes sip n' @ [t']) @ [b]))"
  shows "hash_bytes sip n = hash_bytes sip n' \<and> t = t'"
  using within_both_bounds [OF assms] by auto

lemmas region_bounds = tuple_bound_def index_meta_bound_def all_index_bound_def columns_bound_def
  statistics_bound_def key_prefix_def Let_def

section \<open>Properties\<close>



text \<open>
  C13: Every key of an index lies in the range of that index of its table, and in the range of an index
  of another id or another table only when the id is the same and the names have the same hash.
\<close>

theorem index_key_region:
  assumes "encode_index_key sip K name ix tid = Ok k"
  shows "within k (index_bound sip name (ix_id ix)) \<and>
    (within k (index_bound sip other i) \<longrightarrow> hash_bytes sip name = hash_bytes sip other \<and> ix_id ix = i)"
proof -
  let ?p = "\<lambda>n j. hash_bytes sip n @ [0x33, BOUND_MIN_TAG] @ le_bytes 4 (unat j)"
  have bound: "index_bound sip n j = both_bounds (\<lambda>t. ?p n j @ [t])" for n j
    by (simp add: index_bound_def key_prefix_def Let_def del: le_bytes.simps)
  have id: "unat a = unat b" if "le_bytes 4 (unat a) = le_bytes 4 (unat b)" for a b :: "32 word"
    using arg_cong [OF that, of le_nat] unsigned_less [of a, where 'a = nat] unsigned_less [of b, where 'a = nat]
    by (simp add: le_nat_le_bytes del: le_bytes.simps)
  obtain y where k: "k = ?p name (ix_id ix) @ BOUND_MIN_TAG # y"
    using encode_index_key_shape [OF assms] by auto
  have "within k (index_bound sip name (ix_id ix))"
    unfolding k bound by (rule within_prefix) (simp_all add: both_bounds_def)
  moreover have "hash_bytes sip name = hash_bytes sip other \<and> ix_id ix = i"
    if "within k (index_bound sip other i)"
    using within_both_bounds [OF that [unfolded bound]] unfolding k
    by (auto dest: id simp: word_unat_eq_iff simp del: le_bytes.simps)
  ultimately show ?thesis by blast
qed

theorem index_key_region_witness:
  "\<exists>k. encode_index_key (\<lambda>b. word_of_nat (length b)) sample_crates [0x74]
      \<lparr> ix_id = 2, ix_value = Int32 3, ix_ty = Normal \<rparr> (Some (Int32 1)) = Ok k \<and>
    within k (index_bound (\<lambda>b. word_of_nat (length b)) [0x74] 2)"
  using index_key_region [of "\<lambda>b. word_of_nat (length b)" sample_crates "[0x74]"
      "\<lparr> ix_id = 2, ix_value = Int32 3, ix_ty = Normal \<rparr>" "Some (Int32 1)"]
  by (simp add: encode_index_key_def encode_index_bound_key_def del: le_bytes.simps be_bytes.simps)

lemma length_tuple_prefix [simp]: "length (key_prefix sip CTuple name @ [BOUND_MIN_TAG]) = 10"
  by (simp add: key_prefix_def Let_def)





definition index_prefix :: "(bytes \<Rightarrow> 64 word) \<Rightarrow> rstring \<Rightarrow> 32 word \<Rightarrow> bytes" where
  "index_prefix sip name i =
    key_prefix sip CIndex name @ [BOUND_MIN_TAG] @ le_bytes 4 (unat i) @ [BOUND_MIN_TAG]"

lemma length_index_prefix [simp]: "length (index_prefix sip name i) = 15"
  by (simp add: index_prefix_def key_prefix_def Let_def del: le_bytes.simps)

lemma encode_index_bound_key_domain:
  assumes "key_domain 15 (ix_value ix)"
  shows "encode_index_bound_key sip K name ix up
    = Ok (index_prefix sip name (ix_id ix) @ column_bytes K (ix_value ix) @ (if up then [BOUND_MAX_TAG] else []))"
  using memcomparable_encode_column [of "index_prefix sip name (ix_id ix)" "ix_value ix" K] assms
  unfolding encode_index_bound_key_def index_prefix_def [symmetric] by simp


text \<open>A concrete index entry with a \<open>SMALLINT\<close> primary key, for the witness and the counterexample.\<close>

definition sample_entry :: "16 word \<Rightarrow> bytes res" where
  "sample_entry tid = encode_index_key (\<lambda>b. word_of_nat (length b)) sample_crates [0x74]
     \<lparr> ix_id = 0, ix_value = Boolean True, ix_ty = Normal \<rparr> (Some (Int16 tid))"

definition sample_bound :: "bool \<Rightarrow> bytes res" where
  "sample_bound up = encode_index_bound_key (\<lambda>b. word_of_nat (length b)) sample_crates [0x74]
     \<lparr> ix_id = 0, ix_value = Boolean True, ix_ty = Normal \<rparr> up"

lemma sample_eqs:
  "sample_bound up = Ok (index_prefix (\<lambda>b. word_of_nat (length b)) [0x74] 0 @ 0x31 # (if up then [0xFF] else []))"
  "sample_entry tid = Ok (index_prefix (\<lambda>b. word_of_nat (length b)) [0x74] 0 @ 0x31 #
     be_bytes 2 (unat (tid XOR 0x8000)))"
  by (simp_all add: sample_bound_def sample_entry_def encode_index_key_def encode_index_bound_key_domain
      key_domain_def column_bytes_def BOUND_MAX_TAG_def del: be_bytes.simps)


text \<open>
  An equality scan of a non-unique index misses a row whose encoded primary key starts with
  \<open>0xFF\<close>: the \<open>SMALLINT\<close> key 32600, looked up by its own indexed value.
\<close>

theorem index_eq_scan_misses:
  "\<exists>lo hi entry. sample_bound False = Ok lo \<and> sample_bound True = Ok hi \<and>
    sample_entry 32600 = Ok entry \<and> \<not> within entry (lo, hi)"
proof -
  have "be_bytes 2 n = [word_of_nat (n div 256), word_of_nat n]" for n
    by (simp add: numeral_2_eq_2)
  then show ?thesis by (simp add: sample_eqs within_def del: be_bytes.simps)
qed

text \<open>
  The row keys of the string primary keys \<open>a\<close> and \<open>bbbbbbbb\<close> are in the wrong order.
\<close>

theorem string_key_order_broken:
  "\<exists>x y. encode_tuple_key (\<lambda>b. word_of_nat (length b)) sample_crates [0x74]
      (Utf8 [0x61] (Variable None) Characters) = Ok x \<and>
    encode_tuple_key (\<lambda>b. word_of_nat (length b)) sample_crates [0x74]
      (Utf8 (replicate 8 0x62) (Variable None) Characters) = Ok y \<and>
    [0x61] < (replicate 8 0x62 :: bytes) \<and> y < x"
proof -
  let ?p = "key_prefix (\<lambda>b. word_of_nat (length b)) CTuple [0x74] @ [BOUND_MIN_TAG]"
  have len: "length ?p = 10" by (rule length_tuple_prefix)
  have r8: "replicate 8 x = x # replicate 7 x" for x :: byte by (simp flip: replicate_Suc)
  have x: "encode_bytes ?p [0x61] = ?p @ 0x61 # (replicate 7 0 @ [group_marker [0x61]])"
    using len by (simp add: encode_bytes_def realloc_bytes_def ENCODE_GROUP_SIZE_def encode_groups_unfold first_group_def)
  have y: "encode_bytes ?p (replicate 8 0x62) = ?p @ 0 # (replicate 7 0 @ encode_groups (replicate 8 0x62))"
    using len r8 [of "0"] by (simp add: encode_bytes_def realloc_bytes_def ENCODE_GROUP_SIZE_def)
  have "encode_bytes ?p (replicate 8 0x62) < encode_bytes ?p [0x61]"
    unfolding x y by (simp add: less_append_same_length)
  moreover have "[0x61] < (replicate 8 0x62 :: bytes)" using r8 [of "0x62"] by simp
  ultimately show ?thesis by (simp add: encode_tuple_key_def check_primary_key_type_def)
qed

end
