(* ===== verification/Range_Algebra.thy ===== *)
theory Range_Algebra
  imports Value_Ops
begin

text \<open>
  The value ranges of \<open>src/src/expression/range_detacher.rs\<close> and their algebra: comparison of bounds,
  intersection and union of scopes, merging into sorted lists of ranges, and the combination of
  equality ranges for composite indexes. The functions use values only through their comparison,
  equality and null test, which the model takes as the record \<open>vops\<close>; \<open>value_ops\<close> is the instance for
  \<open>DataValue\<close>. \<open>extract_merge_ranges\<close> calls itself on lists that need not shrink, so it has a fuel
  argument and returns \<open>None\<close> when the fuel is used up.
\<close>

section \<open>Ranges\<close>

datatype 'v bound = Included 'v | Excluded 'v | Unbounded

datatype 'v range =
    Scope "'v bound" "'v bound"
  | REq 'v
  | Dummy
  | SortedRanges "'v range list"

record 'v vops =
  vcmp :: "'v \<Rightarrow> 'v \<Rightarrow> ordering option"
  veq :: "'v \<Rightarrow> 'v \<Rightarrow> bool"
  vnull :: "'v \<Rightarrow> bool"

definition value_ops :: "'d crates \<Rightarrow> 'd data_value vops" where
  "value_ops K = \<lparr> vcmp = partial_cmp K, veq = value_eq K, vnull = is_null \<rparr>"

section \<open>Comparison of bounds\<close>

definition is_min_then_reverse :: "bool \<Rightarrow> ordering \<Rightarrow> ordering" where
  "is_min_then_reverse is_min c = (if is_min then c else reverse_ord c)"

fun bound_compared :: "'v vops \<Rightarrow> 'v bound \<Rightarrow> 'v bound \<Rightarrow> bool \<Rightarrow> ordering option" where
  "bound_compared V Unbounded Unbounded is_min = Some Equal"
| "bound_compared V Unbounded (Included _) is_min = Some (is_min_then_reverse is_min Less)"
| "bound_compared V Unbounded (Excluded _) is_min = Some (is_min_then_reverse is_min Less)"
| "bound_compared V (Included _) Unbounded is_min = Some (is_min_then_reverse is_min Greater)"
| "bound_compared V (Excluded _) Unbounded is_min = Some (is_min_then_reverse is_min Greater)"
| "bound_compared V (Included left) (Included right) is_min = vcmp V left right"
| "bound_compared V (Included left) (Excluded right) is_min =
     map_option (\<lambda>c. then_ord c (is_min_then_reverse is_min Less)) (vcmp V left right)"
| "bound_compared V (Excluded left) (Excluded right) is_min = vcmp V left right"
| "bound_compared V (Excluded left) (Included right) is_min =
     map_option (\<lambda>c. then_ord c (is_min_then_reverse is_min Greater)) (vcmp V left right)"

section \<open>Merging two ranges\<close>

definition is_unbounded :: "'v bound \<Rightarrow> bool" where
  "is_unbounded b = (case b of Unbounded \<Rightarrow> True | _ \<Rightarrow> False)"

definition is_excluded :: "'v bound \<Rightarrow> bool" where
  "is_excluded b = (case b of Excluded _ \<Rightarrow> True | _ \<Rightarrow> False)"

text \<open>The last step of both scope merges when the two bounds compare equal.\<close>

definition point_scope :: "'v bound \<Rightarrow> 'v range" where
  "point_scope min_b = (case min_b of
     Included val \<Rightarrow> REq val
   | Excluded _ \<Rightarrow> Dummy
   | Unbounded \<Rightarrow> Scope Unbounded Unbounded)"

definition or_scope_merge ::
  "'v vops \<Rightarrow> 'v bound \<Rightarrow> 'v bound \<Rightarrow> 'v bound \<Rightarrow> 'v bound \<Rightarrow> 'v range" where
  "or_scope_merge V left_min left_max right_min right_max =
    (if bound_compared V left_max right_min False = Some Less
       \<or> bound_compared V right_max left_min False = Some Less
     then
       (if bound_compared V left_min right_min True = Some Less
        then SortedRanges [Scope left_min left_max, Scope right_min right_max]
        else SortedRanges [Scope right_min right_max, Scope left_min left_max])
     else
       let min_b = (if bound_compared V left_min right_min True = Some Less then left_min else right_min);
           max_b = (if bound_compared V left_max right_max False = Some Greater then left_max else right_max)
       in case bound_compared V min_b max_b (is_unbounded min_b) of
            Some Equal \<Rightarrow> point_scope min_b
          | _ \<Rightarrow> Scope min_b max_b)"

definition and_scope_merge ::
  "'v vops \<Rightarrow> 'v bound \<Rightarrow> 'v bound \<Rightarrow> 'v bound \<Rightarrow> 'v bound \<Rightarrow> 'v range" where
  "and_scope_merge V left_min left_max right_min right_max =
    (let min_b = (if bound_compared V left_min right_min True = Some Greater then left_min else right_min);
         max_b = (if bound_compared V left_max right_max False = Some Less then left_max else right_max)
     in case bound_compared V min_b max_b (is_unbounded min_b) of
          Some Greater \<Rightarrow> Dummy
        | Some Equal \<Rightarrow> point_scope min_b
        | _ \<Rightarrow> Scope min_b max_b)"

definition process_exclude_bound_with_eq ::
  "'v vops \<Rightarrow> 'v bound \<Rightarrow> 'v \<Rightarrow> binary_operator \<Rightarrow> 'v bound" where
  "process_exclude_bound_with_eq V b eq op = (case b of
     Excluded bound_val \<Rightarrow>
       if veq V bound_val eq \<and> op = Or then Included bound_val else Excluded bound_val
   | _ \<Rightarrow> b)"

text \<open>A scope and an equality, in either order.\<close>

definition merge_scope_eq ::
  "'v vops \<Rightarrow> binary_operator \<Rightarrow> 'v bound \<Rightarrow> 'v bound \<Rightarrow> 'v \<Rightarrow> 'v range option" where
  "merge_scope_eq V op min_b max_b eq = (case op of
     And \<Rightarrow>
       (let is_less = (case bound_compared V (Included eq) min_b True of
                         Some c \<Rightarrow> c = Less
                       | None \<Rightarrow> \<not> is_unbounded min_b)
        in if is_less \<or> bound_compared V (Included eq) max_b False = Some Greater
           then Some Dummy else Some (REq eq))
   | Or \<Rightarrow>
       if vnull V eq then
         Some (if is_excluded min_b then SortedRanges [REq eq, Scope min_b max_b] else Scope min_b max_b)
       else Some (case bound_compared V (Excluded eq) min_b True of
           Some Less \<Rightarrow> SortedRanges [REq eq, Scope min_b max_b]
         | Some Equal \<Rightarrow> Scope (process_exclude_bound_with_eq V min_b eq op) max_b
         | _ \<Rightarrow>
             (case bound_compared V (Excluded eq) max_b False of
                Some Greater \<Rightarrow> SortedRanges [Scope min_b max_b, REq eq]
              | Some Equal \<Rightarrow> Scope min_b (process_exclude_bound_with_eq V max_b eq op)
              | _ \<Rightarrow> Scope min_b max_b))
   | _ \<Rightarrow> None)"

definition merge_eq_eq :: "'v vops \<Rightarrow> binary_operator \<Rightarrow> 'v \<Rightarrow> 'v \<Rightarrow> 'v range option" where
  "merge_eq_eq V op left_val right_val =
    (if veq V left_val right_val \<and> (op = And \<or> op = Or) then Some (REq left_val)
     else case op of
       And \<Rightarrow> Some Dummy
     | Or \<Rightarrow>
         if vcmp V left_val right_val = Some Greater
         then Some (SortedRanges [REq right_val, REq left_val])
         else Some (SortedRanges [REq left_val, REq right_val])
     | _ \<Rightarrow> None)"

definition merge_dummy :: "binary_operator \<Rightarrow> 'v range \<Rightarrow> 'v range option" where
  "merge_dummy op binary = (case op of And \<Rightarrow> Some Dummy | Or \<Rightarrow> Some binary | _ \<Rightarrow> None)"

text \<open>The arms of \<open>merge_binary\<close> without a list of ranges.\<close>

fun merge_flat :: "'v vops \<Rightarrow> binary_operator \<Rightarrow> 'v range \<Rightarrow> 'v range \<Rightarrow> 'v range option" where
  "merge_flat V op Dummy r = merge_dummy op r"
| "merge_flat V op (Scope a b) r = (case r of
     Dummy \<Rightarrow> merge_dummy op (Scope a b)
   | Scope c d \<Rightarrow>
       (case op of And \<Rightarrow> Some (and_scope_merge V a b c d) | Or \<Rightarrow> Some (or_scope_merge V a b c d) | _ \<Rightarrow> None)
   | REq eq \<Rightarrow> merge_scope_eq V op a b eq
   | SortedRanges _ \<Rightarrow> None)"
| "merge_flat V op (REq v) r = (case r of
     Dummy \<Rightarrow> merge_dummy op (REq v)
   | Scope c d \<Rightarrow> merge_scope_eq V op c d v
   | REq w \<Rightarrow> merge_eq_eq V op v w
   | SortedRanges _ \<Rightarrow> None)"
| "merge_flat V op (SortedRanges l) r = (case r of Dummy \<Rightarrow> merge_dummy op (SortedRanges l) | _ \<Rightarrow> None)"

section \<open>Merging into a list of ranges\<close>

definition insert_at :: "nat \<Rightarrow> 'a \<Rightarrow> 'a list \<Rightarrow> 'a list" where
  "insert_at i x xs = take i xs @ x # drop i xs"

definition remove_at :: "nat \<Rightarrow> 'a list \<Rightarrow> 'a list" where
  "remove_at i xs = take i xs @ drop (Suc i) xs"

datatype 'v merge_step =
    StepInsert
  | StepNext
  | StepDrop
  | StepTake
  | StepMerge
  | StepEmpty
  | StepNone
  | StepNested "'v range list"
  | StepPanic

text \<open>
  What one turn of the loop does with the running range and the range at the index: insert the
  running range and return, move on, drop the range of the list, take it as the running range, merge
  the two, return nothing, clear the running range, start again on a nested list, or panic.
\<close>

definition merge_step :: "'v vops \<Rightarrow> binary_operator \<Rightarrow> 'v range \<Rightarrow> 'v range \<Rightarrow> 'v merge_step" where
  "merge_step V op b r = (case b of
     Scope l_min l_max \<Rightarrow>
       (case r of
          Scope r_min r_max \<Rightarrow>
            if bound_compared V l_max r_min False = Some Less then StepInsert
            else if bound_compared V l_min r_max True = Some Greater then StepNext
            else StepMerge
        | REq r_val \<Rightarrow>
            if bound_compared V l_max (Included r_val) False = Some Less then StepInsert
            else if (case bound_compared V l_min (Included r_val) True of Some c \<Rightarrow> c = Greater | None \<Rightarrow> op = Or)
            then StepNext
            else if vnull V r_val then StepDrop
            else StepMerge
        | _ \<Rightarrow> StepPanic)
   | REq l_val \<Rightarrow>
       (case r of
          REq r_val \<Rightarrow>
            if vcmp V l_val r_val = Some Less then StepInsert
            else if vcmp V l_val r_val = Some Greater then StepNext
            else StepMerge
        | Scope r_min r_max \<Rightarrow>
            if (case bound_compared V (Included l_val) r_min False of Some c \<Rightarrow> c = Less | None \<Rightarrow> op = Or)
            then StepInsert
            else if bound_compared V (Included l_val) r_max True = Some Greater then StepNext
            else if vnull V l_val then StepTake
            else StepMerge
        | _ \<Rightarrow> StepPanic)
   | Dummy \<Rightarrow> (case op of And \<Rightarrow> StepEmpty | Or \<Rightarrow> StepTake | _ \<Rightarrow> StepNone)
   | SortedRanges l_ranges \<Rightarrow> StepNested l_ranges)"

fun extract_merge_ranges ::
  "nat \<Rightarrow> 'v vops \<Rightarrow> binary_operator \<Rightarrow> 'v range option \<Rightarrow> 'v range list \<Rightarrow> nat \<Rightarrow>
   ('v range list \<times> nat) res option" where
  "extract_merge_ranges 0 V op binary ranges idx = None"
| "extract_merge_ranges (Suc fuel) V op binary ranges idx =
    (if \<not> idx < length ranges
     then Some (Ok (case binary of Some r \<Rightarrow> ranges @ [r] | None \<Rightarrow> ranges, idx))
     else case binary of
       None \<Rightarrow> Some (Ok (ranges, idx))
     | Some b \<Rightarrow>
         (case merge_step V op b (ranges ! idx) of
            StepInsert \<Rightarrow> Some (Ok (insert_at idx b ranges, idx))
          | StepNext \<Rightarrow> extract_merge_ranges fuel V op binary ranges (Suc idx)
          | StepDrop \<Rightarrow> extract_merge_ranges fuel V op binary (remove_at idx ranges) idx
          | StepTake \<Rightarrow> extract_merge_ranges fuel V op (Some (ranges ! idx)) (remove_at idx ranges) idx
          | StepMerge \<Rightarrow>
              extract_merge_ranges fuel V op (merge_flat V op b (ranges ! idx)) (remove_at idx ranges) idx
          | StepEmpty \<Rightarrow> Some (Ok ([], idx))
          | StepNone \<Rightarrow> extract_merge_ranges fuel V op None ranges idx
          | StepNested l_ranges \<Rightarrow>
              map_option (\<lambda>x. res_bind x (\<lambda>(rs, _). Ok (rs, idx)))
                (extract_merge_ranges fuel V op (Some (ranges ! idx)) l_ranges 0)
          | StepPanic \<Rightarrow> Some (Err Panic)))"

definition ranges2range :: "'v range list \<Rightarrow> 'v range" where
  "ranges2range merged_ranges =
    (if merged_ranges = [] then Dummy
     else if length merged_ranges = 1 then last merged_ranges
     else SortedRanges merged_ranges)"

text \<open>The loop of two lists: each range on the left is merged into the right list.\<close>

fun merge_lists ::
  "nat \<Rightarrow> 'v vops \<Rightarrow> binary_operator \<Rightarrow> 'v range list \<Rightarrow> 'v range list \<Rightarrow> nat \<Rightarrow>
   'v range list res option" where
  "merge_lists fuel V op [] right_ranges idx = Some (Ok right_ranges)"
| "merge_lists fuel V op (l # ls) right_ranges idx =
    (case extract_merge_ranges fuel V op (Some l) right_ranges idx of
       None \<Rightarrow> None
     | Some (Inl e) \<Rightarrow> Some (Err e)
     | Some (Inr (rs, idx')) \<Rightarrow> merge_lists fuel V op ls rs idx')"

definition merge_binary ::
  "nat \<Rightarrow> 'v vops \<Rightarrow> binary_operator \<Rightarrow> 'v range \<Rightarrow> 'v range \<Rightarrow> 'v range option res option" where
  "merge_binary fuel V op left_binary right_binary =
    (let into = (\<lambda>b ranges. map_option (\<lambda>x. res_bind x (\<lambda>(rs, _). Ok (Some (ranges2range rs))))
                  (extract_merge_ranges fuel V op (Some b) ranges 0))
     in if left_binary = Dummy then Some (Ok (merge_dummy op right_binary))
        else if right_binary = Dummy then Some (Ok (merge_dummy op left_binary))
        else case (left_binary, right_binary) of
          (SortedRanges ls, SortedRanges rs) \<Rightarrow>
            map_option (\<lambda>x. res_bind x (\<lambda>ranges. Ok (Some (ranges2range ranges))))
              (merge_lists fuel V op ls rs 0)
        | (SortedRanges ls, r) \<Rightarrow> into r ls
        | (l, SortedRanges rs) \<Rightarrow> into l rs
        | (l, r) \<Rightarrow> Some (Ok (merge_flat V op l r)))"

section \<open>Combining equality ranges for composite indexes\<close>

datatype 'v tree_node = TreeNode (node_value: "'v option") (node_children: "'v tree_node list")

text \<open>
  \<open>build_tree\<close> recurses on the level; the model recurses on the ranges from that level on, so the
  test for the last level is that no range is left.
\<close>

definition build_subtree :: "'v tree_node option \<Rightarrow> bool \<Rightarrow> 'v range \<Rightarrow> 'v tree_node option" where
  "build_subtree sub is_last r = (case r of
     REq v \<Rightarrow>
       (case sub of
          None \<Rightarrow> None
        | Some t \<Rightarrow> Some (TreeNode (Some v) (if node_children t \<noteq> [] \<or> is_last then [t] else [])))
   | _ \<Rightarrow> None)"

fun build_tree :: "'v range list \<Rightarrow> 'v tree_node option" where
  "build_tree [] = Some (TreeNode None [])"
| "build_tree (r # rs) =
    map_option (TreeNode None)
      (those (map (build_subtree (build_tree rs) (rs = []))
        (case r of SortedRanges child_ranges \<Rightarrow> child_ranges | _ \<Rightarrow> [r])))"

function (sequential) enumeration :: "'v tree_node \<Rightarrow> 'v list \<Rightarrow> 'v list list" where
  "enumeration (TreeNode v children) path =
    (if v = None \<and> children = [] then [path] else []) @
    concat (map (\<lambda>child. case node_value child of
        Some val \<Rightarrow> enumeration (TreeNode None (node_children child)) (path @ [val])
      | None \<Rightarrow> enumeration child path) children)"
  by pat_completeness auto

lemma size_tree_node_child: "c \<in> set cs \<Longrightarrow> size c < size (TreeNode v cs)"
  using size_list_estimation' [of c cs "size c" size] by simp

lemma size_tree_node_taken: "size (TreeNode None (node_children c)) = size c"
  by (cases c; cases "node_value c") simp_all

termination enumeration
  by (relation "measure (\<lambda>(t, _). size t)")
    (auto simp: size_tree_node_taken size_tree_node_child simp del: tree_node.size)

fun only_eq :: "'v range \<Rightarrow> bool" where
  "only_eq (REq _) = True"
| "only_eq (SortedRanges ranges) = list_all only_eq ranges"
| "only_eq (Scope _ _) = False"
| "only_eq Dummy = False"

definition merge_value :: "'d data_value list \<Rightarrow> bool \<Rightarrow> 'd data_value \<Rightarrow> 'd data_value" where
  "merge_value tuple is_upper v = Tuple (tuple @ [v]) is_upper"

definition merge_value_on_bound ::
  "'d data_value list \<Rightarrow> bool \<Rightarrow> 'd data_value bound \<Rightarrow> 'd data_value bound" where
  "merge_value_on_bound tuple is_upper b = (case b of
     Included v \<Rightarrow> Included (merge_value tuple is_upper v)
   | Excluded v \<Rightarrow> Excluded (merge_value tuple is_upper v)
   | Unbounded \<Rightarrow> if tuple = [] then Unbounded else Excluded (Tuple tuple is_upper))"

fun collect_tuple_range :: "'d data_value list \<Rightarrow> 'd data_value range \<Rightarrow> 'd data_value range list" where
  "collect_tuple_range tuple (Scope min_b max_b) =
     [Scope (merge_value_on_bound tuple False min_b) (merge_value_on_bound tuple True max_b)]"
| "collect_tuple_range tuple (REq v) = [REq (merge_value tuple False v)]"
| "collect_tuple_range tuple Dummy = [Dummy]"
| "collect_tuple_range tuple (SortedRanges ranges) = concat (map (collect_tuple_range tuple) ranges)"

definition combining_eqs ::
  "'d data_value range \<Rightarrow> 'd data_value range list \<Rightarrow> 'd data_value range option" where
  "combining_eqs r eqs =
    map_option (\<lambda>node. ranges2range
        (concat (map (\<lambda>tuple. collect_tuple_range tuple r) (enumeration node []))))
      (build_tree eqs)"

section \<open>The values of a range\<close>

definition above_min :: "'v vops \<Rightarrow> 'v bound \<Rightarrow> 'v \<Rightarrow> bool" where
  "above_min V b v = (case b of
     Included x \<Rightarrow> vcmp V v x = Some Greater \<or> vcmp V v x = Some Equal
   | Excluded x \<Rightarrow> vcmp V v x = Some Greater
   | Unbounded \<Rightarrow> True)"

definition below_max :: "'v vops \<Rightarrow> 'v bound \<Rightarrow> 'v \<Rightarrow> bool" where
  "below_max V b v = (case b of
     Included x \<Rightarrow> vcmp V v x = Some Less \<or> vcmp V v x = Some Equal
   | Excluded x \<Rightarrow> vcmp V v x = Some Less
   | Unbounded \<Rightarrow> True)"

fun range_has :: "'v vops \<Rightarrow> 'v range \<Rightarrow> 'v \<Rightarrow> bool" where
  "range_has V (Scope min_b max_b) v = (above_min V min_b v \<and> below_max V max_b v)"
| "range_has V (REq x) v = veq V v x"
| "range_has V Dummy v = False"
| "range_has V (SortedRanges ranges) v = list_ex (\<lambda>r. range_has V r v) ranges"

definition flat :: "'v range \<Rightarrow> bool" where
  "flat r = (case r of SortedRanges _ \<Rightarrow> False | _ \<Rightarrow> True)"

text \<open>A scope whose lower value is not above its upper value, and below it if both are excluded.\<close>

definition proper :: "'v vops \<Rightarrow> 'v range \<Rightarrow> bool" where
  "proper V r = (case r of
     Scope (Included x) (Included y) \<Rightarrow> vcmp V x y \<noteq> Some Greater
   | Scope (Included x) (Excluded y) \<Rightarrow> vcmp V x y \<noteq> Some Greater
   | Scope (Excluded x) (Included y) \<Rightarrow> vcmp V x y \<noteq> Some Greater
   | Scope (Excluded x) (Excluded y) \<Rightarrow> vcmp V x y \<noteq> Some Greater \<and> vcmp V x y \<noteq> Some Equal
   | _ \<Rightarrow> True)"

lemma list_ex_insert_at [simp]: "list_ex P (insert_at i x xs) \<longleftrightarrow> P x \<or> list_ex P xs"
proof -
  have "list_ex P xs \<longleftrightarrow> list_ex P (take i xs) \<or> list_ex P (drop i xs)"
    by (metis append_take_drop_id list_ex_append)
  then show ?thesis by (auto simp: insert_at_def)
qed

lemma list_ex_remove_at:
  assumes "i < length xs"
  shows "list_ex P xs \<longleftrightarrow> P (xs ! i) \<or> list_ex P (remove_at i xs)"
proof -
  have "list_ex P xs \<longleftrightarrow> list_ex P (take i xs @ xs ! i # drop (Suc i) xs)"
    using assms by (simp add: id_take_nth_drop [symmetric])
  then show ?thesis by (auto simp: remove_at_def)
qed

lemma set_remove_at: "set (remove_at i xs) \<subseteq> set xs"
  by (auto simp: remove_at_def dest: in_set_takeD in_set_dropD)

lemma length_remove_at [simp]: "i < length xs \<Longrightarrow> length (remove_at i xs) = length xs - 1"
  by (simp add: remove_at_def)

text \<open>Ranges that can be the running range of the merge into a list.\<close>

definition running :: "'v vops \<Rightarrow> 'v set \<Rightarrow> 'v range \<Rightarrow> bool" where
  "running V D b \<longleftrightarrow> flat b \<and> b \<noteq> Dummy \<and> proper V b \<and> set_range b \<subseteq> D"

text \<open>
  A closed lower end at the open upper end of another range. The two loops compare such a pair
  differently: the loop of \<open>extract_merge_ranges\<close> merges them, and \<open>or_scope_merge\<close> keeps them apart.
\<close>

definition open_at :: "'v vops \<Rightarrow> 'v \<Rightarrow> 'v range \<Rightarrow> bool" where
  "open_at V x r = (case r of Scope _ (Excluded y) \<Rightarrow> vcmp V x y = Some Equal | _ \<Rightarrow> False)"

definition touches :: "'v vops \<Rightarrow> 'v range \<Rightarrow> 'v range \<Rightarrow> bool" where
  "touches V a b = (case a of
     Scope (Included x) _ \<Rightarrow> open_at V x b
   | REq x \<Rightarrow> open_at V x b
   | _ \<Rightarrow> False)"

definition bounded_below :: "'v range \<Rightarrow> bool" where
  "bounded_below r = (case r of Scope Unbounded _ \<Rightarrow> False | _ \<Rightarrow> True)"

definition apart :: "'v vops \<Rightarrow> 'v range list \<Rightarrow> bool" where
  "apart V rs \<longleftrightarrow> list_all bounded_below rs \<and> list_all (\<lambda>a. list_all (\<lambda>b. \<not> touches V a b) rs) rs"

text \<open>What a merge keeps of the running range and the range of the list.\<close>

definition merged :: "'v vops \<Rightarrow> 'v set \<Rightarrow> 'v range \<Rightarrow> 'v range \<Rightarrow> 'v range \<Rightarrow> bool" where
  "merged V D b r b' \<longleftrightarrow> running V D b' \<and> bounded_below b' \<and>
     (\<forall>z. running V D z \<longrightarrow> (touches V b' z \<longrightarrow> touches V b z \<or> touches V r z) \<and>
        (touches V z b' \<longrightarrow> touches V z b \<or> touches V z r)) \<and>
     (\<forall>v\<in>D. range_has V b v \<or> range_has V r v \<longrightarrow> range_has V b' v)"

locale value_order =
  fixes V :: "'v vops" and D :: "'v set" and key :: "'v \<Rightarrow> 'k::linorder"
  assumes cmp_key: "a \<in> D \<Longrightarrow> b \<in> D \<Longrightarrow> vcmp V a b = Some (cmp_of (key a) (key b))"
    and eq_key: "a \<in> D \<Longrightarrow> b \<in> D \<Longrightarrow> veq V a b \<longleftrightarrow> key a = key b"
    and not_null: "a \<in> D \<Longrightarrow> \<not> vnull V a"
begin

lemma bounds_iff [simp]:
  "x \<in> D \<Longrightarrow> v \<in> D \<Longrightarrow> above_min V (Included x) v \<longleftrightarrow> key x \<le> key v"
  "x \<in> D \<Longrightarrow> v \<in> D \<Longrightarrow> above_min V (Excluded x) v \<longleftrightarrow> key x < key v"
  "x \<in> D \<Longrightarrow> v \<in> D \<Longrightarrow> below_max V (Included x) v \<longleftrightarrow> key v \<le> key x"
  "x \<in> D \<Longrightarrow> v \<in> D \<Longrightarrow> below_max V (Excluded x) v \<longleftrightarrow> key v < key x"
  "above_min V Unbounded v" "below_max V Unbounded v"
  by (auto simp: above_min_def below_max_def cmp_key)

lemma max_of_mins:
  assumes "set_bound a \<subseteq> D" "set_bound b \<subseteq> D" "v \<in> D"
  shows "above_min V (if bound_compared V a b True = Some Greater then a else b) v
    \<longleftrightarrow> above_min V a v \<and> above_min V b v"
  using assms
  by (cases a; cases b) (auto simp: cmp_key is_min_then_reverse_def cmp_of_def)

lemma min_of_maxs:
  assumes "set_bound a \<subseteq> D" "set_bound b \<subseteq> D" "v \<in> D"
  shows "below_max V (if bound_compared V a b False = Some Less then a else b) v
    \<longleftrightarrow> below_max V a v \<and> below_max V b v"
  using assms
  by (cases a; cases b) (auto simp: cmp_key is_min_then_reverse_def cmp_of_def)

lemma min_of_mins:
  assumes "set_bound a \<subseteq> D" "set_bound b \<subseteq> D" "v \<in> D"
  shows "above_min V (if bound_compared V a b True = Some Less then a else b) v
    \<longleftrightarrow> above_min V a v \<or> above_min V b v"
  using assms
  by (cases a; cases b) (auto simp: cmp_key is_min_then_reverse_def cmp_of_def)

lemma max_of_maxs:
  assumes "set_bound a \<subseteq> D" "set_bound b \<subseteq> D" "v \<in> D"
  shows "below_max V (if bound_compared V a b False = Some Greater then a else b) v
    \<longleftrightarrow> below_max V a v \<or> below_max V b v"
  using assms
  by (cases a; cases b) (auto simp: cmp_key is_min_then_reverse_def cmp_of_def)

lemma set_bound_if: "set_bound a \<subseteq> D \<Longrightarrow> set_bound b \<subseteq> D \<Longrightarrow> set_bound (if P then a else b) \<subseteq> D"
  by simp

lemma scope_of_bounds:
  assumes "set_bound a \<subseteq> D" "set_bound b \<subseteq> D" "v \<in> D"
  shows "range_has V (case bound_compared V a b (is_unbounded a) of
       Some Greater \<Rightarrow> Dummy | Some Equal \<Rightarrow> point_scope a | _ \<Rightarrow> Scope a b) v
     \<longleftrightarrow> range_has V (Scope a b) v"
  using assms
  by (cases a; cases b)
    (auto simp: cmp_key eq_key is_min_then_reverse_def cmp_of_def is_unbounded_def point_scope_def)

lemma hull_of_bounds:
  assumes "set_bound a \<subseteq> D" "set_bound b \<subseteq> D" "v \<in> D"
  shows "range_has V (case bound_compared V a b (is_unbounded a) of
       Some Equal \<Rightarrow> point_scope a | _ \<Rightarrow> Scope a b) v
     \<longleftrightarrow> range_has V (Scope a b) v"
  using assms
  by (cases a; cases b)
    (auto simp: cmp_key eq_key is_min_then_reverse_def cmp_of_def is_unbounded_def point_scope_def)

lemma and_scope_merge_iff:
  assumes "set_range (Scope a b) \<subseteq> D" "set_range (Scope c d) \<subseteq> D" "v \<in> D"
  shows "range_has V (and_scope_merge V a b c d) v
    \<longleftrightarrow> range_has V (Scope a b) v \<and> range_has V (Scope c d) v"
  using assms
  by (simp add: and_scope_merge_def Let_def scope_of_bounds set_bound_if max_of_mins min_of_maxs
      del: if_split) blast

lemma or_scope_merge_covers:
  assumes "set_range (Scope a b) \<subseteq> D" "set_range (Scope c d) \<subseteq> D" "v \<in> D"
    and "range_has V (Scope a b) v \<or> range_has V (Scope c d) v"
  shows "range_has V (or_scope_merge V a b c d) v"
proof (cases "bound_compared V b c False = Some Less \<or> bound_compared V d a False = Some Less")
  case True
  then show ?thesis using assms(4) by (auto simp: or_scope_merge_def)
next
  case False
  then show ?thesis using assms
    by (simp add: or_scope_merge_def Let_def hull_of_bounds set_bound_if min_of_mins max_of_maxs
        del: if_split) blast
qed

lemma merge_scope_eq_And:
  assumes "set_range (Scope a b) \<subseteq> D" "eq \<in> D"
  shows "merge_scope_eq V And a b eq = Some (if range_has V (Scope a b) eq then REq eq else Dummy)"
  using assms
  by (cases a; cases b)
    (auto simp: merge_scope_eq_def Let_def cmp_key cmp_of_def is_min_then_reverse_def is_unbounded_def)

lemma merge_scope_eq_Or:
  assumes "set_range (Scope a b) \<subseteq> D" "eq \<in> D" "proper V (Scope a b)"
  shows "\<exists>r. merge_scope_eq V Or a b eq = Some r \<and> set_range r \<subseteq> D \<and>
    (\<forall>v\<in>D. range_has V r v \<longleftrightarrow> range_has V (Scope a b) v \<or> veq V v eq)"
  using assms not_null [of eq]
  by (cases a; cases b)
    (auto simp: merge_scope_eq_def process_exclude_bound_with_eq_def cmp_key eq_key cmp_of_def proper_def
      is_min_then_reverse_def)

lemma merge_eq_eq_iff:
  assumes "x \<in> D" "y \<in> D" "v \<in> D"
  shows "\<exists>r. merge_eq_eq V And x y = Some r \<and> flat r \<and> set_range r \<subseteq> D \<and>
      (range_has V r v \<longleftrightarrow> veq V v x \<and> veq V v y)"
    and "\<exists>r. merge_eq_eq V Or x y = Some r \<and> set_range r \<subseteq> D \<and>
      (range_has V r v \<longleftrightarrow> veq V v x \<or> veq V v y)"
  using assms by (auto simp: merge_eq_eq_def eq_key flat_def)

lemma scope_of_bounds_flat:
  assumes "set_bound a \<subseteq> D" "set_bound b \<subseteq> D"
  shows "flat (case c of Some Greater \<Rightarrow> Dummy | Some Equal \<Rightarrow> point_scope a | _ \<Rightarrow> Scope a b) \<and>
    set_range (case c of Some Greater \<Rightarrow> Dummy | Some Equal \<Rightarrow> point_scope a | _ \<Rightarrow> Scope a b) \<subseteq> D"
  using assms by (cases a) (simp_all add: flat_def point_scope_def split: option.split ordering.split)

lemma and_scope_merge_flat:
  "set_range (Scope a b) \<subseteq> D \<Longrightarrow> set_range (Scope c d) \<subseteq> D \<Longrightarrow>
   flat (and_scope_merge V a b c d) \<and> set_range (and_scope_merge V a b c d) \<subseteq> D"
  by (simp add: and_scope_merge_def Let_def scope_of_bounds_flat set_bound_if del: if_split)

lemma range_has_key:
  "set_range r \<subseteq> D \<Longrightarrow> v \<in> D \<Longrightarrow> x \<in> D \<Longrightarrow> key v = key x \<Longrightarrow> range_has V r v \<longleftrightarrow> range_has V r x"
proof (induction r)
  case (Scope a b)
  then show ?case by (cases a; cases b) auto
next
  case (SortedRanges rs)
  then have "range_has V r v \<longleftrightarrow> range_has V r x" if "r \<in> set rs" for r
    using that by (auto simp: UN_subset_iff)
  then show ?case by (auto simp: list_ex_iff)
qed (auto simp: eq_key)

lemma scope_eq_And:
  assumes "set_range (Scope a b) \<subseteq> D" "e \<in> D"
  shows "\<exists>x. merge_scope_eq V And a b e = Some x \<and> flat x \<and> set_range x \<subseteq> D \<and>
    (\<forall>v\<in>D. range_has V x v \<longleftrightarrow> range_has V (Scope a b) v \<and> veq V v e)"
proof -
  have "range_has V (Scope a b) e" if "v \<in> D" "veq V v e" "range_has V (Scope a b) v" for v
    using range_has_key [OF assms(1) that(1) assms(2)] that assms(2) eq_key by blast
  moreover have "range_has V (Scope a b) v" if "v \<in> D" "veq V v e" "range_has V (Scope a b) e" for v
    using range_has_key [OF assms(1) that(1) assms(2)] that assms(2) eq_key by blast
  ultimately show ?thesis
    using assms(2) by (auto simp: merge_scope_eq_And [OF assms] flat_def simp del: range_has.simps(1))
qed

lemma merge_flat_And:
  assumes "flat l" "flat r" "set_range l \<subseteq> D" "set_range r \<subseteq> D"
  shows "\<exists>x. merge_flat V And l r = Some x \<and> flat x \<and> set_range x \<subseteq> D \<and>
    (\<forall>v\<in>D. range_has V x v \<longleftrightarrow> range_has V l v \<and> range_has V r v)"
proof -
  note [simp] = flat_def merge_dummy_def and_scope_merge_iff and_scope_merge_flat [unfolded flat_def]
  consider "l = Dummy \<or> r = Dummy" | a b c d where "l = Scope a b" "r = Scope c d"
    | a b e where "l = Scope a b" "r = REq e" | a b e where "l = REq e" "r = Scope a b"
    | x y where "l = REq x" "r = REq y"
    using assms by (cases l; cases r) auto
  then show ?thesis
  proof cases
    case 1
    then show ?thesis using assms by (cases l; cases r) auto
  next
    case 3
    then show ?thesis using scope_eq_And [of a b e] assms by simp
  next
    case 4
    then show ?thesis using scope_eq_And [of a b e] assms by (simp add: conj_commute)
  next
    case 5
    then show ?thesis using assms by (auto simp: merge_eq_eq_def eq_key)
  qed (use assms in simp)
qed

lemma eq_step_Or:
  assumes "running V D b" "x \<in> D"
  shows "merge_step V Or b (REq x) \<in> {StepInsert, StepNext, StepMerge} \<and>
    (merge_step V Or b (REq x) = StepMerge \<longrightarrow>
      (\<exists>b'. merge_flat V Or b (REq x) = Some b' \<and> running V D b' \<and>
        (\<forall>v\<in>D. range_has V b' v \<longleftrightarrow> range_has V b v \<or> veq V v x)))"
proof (cases b)
  case (Scope l u)
  then show ?thesis using assms not_null [of x]
    by (cases l; cases u)
      (auto simp: running_def merge_step_def merge_scope_eq_def process_exclude_bound_with_eq_def
        is_min_then_reverse_def cmp_key eq_key cmp_of_def proper_def flat_def)
next
  case (REq y)
  then show ?thesis using assms
    by (auto simp: running_def merge_step_def merge_eq_eq_def cmp_key eq_key cmp_of_def)
qed (use assms in \<open>auto simp: running_def flat_def\<close>)

lemma in_list_Or:
  "running V D b \<Longrightarrow> set ranges \<subseteq> REq ` D \<Longrightarrow> length ranges - idx < fuel \<Longrightarrow>
   \<exists>rs i. extract_merge_ranges fuel V Or (Some b) ranges idx = Some (Ok (rs, i)) \<and>
     (\<forall>v\<in>D. list_ex (\<lambda>r. range_has V r v) rs \<longleftrightarrow>
        range_has V b v \<or> list_ex (\<lambda>r. range_has V r v) ranges)"
proof (induction fuel arbitrary: b ranges idx)
  case (Suc fuel)
  show ?case
  proof (cases "idx < length ranges")
    case True
    then obtain x where x: "ranges ! idx = REq x" "x \<in> D"
      using Suc.prems(2) nth_mem by blast
    have rm: "set (remove_at idx ranges) \<subseteq> REq ` D"
      using Suc.prems(2) set_remove_at by fast
    consider "merge_step V Or b (REq x) = StepInsert" | "merge_step V Or b (REq x) = StepNext"
      | b' where "merge_step V Or b (REq x) = StepMerge" "merge_flat V Or b (REq x) = Some b'" "running V D b'"
        "\<And>v. v \<in> D \<Longrightarrow> range_has V b' v \<longleftrightarrow> range_has V b v \<or> veq V v x"
      using eq_step_Or [OF Suc.prems(1) x(2)] by blast
    then show ?thesis
    proof cases
      case 1
      then show ?thesis using True x by simp
    next
      case 2
      then show ?thesis using True x Suc.IH [of b ranges "Suc idx"] Suc.prems by simp
    next
      case 3
      then show ?thesis
        using True x rm Suc.IH [of b' "remove_at idx ranges" idx] Suc.prems
        by (simp add: list_ex_remove_at [OF True] disj_assoc)
    qed
  qed (use Suc.prems in \<open>auto simp: disj_commute\<close>)
qed simp

lemma touches_Scope:
  "touches V (Scope a b) r \<longleftrightarrow> touches V (Scope a d) r"
  "touches V r (Scope a b) \<longleftrightarrow> touches V r (Scope c b)"
  by (auto simp: touches_def open_at_def split: bound.splits range.splits)

lemma merge_scopes_overlap:
  assumes "set_range (Scope a b) \<subseteq> D" "set_range (Scope c d) \<subseteq> D" "a \<noteq> Unbounded"
    and "\<not> touches V (Scope a b) (Scope c d)" "merge_step V Or (Scope a b) (Scope c d) = StepMerge"
  shows "bound_compared V b c False \<noteq> Some Less" "bound_compared V d a False \<noteq> Some Less"
  using assms
  by (simp add: merge_step_def split: if_splits)
    (use assms in \<open>cases a; cases d\<close>,
     auto simp: merge_step_def is_min_then_reverse_def cmp_key cmp_of_def touches_def open_at_def
      split: if_splits)

lemma proper_lower:
  assumes "set_bound a \<subseteq> D" "set_bound c \<subseteq> D" "set_bound d \<subseteq> D" "c \<noteq> Unbounded"
    and "bound_compared V a c True = Some Less" "proper V (Scope c d)"
  shows "proper V (Scope a d)"
  using assms
  by (cases a; cases c; cases d)
    (auto simp: is_min_then_reverse_def cmp_key cmp_of_def proper_def split: if_splits)

lemma proper_upper:
  assumes "set_bound b \<subseteq> D" "set_bound c \<subseteq> D" "set_bound d \<subseteq> D"
    and "bound_compared V b d False = Some Greater" "proper V (Scope c d)"
  shows "proper V (Scope c b)"
  using assms
  by (cases b; cases c; cases d)
    (auto simp: is_min_then_reverse_def cmp_key cmp_of_def proper_def split: if_splits)

lemma hull_running:
  assumes "set_bound a \<subseteq> D" "set_bound b \<subseteq> D" "a \<noteq> Unbounded" "proper V (Scope a b)"
    and "h = (case bound_compared V a b (is_unbounded a) of Some Equal \<Rightarrow> point_scope a | _ \<Rightarrow> Scope a b)"
  shows "running V D h \<and> bounded_below h \<and> (\<forall>r. touches V h r \<longrightarrow> touches V (Scope a b) r) \<and>
    (\<forall>r. touches V r h \<longrightarrow> touches V r (Scope a b))"
  using assms
  by (cases a; cases b)
    (auto simp: is_min_then_reverse_def cmp_key cmp_of_def proper_def point_scope_def is_unbounded_def
      running_def flat_def bounded_below_def touches_def open_at_def split: if_splits range.splits bound.splits)

lemma scope_step_Or:
  assumes "running V D (Scope a b)" "running V D (Scope c d)" "apart V [Scope a b, Scope c d]"
    and "merge_step V Or (Scope a b) (Scope c d) = StepMerge"
  shows "running V D (or_scope_merge V a b c d) \<and> bounded_below (or_scope_merge V a b c d) \<and>
    (\<forall>r. touches V (or_scope_merge V a b c d) r \<longrightarrow> touches V (Scope a b) r \<or> touches V (Scope c d) r) \<and>
    (\<forall>r. touches V r (or_scope_merge V a b c d) \<longrightarrow> touches V r (Scope a b) \<or> touches V r (Scope c d))"
proof -
  define lo where "lo = (if bound_compared V a c True = Some Less then a else c)"
  define hi where "hi = (if bound_compared V b d False = Some Greater then b else d)"
  have sub: "set_bound a \<subseteq> D" "set_bound b \<subseteq> D" "set_bound c \<subseteq> D" "set_bound d \<subseteq> D"
    and pr: "proper V (Scope a b)" "proper V (Scope c d)" and "a \<noteq> Unbounded" "c \<noteq> Unbounded"
    and "\<not> touches V (Scope a b) (Scope c d)"
    using assms(1-3) by (auto simp: running_def apart_def bounded_below_def split: bound.splits)
  then have "or_scope_merge V a b c d =
      (case bound_compared V lo hi (is_unbounded lo) of Some Equal \<Rightarrow> point_scope lo | _ \<Rightarrow> Scope lo hi)"
    using merge_scopes_overlap [of a b c d] assms(4)
    unfolding or_scope_merge_def Let_def lo_def hi_def by simp
  moreover have "proper V (Scope lo hi)"
    using pr sub proper_lower [of a c d] proper_upper [of b c d] \<open>c \<noteq> Unbounded\<close>
    by (auto simp: lo_def hi_def)
  moreover have "set_bound lo \<subseteq> D" "set_bound hi \<subseteq> D" "lo \<noteq> Unbounded"
    using sub \<open>a \<noteq> Unbounded\<close> \<open>c \<noteq> Unbounded\<close> by (auto simp: lo_def hi_def)
  ultimately have "running V D (or_scope_merge V a b c d) \<and> bounded_below (or_scope_merge V a b c d) \<and>
      (\<forall>r. touches V (or_scope_merge V a b c d) r \<longrightarrow> touches V (Scope lo hi) r) \<and>
      (\<forall>r. touches V r (or_scope_merge V a b c d) \<longrightarrow> touches V r (Scope lo hi))"
    by (intro hull_running)
  moreover have "touches V (Scope lo hi) r \<Longrightarrow> touches V (Scope a b) r \<or> touches V (Scope c d) r" for r
    by (metis lo_def touches_Scope(1))
  moreover have "touches V r (Scope lo hi) \<Longrightarrow> touches V r (Scope a b) \<or> touches V r (Scope c d)" for r
    by (metis hi_def touches_Scope(2))
  ultimately show ?thesis by blast
qed

lemma scope_eq_step_Or:
  assumes "set_range (Scope a u) \<subseteq> D" "x \<in> D"
  shows "merge_step V Or (Scope a u) (REq x) \<in> {StepInsert, StepNext, StepMerge}"
    and "merge_step V Or (Scope a u) (REq x) = StepMerge \<Longrightarrow>
      merge_scope_eq V Or a u x = Some (Scope a u) \<and> range_has V (Scope a u) x"
  using assms not_null [of x]
  by (cases a; cases u; force simp: merge_step_def merge_scope_eq_def is_min_then_reverse_def cmp_key
      cmp_of_def split: if_splits)+

lemma eq_scope_step_Or:
  assumes "set_range (Scope c d) \<subseteq> D" "x \<in> D" "\<not> touches V (REq x) (Scope c d)" "proper V (Scope c d)"
  shows "merge_step V Or (REq x) (Scope c d) \<in> {StepInsert, StepNext, StepMerge}"
    and "merge_step V Or (REq x) (Scope c d) = StepMerge \<Longrightarrow>
      (\<exists>c'. merge_scope_eq V Or c d x = Some (Scope c' d) \<and> set_bound c' \<subseteq> D \<and>
        (c' = c \<or> (\<exists>y. c = Excluded y \<and> c' = Included y \<and> key y = key x)))"
  using assms not_null [of x]
  by (cases c; cases d; force simp: merge_step_def merge_scope_eq_def process_exclude_bound_with_eq_def
      is_min_then_reverse_def cmp_key eq_key cmp_of_def proper_def touches_def open_at_def split: if_splits)+

lemma open_at_key:
  "x \<in> D \<Longrightarrow> y \<in> D \<Longrightarrow> key x = key y \<Longrightarrow> running V D z \<Longrightarrow> open_at V x z \<longleftrightarrow> open_at V y z"
  by (auto simp: open_at_def running_def cmp_key split: range.splits bound.splits)

lemma merged_eq_scope:
  assumes "running V D (REq x)" "running V D (Scope c d)" "apart V [REq x, Scope c d]"
    and "merge_step V Or (REq x) (Scope c d) = StepMerge"
  shows "\<exists>b'. merge_scope_eq V Or c d x = Some b' \<and> merged V D (REq x) (Scope c d) b'"
proof -
  have D: "set_range (Scope c d) \<subseteq> D" "x \<in> D" "proper V (Scope c d)"
    and "\<not> touches V (REq x) (Scope c d)" "c \<noteq> Unbounded"
    using assms(1-3) by (auto simp: running_def apart_def bounded_below_def)
  then obtain c' where c': "merge_scope_eq V Or c d x = Some (Scope c' d)" "set_bound c' \<subseteq> D"
    "c' = c \<or> (\<exists>y. c = Excluded y \<and> c' = Included y \<and> key y = key x)"
    using eq_scope_step_Or(2) assms(4) by blast
  have "proper V (Scope c' d)" "c' \<noteq> Unbounded"
    using c'(3) D(1,3) \<open>c \<noteq> Unbounded\<close>
    by (auto simp: proper_def cmp_key cmp_of_def split: bound.splits if_splits)
  then have "running V D (Scope c' d)" "bounded_below (Scope c' d)"
    using c'(2) D(1) by (auto simp: running_def flat_def bounded_below_def split: bound.split)
  moreover have "touches V (REq x) z \<or> touches V (Scope c d) z"
    if "touches V (Scope c' d) z" "running V D z" for z
    using that c'(3) open_at_key [OF _ D(2)] D(1) by (auto simp: touches_def)
  moreover have "touches V z (Scope c' d) \<longleftrightarrow> touches V z (Scope c d)" for z
    by (rule touches_Scope)
  moreover have "\<forall>v\<in>D. range_has V (Scope c' d) v \<longleftrightarrow> range_has V (Scope c d) v \<or> veq V v x"
    using merge_scope_eq_Or [OF D(1,2,3)] c'(1) by simp
  ultimately show ?thesis using c'(1) by (auto simp: merged_def simp del: range_has.simps(1))
qed

lemma step_Or:
  assumes "running V D b" "running V D r" "apart V [b, r]"
  shows "merge_step V Or b r \<in> {StepInsert, StepNext, StepMerge} \<and>
    (merge_step V Or b r = StepMerge \<longrightarrow> (\<exists>b'. merge_flat V Or b r = Some b' \<and> merged V D b r b'))"
proof -
  consider a u c d where "b = Scope a u" "r = Scope c d" | a u x where "b = Scope a u" "r = REq x"
    | x c d where "b = REq x" "r = Scope c d" | x y where "b = REq x" "r = REq y"
    using assms(1,2) by (cases b; cases r) (auto simp: running_def flat_def)
  then show ?thesis
  proof cases
    case 1
    then show ?thesis
      using scope_step_Or [of a u c d] or_scope_merge_covers [of a u c d] assms
      by (auto simp: merge_step_def merged_def running_def simp del: range_has.simps(1))
  next
    case 2
    then have D: "set_range (Scope a u) \<subseteq> D" "x \<in> D" using assms by (auto simp: running_def)
    have "range_has V (Scope a u) v" if "range_has V (Scope a u) x" "v \<in> D" "veq V v x" for v
      using range_has_key [OF D(1) that(2) D(2)] that eq_key D(2) by blast
    then show ?thesis
      using 2 scope_eq_step_Or [OF D] assms by (auto simp: merged_def apart_def simp del: range_has.simps(1))
  next
    case 3
    then show ?thesis
      using merged_eq_scope [of x c d] eq_scope_step_Or(1) [of c d x] assms
      by (auto simp: running_def apart_def)
  next
    case 4
    then show ?thesis using assms
      by (auto simp: merge_step_def merge_eq_eq_def merged_def cmp_key eq_key cmp_of_def running_def
          bounded_below_def touches_def)
  qed
qed

lemma apart_merged:
  assumes "apart V (b # ranges)" "r \<in> set ranges" "set rest \<subseteq> set ranges" "merged V D b r b'"
    and "running V D b" "\<forall>x\<in>set ranges. running V D x"
  shows "apart V (b' # rest)"
proof -
  have run: "running V D b'" "bounded_below b'"
    and t: "\<And>z. running V D z \<Longrightarrow> touches V b' z \<Longrightarrow> touches V b z \<or> touches V r z"
      "\<And>z. running V D z \<Longrightarrow> touches V z b' \<Longrightarrow> touches V z b \<or> touches V z r"
    using assms(4) by (auto simp: merged_def)
  have no: "\<not> touches V x y" if "x \<in> insert b (set ranges)" "y \<in> insert b (set ranges)" for x y
    using assms(1) that by (auto simp: apart_def list_all_iff)
  have "\<not> touches V b' z" "\<not> touches V z b'" if "z \<in> set ranges" for z
    using t [of z] no that assms(2,6) by blast+
  moreover have "\<not> touches V b' b'"
    using t [of b'] t(2) [of b] t(2) [of r] run(1) no assms(2,5,6) by blast
  ultimately show ?thesis
    using run assms(1,3) no by (auto simp: apart_def list_all_iff subset_iff)
qed

lemma extract_Or_covers:
  "running V D b \<Longrightarrow> \<forall>r\<in>set ranges. running V D r \<Longrightarrow> apart V (b # ranges) \<Longrightarrow>
   length ranges - idx < fuel \<Longrightarrow>
   \<exists>rs i. extract_merge_ranges fuel V Or (Some b) ranges idx = Some (Ok (rs, i)) \<and>
     (\<forall>v\<in>D. range_has V b v \<or> list_ex (\<lambda>r. range_has V r v) ranges \<longrightarrow>
        list_ex (\<lambda>r. range_has V r v) rs)"
proof (induction fuel arbitrary: b ranges idx)
  case (Suc fuel)
  show ?case
  proof (cases "idx < length ranges")
    case True
    define r where "r = ranges ! idx"
    have r: "r \<in> set ranges" "running V D r" "apart V [b, r]"
      using True Suc.prems(2,3) by (auto simp: r_def apart_def list_all_iff)
    have rm: "set (remove_at idx ranges) \<subseteq> set ranges" by (rule set_remove_at)
    consider "merge_step V Or b r = StepInsert" | "merge_step V Or b r = StepNext"
      | b' where "merge_step V Or b r = StepMerge" "merge_flat V Or b r = Some b'" "merged V D b r b'"
      using step_Or [OF Suc.prems(1) r(2,3)] by blast
    then show ?thesis
    proof cases
      case 1
      then show ?thesis using True by (simp flip: r_def)
    next
      case 2
      then show ?thesis using True Suc.IH [of b ranges "Suc idx"] Suc.prems by (simp flip: r_def)
    next
      case 3
      have "apart V (b' # remove_at idx ranges)"
        by (rule apart_merged [OF Suc.prems(3) r(1) rm 3(3) Suc.prems(1,2)])
      moreover have "running V D b'" "\<forall>x\<in>set (remove_at idx ranges). running V D x"
        "length (remove_at idx ranges) - idx < fuel"
        using 3(3) rm Suc.prems(2,4) True by (auto simp: merged_def)
      ultimately obtain rs i where rs:
        "extract_merge_ranges fuel V Or (Some b') (remove_at idx ranges) idx = Some (Ok (rs, i))"
        "\<And>v. v \<in> D \<Longrightarrow> range_has V b' v \<or> list_ex (\<lambda>r. range_has V r v) (remove_at idx ranges) \<Longrightarrow>
          list_ex (\<lambda>r. range_has V r v) rs"
        using Suc.IH by blast
      have "list_ex (\<lambda>r. range_has V r v) rs"
        if "v \<in> D" "range_has V b v \<or> list_ex (\<lambda>r. range_has V r v) ranges" for v
        using that 3(3) rs(2) [of v] by (auto simp: list_ex_remove_at [OF True] merged_def simp flip: r_def)
      then show ?thesis using rs(1) True 3 by (simp flip: r_def)
    qed
  qed (use Suc.prems in auto)
qed simp

lemma eq_list_And:
  "y \<in> D \<Longrightarrow> set ranges \<subseteq> REq ` D \<Longrightarrow> length ranges - idx < fuel \<Longrightarrow>
   \<exists>rs i. extract_merge_ranges fuel V And (Some (REq y)) ranges idx = Some (Ok (rs, i)) \<and>
     (\<forall>v\<in>D. list_ex (\<lambda>r. range_has V r v) rs \<longleftrightarrow> veq V v y \<or> list_ex (\<lambda>r. range_has V r v) ranges)"
proof (induction fuel arbitrary: ranges idx)
  case (Suc fuel)
  show ?case
  proof (cases "idx < length ranges")
    case True
    then obtain x where x: "ranges ! idx = REq x" "x \<in> D"
      using Suc.prems(2) nth_mem by blast
    have rm: "set (remove_at idx ranges) \<subseteq> REq ` D"
      using Suc.prems(2) set_remove_at by fast
    show ?thesis
      using True x rm Suc.prems Suc.IH [of ranges "Suc idx"] Suc.IH [of "remove_at idx ranges" idx]
      by (cases "key y" "key x" rule: linorder_cases)
        (auto simp: merge_step_def merge_eq_eq_def cmp_key eq_key list_ex_remove_at [OF True] cmp_of_def)
  qed (use Suc.prems in auto)
qed simp

lemma in_list_And:
  "flat b \<Longrightarrow> set_range b \<subseteq> D \<Longrightarrow> b \<noteq> Dummy \<Longrightarrow> set ranges \<subseteq> REq ` D \<Longrightarrow> length ranges - idx < fuel \<Longrightarrow>
   \<exists>rs i. extract_merge_ranges fuel V And (Some b) ranges idx = Some (Ok (rs, i)) \<and>
     (\<forall>v\<in>D. list_ex (\<lambda>r. range_has V r v) ranges \<longrightarrow> list_ex (\<lambda>r. range_has V r v) rs)"
proof (induction fuel arbitrary: idx)
  case (Suc fuel)
  show ?case
  proof (cases b)
    case (REq y)
    then show ?thesis using eq_list_And [of y ranges idx "Suc fuel"] Suc.prems by fastforce
  next
    case (Scope l u)
    show ?thesis
    proof (cases "idx < length ranges")
      case True
      then obtain x where x: "ranges ! idx = REq x" "x \<in> D"
        using Suc.prems(4) nth_mem by blast
      have rm: "set (remove_at idx ranges) \<subseteq> REq ` D" "length (remove_at idx ranges) - idx < fuel"
        using Suc.prems(4,5) set_remove_at True by (fast, simp)
      have step: "merge_step V And b (REq x) \<in> {StepInsert, StepNext, StepMerge} \<and>
          (merge_step V And b (REq x) = StepMerge \<longrightarrow> range_has V b x)"
        using Scope Suc.prems(2) x(2) not_null [of x]
        by (cases l; cases u)
          (auto simp: merge_step_def is_min_then_reverse_def cmp_key cmp_of_def split: if_splits)
      have "merge_flat V And b (REq x) = Some (REq x)" if "range_has V b x"
        using that Scope Suc.prems(2) x(2) merge_scope_eq_And [of l u x] by simp
      then show ?thesis
        using step True x eq_list_And [OF x(2) rm] Suc.IH [of "Suc idx"] Suc.prems
        by (auto simp: list_ex_remove_at [OF True])
    qed (use Suc.prems in auto)
  qed (use Suc.prems in \<open>auto simp: flat_def\<close>)
qed simp

end

section \<open>Ranges of column values\<close>

definition column_values :: "nat \<Rightarrow> 'd data_value set" where
  "column_values t = {v. value_tag v = t}"

lemma value_order_values:
  assumes "decimal_laws K" "ordered_float_laws K" "t \<noteq> 0" "t \<noteq> 18"
  shows "value_order (value_ops K) (column_values t) (value_key K)"
proof (unfold_locales, goal_cases)
  case (1 a b)
  then show ?case
    using assms by (simp add: value_ops_def column_values_def partial_cmp_key is_tuple_iff_tag)
next
  case (2 a b)
  then have "\<not> is_tuple a" using assms by (simp add: column_values_def is_tuple_iff_tag)
  then show ?case
    using 2 by (simp add: value_ops_def column_values_def value_eq_key [OF assms(1,2)] del: value_eq.simps)
next
  case (3 a)
  then show ?case using assms by (auto simp: value_ops_def column_values_def)
qed

lemma value_tag_Int32: "value_tag v = 6 \<longleftrightarrow> (\<exists>w. v = Int32 w)"
  by (cases v) auto

interpretation int32_column: value_order "value_ops K" "column_values 6" "value_key K" for K
  by unfold_locales
    (auto simp: value_ops_def column_values_def value_tag_Int32 scmp_def sint_eq_iff)

lemma range_has_ranges2range [simp]:
  "range_has V (ranges2range rs) v \<longleftrightarrow> list_ex (\<lambda>r. range_has V r v) rs"
  by (cases rs) (auto simp: ranges2range_def)

lemma merge_binary_list:
  assumes "flat b" "b \<noteq> Dummy"
  shows "merge_binary fuel V op b (SortedRanges rs) =
    map_option (\<lambda>x. res_bind x (\<lambda>(rs, _). Ok (Some (ranges2range rs))))
      (extract_merge_ranges fuel V op (Some b) rs 0)"
    and "merge_binary fuel V op (SortedRanges rs) b = merge_binary fuel V op b (SortedRanges rs)"
  using assms by (cases b; simp add: merge_binary_def Let_def flat_def)+

lemma merge_binary_flat:
  "flat l \<Longrightarrow> flat r \<Longrightarrow> merge_binary fuel V op l r = Some (Ok (merge_flat V op l r))"
  by (cases l; cases r) (simp_all add: merge_binary_def Let_def flat_def)

text \<open>
  C9: The conjunction of two ranges that are not lists holds exactly the column values that both hold.
\<close>

theorem merge_binary_And:
  assumes "decimal_laws K" "ordered_float_laws K" "t \<noteq> 0" "t \<noteq> 18"
    and "flat l" "flat r" "set_range l \<subseteq> column_values t" "set_range r \<subseteq> column_values t"
  shows "\<exists>x. merge_binary fuel (value_ops K) And l r = Some (Ok (Some x)) \<and>
    (\<forall>v\<in>column_values t. range_has (value_ops K) x v \<longleftrightarrow>
       range_has (value_ops K) l v \<and> range_has (value_ops K) r v)"
  using value_order.merge_flat_And [OF value_order_values [OF assms(1-4)] assms(5-8)]
  by (auto simp: merge_binary_flat [OF assms(5,6)])

theorem merge_binary_And_witness:
  "\<exists>x. merge_binary 0 (value_ops sample_crates) And (Scope (Excluded (Int32 1)) Unbounded)
      (Scope Unbounded (Included (Int32 4))) = Some (Ok (Some x)) \<and>
    range_has (value_ops sample_crates) x (Int32 3) \<and> \<not> range_has (value_ops sample_crates) x (Int32 5)"
proof -
  let ?V = "value_ops sample_crates"
  have "\<exists>x. merge_binary 0 ?V And (Scope (Excluded (Int32 1)) Unbounded)
      (Scope Unbounded (Included (Int32 4))) = Some (Ok (Some x)) \<and>
    (\<forall>v\<in>column_values 6. range_has ?V x v \<longleftrightarrow>
       range_has ?V (Scope (Excluded (Int32 1)) Unbounded) v \<and> range_has ?V (Scope Unbounded (Included (Int32 4))) v)"
    by (rule merge_binary_And [OF decimal_laws_sample ordered_float_laws_sample])
      (auto simp: flat_def column_values_def)
  then show ?thesis
    by (force simp: column_values_def above_min_def below_max_def value_ops_def scmp_def cmp_of_def)
qed



text \<open>
  The conjunction of a range and an IN list keeps every value of the list, so no row that
  satisfies the condition is lost (the list is not narrowed).
\<close>

theorem merge_binary_And_in_list:
  assumes "decimal_laws K" "ordered_float_laws K" "t \<noteq> 0" "t \<noteq> 18"
    and "flat b" "b \<noteq> Dummy" "set_range b \<subseteq> column_values t" "set vs \<subseteq> column_values t" "length vs < fuel"
  shows "\<exists>x. merge_binary fuel (value_ops K) And b (SortedRanges (map REq vs)) = Some (Ok (Some x)) \<and>
    (\<forall>v\<in>column_values t. list_ex (value_eq K v) vs \<longrightarrow> range_has (value_ops K) x v)"
proof -
  have "set (map REq vs) \<subseteq> REq ` column_values t" using assms(8) by auto
  then show ?thesis
    using value_order.in_list_And [OF value_order_values [OF assms(1-4)] assms(5,7,6), of "map REq vs" 0 fuel]
      assms(5,6,9)
    by (force simp: merge_binary_list list_ex_iff value_ops_def simp del: value_eq.simps)
qed

theorem merge_binary_And_in_list_witness:
  "\<exists>x. merge_binary 3 (value_ops sample_crates) And (Scope (Excluded (Int32 3)) Unbounded)
        (SortedRanges (map REq [Int32 1, Int32 7])) = Some (Ok (Some x)) \<and>
     range_has (value_ops sample_crates) x (Int32 7)"
proof -
  let ?V = "value_ops sample_crates" and ?vs = "[Int32 1, Int32 7]"
  have "\<exists>x. merge_binary 3 ?V And (Scope (Excluded (Int32 3)) Unbounded) (SortedRanges (map REq ?vs)) = Some (Ok (Some x)) \<and>
      (\<forall>v\<in>column_values 6. list_ex (value_eq sample_crates v) ?vs \<longrightarrow> range_has ?V x v)"
    by (rule merge_binary_And_in_list [OF decimal_laws_sample ordered_float_laws_sample])
      (simp_all add: flat_def column_values_def)
  then show ?thesis by (force simp: column_values_def)
qed



section \<open>Cases the merges get wrong\<close>

lemmas int32_eval = value_ops_def bound_compared.simps is_min_then_reverse_def scmp_def cmp_of_def

lemma extract_touching:
  assumes "5 \<le> sint a" "5 \<le> sint b"
  shows "extract_merge_ranges (Suc (Suc fuel)) (value_ops K) Or
      (Some (Scope (Included (Int32 5)) (Included (Int32 a))))
      [Scope (Excluded (Int32 1)) (Excluded (Int32 5)), Scope (Included (Int32 5)) (Included (Int32 b))] 0 =
    map_option (\<lambda>x. res_bind x (\<lambda>(rs, _). Ok (rs, 0)))
      (extract_merge_ranges fuel (value_ops K) Or
        (Some (Scope (Included (Int32 5)) (Included (Int32 b))))
        [Scope (Excluded (Int32 1)) (Excluded (Int32 5)), Scope (Included (Int32 5)) (Included (Int32 a))] 0)"
  using assms by (simp add: int32_eval merge_step_def or_scope_merge_def remove_at_def)


text \<open>
  A disjunction with IS NULL loses values: merging \<open>c = NULL\<close> into the list 1, 2, 3 gives a range
  without 3.
\<close>

theorem merge_binary_Or_null_loses:
  "merge_binary 6 (value_ops K) Or (REq Null) (SortedRanges [REq (Int32 1), REq (Int32 2), REq (Int32 3)]) =
     Some (Ok (Some (SortedRanges [REq (Int32 1), REq (Int32 2), REq Null])))"
  by (simp add: merge_binary_def int32_eval merge_step_def merge_eq_eq_def remove_at_def insert_at_def
      ranges2range_def eval_nat_numeral)

text \<open>
  The disjunction of \<open>c < 5\<close> with a bounded scope gives two ranges that both hold 3, so a scan of
  the two ranges in turn meets that value twice.
\<close>

theorem or_scope_merge_overlap:
  "merge_binary fuel (value_ops K) Or (Scope Unbounded (Excluded (Int32 5)))
      (Scope (Excluded (Int32 1)) (Excluded (Int32 9))) =
     Some (Ok (Some (SortedRanges [Scope Unbounded (Excluded (Int32 5)), Scope (Excluded (Int32 1)) (Excluded (Int32 9))]))) \<and>
   range_has (value_ops K) (Scope Unbounded (Excluded (Int32 5))) (Int32 3) \<and>
   range_has (value_ops K) (Scope (Excluded (Int32 1)) (Excluded (Int32 9))) (Int32 3)"
  by (simp add: merge_binary_def int32_eval or_scope_merge_def above_min_def below_max_def)

text \<open>
  The conjunction of \<open>5 \<le> c\<close> with the ranges \<open>1 < c < 5\<close> and \<open>c = 7\<close> is empty, although 7
  satisfies both.
\<close>

theorem merge_binary_And_loses:
  "merge_binary 4 (value_ops K) And (Scope (Included (Int32 5)) Unbounded)
      (SortedRanges [Scope (Excluded (Int32 1)) (Excluded (Int32 5)), REq (Int32 7)]) = Some (Ok (Some Dummy)) \<and>
   range_has (value_ops K) (Scope (Included (Int32 5)) Unbounded) (Int32 7) \<and>
   range_has (value_ops K) (SortedRanges [Scope (Excluded (Int32 1)) (Excluded (Int32 5)), REq (Int32 7)]) (Int32 7)"
  by (simp add: merge_binary_def int32_eval merge_step_def and_scope_merge_def above_min_def below_max_def
      Let_def is_unbounded_def remove_at_def ranges2range_def eval_nat_numeral)

section \<open>Equality prefixes of composite indexes\<close>

definition eq_values :: "'v range \<Rightarrow> 'v list option" where
  "eq_values r = (case r of
     REq v \<Rightarrow> Some [v]
   | SortedRanges rs \<Rightarrow> those (map (\<lambda>r. case r of REq v \<Rightarrow> Some v | _ \<Rightarrow> None) rs)
   | _ \<Rightarrow> None)"

definition value_node :: "'v tree_node \<Rightarrow> bool \<Rightarrow> 'v \<Rightarrow> 'v tree_node" where
  "value_node t is_last v = TreeNode (Some v) (if node_children t \<noteq> [] \<or> is_last then [t] else [])"

lemma those_map_REq:
  "those (map (\<lambda>r. case r of REq v \<Rightarrow> Some v | _ \<Rightarrow> None) rs) = Some vs \<longleftrightarrow> rs = map REq vs"
  by (induction rs arbitrary: vs) (auto split: range.splits)

lemma eq_values_iff:
  "eq_values r = Some vs \<longleftrightarrow> (\<exists>v. r = REq v \<and> vs = [v]) \<or> r = SortedRanges (map REq vs)"
  by (cases r) (auto simp: eq_values_def those_map_REq)

lemma those_map_Some: "those (map (\<lambda>x. Some (f x)) xs) = Some (map f xs)"
  by (induction xs) auto

lemma build_tree_eqs:
  assumes "eq_values r = Some vs" "build_tree rs = Some t"
  shows "build_tree (r # rs) = Some (TreeNode None (map (value_node t (rs = [])) vs))"
proof -
  have "map (build_subtree (build_tree rs) (rs = [])) (map REq vs) = map (\<lambda>v. Some (value_node t (rs = []) v)) vs"
    using assms(2) by (simp add: build_subtree_def value_node_def)
  then show ?thesis
    using assms(1) by (auto simp: eq_values_iff those_map_Some simp del: map_map)
qed

lemma append_snoc_fun: "(@) (path @ [x]) = (\<lambda>xs. path @ x # xs)"
  by auto

lemma enumeration_build_tree:
  "list_all2 (\<lambda>r vs. eq_values r = Some vs \<and> vs \<noteq> []) rs vss \<Longrightarrow>
   \<exists>t. build_tree rs = Some t \<and> node_value t = None \<and> (rs \<noteq> [] \<longrightarrow> node_children t \<noteq> []) \<and>
     (\<forall>path. enumeration t path = map (\<lambda>xs. path @ xs) (product_lists vss))"
proof (induction rs vss rule: list_all2_induct)
  case (Cons r rs vs vss)
  then obtain t where t: "build_tree rs = Some t" "node_value t = None" "rs \<noteq> [] \<longrightarrow> node_children t \<noteq> []"
    "\<And>path. enumeration t path = map (\<lambda>xs. path @ xs) (product_lists vss)" by auto
  have "node_children (value_node t (rs = []) v) = [t]" for v
    using t(3) by (auto simp: value_node_def)
  then have "enumeration (TreeNode None (node_children (value_node t (rs = []) v))) path = enumeration t path" for v path
    using t(2) by simp
  then have "enumeration (TreeNode None (map (value_node t (rs = [])) vs)) path =
      map (\<lambda>xs. path @ xs) (product_lists (vs # vss))" for path
    using Cons(1) by (simp add: value_node_def t(4) map_concat comp_def append_snoc_fun)
  then show ?case using Cons(1) build_tree_eqs [OF _ t(1)] by simp
qed simp

text \<open>
  C22: For an index whose first columns are fixed by equalities or IN lists, \<open>combining_eqs\<close> builds one
  range per combination of the listed values, and exactly those: the tuples are the product of the lists.
\<close>

theorem combining_eqs_product:
  assumes "list_all2 (\<lambda>r vs. eq_values r = Some vs \<and> vs \<noteq> []) eqs vss"
  shows "combining_eqs r eqs =
    Some (ranges2range (concat (map (\<lambda>tuple. collect_tuple_range tuple r) (product_lists vss))))"
  using enumeration_build_tree [OF assms] by (auto simp: combining_eqs_def comp_def)

theorem combining_eqs_product_witness:
  "combining_eqs (REq (Int32 9)) [REq (Int32 1), SortedRanges [REq (Int32 2), REq (Int32 3)]] =
     Some (SortedRanges [REq (Tuple [Int32 1, Int32 2, Int32 9] False), REq (Tuple [Int32 1, Int32 3, Int32 9] False)])"
  using combining_eqs_product
    [of "[REq (Int32 1), SortedRanges [REq (Int32 2), REq (Int32 3)]]" "[[Int32 1], [Int32 2, Int32 3]]" "REq (Int32 9)"]
  by (simp add: eq_values_def ranges2range_def merge_value_def)

end
