(* ===== verification/Rocks_Store.thy ===== *)
theory Rocks_Store
  imports Table_Codec Range_Algebra
begin

text \<open>
  The transaction of \<open>src/src/storage/rocksdb.rs\<close>. RocksDB is a parameter: the record \<open>rocks\<close> holds the calls
  the code makes, and \<open>rocks_laws\<close> is what its documentation says of them, for a transaction whose calls
  succeed: a transaction is an ordered map from keys to values, an iterator lists it in key order from its
  start, and a prefix iterator stops at the end of the four-byte prefix of its start. The range scan of
  \<open>RocksTransaction::range\<close> and \<open>RocksIter::try_next\<close> is proved to list exactly the entries within its bounds.
\<close>

section \<open>The store\<close>

record 's rocks =
  db_get :: "'s \<Rightarrow> bytes \<Rightarrow> bytes option res"
  db_put :: "'s \<Rightarrow> bytes \<Rightarrow> bytes \<Rightarrow> 's res"
  db_delete :: "'s \<Rightarrow> bytes \<Rightarrow> 's res"
  db_iterator :: "'s \<Rightarrow> bytes option \<Rightarrow> (bytes \<times> bytes) res list"
  db_prefix_iterator :: "'s \<Rightarrow> bytes \<Rightarrow> bytes \<Rightarrow> (bytes \<times> bytes) res list"

section \<open>Range scans\<close>

record rocks_iter =
  iter_upper :: "bytes bound"
  iter_rest :: "(bytes \<times> bytes) res list"

fun common_prefix :: "bytes \<Rightarrow> bytes \<Rightarrow> nat" where
  "common_prefix (a # as) (b # bs) = (if a = b then Suc (common_prefix as bs) else 0)"
| "common_prefix _ _ = 0"

definition range_start :: "bytes bound \<Rightarrow> bytes option" where
  "range_start lo = (case lo of Included b \<Rightarrow> Some b | Excluded b \<Rightarrow> Some (b @ [0]) | Unbounded \<Rightarrow> None)"

definition rocks_range :: "'s rocks \<Rightarrow> 's \<Rightarrow> bytes bound \<Rightarrow> bytes bound \<Rightarrow> rocks_iter res" where
  "rocks_range R s lo hi =
    (let plain = Ok \<lparr> iter_upper = hi, iter_rest = db_iterator R s (range_start lo) \<rparr>;
         prefixed = (\<lambda>min_bytes max_bytes.
           let len = common_prefix min_bytes max_bytes in
           if len = 0 then Err Panic
           else Ok \<lparr> iter_upper = hi, iter_rest = db_prefix_iterator R s (take len min_bytes) min_bytes \<rparr>) in
     case range_start lo of
       None \<Rightarrow> plain
     | Some min_bytes \<Rightarrow>
         (case hi of
            Included max_bytes \<Rightarrow> prefixed min_bytes max_bytes
          | Excluded max_bytes \<Rightarrow> prefixed min_bytes max_bytes
          | Unbounded \<Rightarrow> plain))"

definition upper_bound_check :: "bytes bound \<Rightarrow> bytes \<Rightarrow> bool" where
  "upper_bound_check upper key = (case upper of
     Included u \<Rightarrow> key \<le> u | Excluded u \<Rightarrow> key < u | Unbounded \<Rightarrow> True)"

definition try_next :: "rocks_iter \<Rightarrow> ((bytes \<times> bytes) option \<times> rocks_iter) res" where
  "try_next it = (case iter_rest it of
     [] \<Rightarrow> Ok (None, it)
   | r # rest \<Rightarrow>
       res_bind r (\<lambda>(key, val).
         Ok (if upper_bound_check (iter_upper it) key then Some (key, val) else None, it\<lparr> iter_rest := rest \<rparr>)))"

text \<open>The loop \<open>while let Some(..) = iter.try_next()?\<close> that several callers run.\<close>

function drain :: "rocks_iter \<Rightarrow> (bytes \<times> bytes) list res" where
  "drain it = (case try_next it of
     Inl e \<Rightarrow> Err e
   | Inr (None, _) \<Rightarrow> Ok []
   | Inr (Some entry, it') \<Rightarrow> map_res (Cons entry) (drain it'))"
  by auto
termination
  by (relation "measure (length \<circ> iter_rest)")
    (auto simp: try_next_def res_bind_Ok_iff split: list.splits if_splits)

declare drain.simps [simp del]

section \<open>What RocksDB promises\<close>

definition entries :: "(bytes \<rightharpoonup> bytes) \<Rightarrow> (bytes \<Rightarrow> bool) \<Rightarrow> (bytes \<times> bytes) list" where
  "entries m P = map (\<lambda>k. (k, the (m k))) (sorted_list_of_set {k \<in> dom m. P k})"

definition rocks_laws :: "'s rocks \<Rightarrow> ('s \<Rightarrow> bytes \<rightharpoonup> bytes) \<Rightarrow> bool" where
  "rocks_laws R content \<longleftrightarrow>
    (\<forall>s. finite (dom (content s))) \<and>
    (\<forall>s k. db_get R s k = Ok (content s k)) \<and>
    (\<forall>s k v. \<exists>s'. db_put R s k v = Ok s' \<and> content s' = (content s)(k \<mapsto> v)) \<and>
    (\<forall>s k. \<exists>s'. db_delete R s k = Ok s' \<and> content s' = (content s)(k := None)) \<and>
    (\<forall>s start. db_iterator R s start = map Ok (entries (content s) (\<lambda>k. \<forall>b. start = Some b \<longrightarrow> b \<le> k))) \<and>
    (\<forall>s prefix start. 4 \<le> length start \<longrightarrow>
       db_prefix_iterator R s prefix start = map Ok (entries (content s) (\<lambda>k. start \<le> k \<and> take 4 k = take 4 start)))"

text \<open>An instance: the transaction as the map itself, over a finite set of keys.\<close>

definition list_rocks :: "(bytes \<times> bytes) list rocks" where
  "list_rocks = \<lparr>
     db_get = (\<lambda>s k. Ok (map_of s k)),
     db_put = (\<lambda>s k v. Ok ((k, v) # s)),
     db_delete = (\<lambda>s k. Ok (filter (\<lambda>(k', _). k' \<noteq> k) s)),
     db_iterator = (\<lambda>s start. map Ok (entries (map_of s) (\<lambda>k. \<forall>b. start = Some b \<longrightarrow> b \<le> k))),
     db_prefix_iterator = (\<lambda>s prefix start. map Ok (entries (map_of s) (\<lambda>k. start \<le> k \<and> take 4 k = take 4 start))) \<rparr>"

lemma map_of_filter_key: "map_of (filter (\<lambda>(k', _). k' \<noteq> k) s) = (map_of s)(k := None)"
  by (induction s) (auto simp: fun_eq_iff)

lemma rocks_laws_list: "rocks_laws list_rocks map_of"
  by (simp add: rocks_laws_def list_rocks_def finite_dom_map_of map_of_filter_key)

text \<open>The instance computes.\<close>

lemma entries_map_of:
  "entries (map_of s) P = map (\<lambda>k. (k, the (map_of s k))) (sort (remdups (filter P (map fst s))))"
proof -
  have "{k \<in> dom (map_of s). P k} = set (filter P (map fst s))" by (auto simp: dom_map_of_conv_image_fst)
  then show ?thesis by (simp only: entries_def sorted_list_of_set_sort_remdups)
qed

lemma list_rocks_code [code]:
  "list_rocks = \<lparr>
     db_get = (\<lambda>s k. Ok (map_of s k)),
     db_put = (\<lambda>s k v. Ok ((k, v) # s)),
     db_delete = (\<lambda>s k. Ok (filter (\<lambda>(k', _). k' \<noteq> k) s)),
     db_iterator = (\<lambda>s start. map (\<lambda>k. Ok (k, the (map_of s k)))
       (sort (remdups (filter (\<lambda>k. case start of None \<Rightarrow> True | Some b \<Rightarrow> b \<le> k) (map fst s))))),
     db_prefix_iterator = (\<lambda>s prefix start. map (\<lambda>k. Ok (k, the (map_of s k)))
       (sort (remdups (filter (\<lambda>k. start \<le> k \<and> take 4 k = take 4 start) (map fst s))))) \<rparr>"
proof -
  have "(\<forall>b. start = Some b \<longrightarrow> b \<le> k) \<longleftrightarrow> (case start of None \<Rightarrow> True | Some b \<Rightarrow> b \<le> k)" for start and k :: bytes
    by (cases start) auto
  then show ?thesis by (simp add: list_rocks_def entries_map_of o_def)
qed

section \<open>Lemmas\<close>

lemma rocks_get: "rocks_laws R c \<Longrightarrow> db_get R s k = Ok (c s k)"
  by (simp add: rocks_laws_def)

lemma rocks_put: "rocks_laws R c \<Longrightarrow> \<exists>s'. db_put R s k v = Ok s' \<and> c s' = (c s)(k \<mapsto> v)"
  by (simp add: rocks_laws_def)

lemma rocks_delete: "rocks_laws R c \<Longrightarrow> \<exists>s'. db_delete R s k = Ok s' \<and> c s' = (c s)(k := None)"
  by (simp add: rocks_laws_def)

lemma rocks_finite: "rocks_laws R c \<Longrightarrow> finite (dom (c s))"
  by (simp add: rocks_laws_def)

lemma set_entries: "finite (dom m) \<Longrightarrow> set (entries m P) = {(k, v). m k = Some v \<and> P k}"
  by (force simp: entries_def image_iff)

lemma entries_keys: "finite (dom m) \<Longrightarrow> map fst (entries m P) = sorted_list_of_set {k \<in> dom m. P k}"
  by (simp add: entries_def o_def)

lemma entries_sorted: "sorted_wrt (<) (map fst (entries m P))"
  by (simp add: entries_def o_def)

lemma entries_cong: "(\<And>k. k \<in> dom m \<Longrightarrow> P k = Q k) \<Longrightarrow> entries m P = entries m Q"
  unfolding entries_def by (rule arg_cong [where f = "\<lambda>s. map _ (sorted_list_of_set s)"]) blast

lemma entries_eqI:
  assumes "finite (dom m)" "sorted_wrt (<) (map fst es)" "\<And>k v. (k, v) \<in> set es \<longleftrightarrow> m k = Some v \<and> P k"
  shows "entries m P = es"
proof -
  have "set (map fst es) = {k \<in> dom m. P k}" using assms(3) by (force simp: dom_def image_iff)
  then have "map fst (entries m P) = map fst es"
    unfolding entries_keys [OF assms(1)] using assms(2)
    by (intro sorted_distinct_set_unique) (simp_all add: assms(1) strict_sorted_iff)
  moreover have "es = map (\<lambda>k. (k, the (m k))) (map fst es)" using assms(3) by (auto intro!: map_idI [symmetric])
  moreover have "entries m P = map (\<lambda>k. (k, the (m k))) (map fst (entries m P))"
    using set_entries [OF assms(1), of P] by (auto intro!: map_idI [symmetric])
  ultimately show ?thesis by metis
qed

lemma take_while_sorted_keys:
  fixes es :: "('k::linorder \<times> 'v) list"
  assumes "sorted_wrt (<) (map fst es)" "\<And>a b. a \<le> b \<Longrightarrow> P b \<Longrightarrow> P a"
  shows "takeWhile (P \<circ> fst) es = filter (P \<circ> fst) es"
  using assms(1)
proof (induction es)
  case (Cons e es)
  then show ?case
  proof (cases "P (fst e)")
    case False
    with Cons.prems assms(2) have "\<not> P (fst x)" if "x \<in> set es" for x
      using that by (auto dest: less_imp_le)
    with False show ?thesis by (simp add: filter_empty_conv)
  qed simp
qed simp

lemma filter_entries:
  assumes "finite (dom m)"
  shows "filter (Q \<circ> fst) (entries m P) = entries m (\<lambda>k. P k \<and> Q k)"
proof -
  have "filter Q (sorted_list_of_set {k \<in> dom m. P k}) = sorted_list_of_set {k \<in> dom m. P k \<and> Q k}"
    using assms by (intro sorted_distinct_set_unique) (auto intro: sorted_filter [where f = id, simplified])
  then show ?thesis by (simp add: entries_def filter_map o_def)
qed

lemma drain_Ok: "drain \<lparr> iter_upper = u, iter_rest = map Ok es \<rparr> = Ok (takeWhile (upper_bound_check u \<circ> fst) es)"
  by (induction es) (simp_all add: drain.simps try_next_def split: prod.split)

lemma upper_bound_check_mono: "a \<le> b \<Longrightarrow> upper_bound_check u b \<Longrightarrow> upper_bound_check u a"
  by (cases u) (auto simp: upper_bound_check_def)

text \<open>The keys that lie between two bounds.\<close>

definition lower_bound_check :: "bytes bound \<Rightarrow> bytes \<Rightarrow> bool" where
  "lower_bound_check lower key = (case lower of
     Included l \<Rightarrow> l \<le> key | Excluded l \<Rightarrow> l < key | Unbounded \<Rightarrow> True)"

lemma snoc_zero_le: "b @ [0] \<le> k \<longleftrightarrow> b < (k :: bytes)"
proof (induction b arbitrary: k)
  case Nil
  then show ?case by (cases k) (auto simp: word_gt_0)
next
  case (Cons x b)
  then show ?case by (cases k) auto
qed

lemma range_start_check: "(\<forall>b. range_start lo = Some b \<longrightarrow> b \<le> k) \<longleftrightarrow> lower_bound_check lo k"
  by (cases lo) (simp_all add: range_start_def lower_bound_check_def snoc_zero_le)

lemma between_take:
  fixes a k b :: bytes
  assumes "a \<le> k" "k \<le> b" "take n a = take n b" "n \<le> length a"
  shows "take n k = take n a"
  using assms
proof (induction n arbitrary: a k b)
  case (Suc n)
  then obtain x a' where a: "a = x # a'" by (cases a) auto
  with Suc.prems obtain b' where b: "b = x # b'" by (cases b) auto
  with Suc.prems a obtain k' where "k = x # k'" by (cases k) (auto dest: antisym)
  with Suc a b show ?case by auto
qed simp

lemma common_prefix_pos: "take 4 a = take 4 b \<Longrightarrow> 4 \<le> length a \<Longrightarrow> common_prefix a b \<noteq> 0"
  by (cases a; cases b) auto

definition bounded_by :: "bytes bound \<Rightarrow> bytes \<Rightarrow> bool" where
  "bounded_by bnd p \<longleftrightarrow> (\<exists>r. bnd \<in> {Included (p @ r), Excluded (p @ r)})"

text \<open>A scan whose two bounds share a prefix of at least four bytes lists the entries between them in order.\<close>

lemma drain_range:
  assumes "rocks_laws R c" "bounded_by lo p" "bounded_by hi p" "4 \<le> length p"
  shows "\<exists>it. rocks_range R s lo hi = Ok it \<and>
    drain it = Ok (entries (c s) (\<lambda>k. lower_bound_check lo k \<and> upper_bound_check hi k))"
proof -
  obtain a where a: "range_start lo = Some (p @ a)"
    using assms(2) by (auto simp: bounded_by_def range_start_def)
  obtain b where b: "hi \<in> {Included (p @ b), Excluded (p @ b)}" using assms(3) by (auto simp: bounded_by_def)
  have t4: "take 4 (p @ x) = take 4 p" for x using assms(4) by simp
  then have "common_prefix (p @ a) (p @ b) \<noteq> 0" using assms(4) by (intro common_prefix_pos) auto
  then obtain it where it: "rocks_range R s lo hi = Ok it" "iter_upper it = hi"
    "iter_rest it = map Ok (entries (c s) (\<lambda>k. p @ a \<le> k \<and> take 4 k = take 4 p))"
    using a b assms(1,4) by (fastforce simp: rocks_range_def rocks_laws_def Let_def)
  have fin: "finite (dom (c s))" using assms(1) by (rule rocks_finite)
  have "drain it = Ok (takeWhile (upper_bound_check hi \<circ> fst) (entries (c s) (\<lambda>k. p @ a \<le> k \<and> take 4 k = take 4 p)))"
    using drain_Ok [of hi] it(2,3) by (cases it) simp
  also have "takeWhile (upper_bound_check hi \<circ> fst) (entries (c s) (\<lambda>k. p @ a \<le> k \<and> take 4 k = take 4 p)) =
      entries (c s) (\<lambda>k. (p @ a \<le> k \<and> take 4 k = take 4 p) \<and> upper_bound_check hi k)"
    by (subst take_while_sorted_keys) (auto simp: entries_sorted filter_entries fin intro: upper_bound_check_mono)
  also have "\<dots> = entries (c s) (\<lambda>k. lower_bound_check lo k \<and> upper_bound_check hi k)"
  proof (rule entries_cong)
    fix k
    have "take 4 k = take 4 p" if "p @ a \<le> k" "upper_bound_check hi k"
    proof -
      have "k \<le> p @ b" using that(2) b by (auto simp: upper_bound_check_def)
      from between_take [OF that(1) this] t4 assms(4) show ?thesis by simp
    qed
    moreover have "lower_bound_check lo k \<longleftrightarrow> p @ a \<le> k" using range_start_check [of lo k] a by simp
    ultimately show "((p @ a \<le> k \<and> take 4 k = take 4 p) \<and> upper_bound_check hi k) =
        (lower_bound_check lo k \<and> upper_bound_check hi k)" by auto
  qed
  finally show ?thesis using it(1) by blast
qed

end
