(* ===== verification/Ieee_Float.thy ===== *)
theory Ieee_Float
  imports Kite_Prelude
begin

text \<open>
  The arithmetic of \<open>f32\<close> and \<open>f64\<close> that the value conversions and the evaluators use, on bit patterns:
  decoding, rounding of an exact quotient to nearest (ties to even), the five operations, conversion
  between the two widths and to and from integers. A format is given by its number of fraction bits
  and of exponent bits. Every NaN result is the quiet NaN with a zero payload.
\<close>

section \<open>Formats\<close>

datatype flt = FNan | FInf bool | FFin bool nat int

definition fl_bias :: "nat \<Rightarrow> nat" where
  "fl_bias eb = 2 ^ (eb - 1) - 1"

definition fl_inf :: "nat \<Rightarrow> nat \<Rightarrow> nat" where
  "fl_inf p eb = (2 ^ eb - 1) * 2 ^ p"

text \<open>\<open>FFin s m e\<close> is the value of sign \<open>s\<close> and magnitude \<open>m * 2 ^ e\<close>.\<close>

definition fl_decode :: "nat \<Rightarrow> nat \<Rightarrow> nat \<Rightarrow> flt" where
  "fl_decode p eb w =
    (let frac = w mod 2 ^ p; ex = w div 2 ^ p mod 2 ^ eb; sign = (w div 2 ^ (p + eb) mod 2 = 1) in
     if ex = 2 ^ eb - 1 then (if frac = 0 then FInf sign else FNan)
     else if ex = 0 then FFin sign frac (1 - int (fl_bias eb) - int p)
     else FFin sign (frac + 2 ^ p) (int ex - int (fl_bias eb) - int p))"

definition fl_pack :: "nat \<Rightarrow> nat \<Rightarrow> bool \<Rightarrow> nat \<Rightarrow> nat" where
  "fl_pack p eb sign mag = (if sign then 2 ^ (p + eb) else 0) + mag"

definition fl_nan :: "nat \<Rightarrow> nat \<Rightarrow> nat" where
  "fl_nan p eb = fl_inf p eb + 2 ^ (p - 1)"

fun log2n :: "nat \<Rightarrow> nat" where
  "log2n n = (if n < 2 then 0 else Suc (log2n (n div 2)))"

declare log2n.simps [simp del]

section \<open>Rounding\<close>

definition div_half_even :: "nat \<Rightarrow> nat \<Rightarrow> nat" where
  "div_half_even n d =
    (let q = n div d; r = n mod d in
     if 2 * r < d then q else if d < 2 * r then Suc q else if even q then q else Suc q)"

text \<open>The exponent of the leading bit of the quotient.\<close>

definition ratio_exp :: "nat \<Rightarrow> nat \<Rightarrow> int" where
  "ratio_exp num den =
    (let k = int (log2n num) - int (log2n den) in
     if 0 \<le> k then (if num < den * 2 ^ nat k then k - 1 else k)
     else (if num * 2 ^ nat (- k) < den then k - 1 else k))"

definition fl_round :: "nat \<Rightarrow> nat \<Rightarrow> nat \<Rightarrow> nat \<Rightarrow> nat" where
  "fl_round p eb num den =
    (if num = 0 then 0
     else let q = max (ratio_exp num den) (1 - int (fl_bias eb));
              u = q - int p;
              n = (if 0 \<le> u then div_half_even num (den * 2 ^ nat u)
                   else div_half_even (num * 2 ^ nat (- u)) den)
          in min (nat (q + int (fl_bias eb)) * 2 ^ p + n - 2 ^ p) (fl_inf p eb))"

text \<open>A magnitude \<open>m * 2 ^ e\<close> as a quotient of naturals.\<close>

definition scaled_num :: "nat \<Rightarrow> int \<Rightarrow> nat" where
  "scaled_num m e = (if 0 \<le> e then m * 2 ^ nat e else m)"

definition scaled_den :: "int \<Rightarrow> nat" where
  "scaled_den e = (if 0 \<le> e then 1 else 2 ^ nat (- e))"

definition fl_encode :: "nat \<Rightarrow> nat \<Rightarrow> flt \<Rightarrow> nat" where
  "fl_encode p eb x = (case x of
     FNan \<Rightarrow> fl_nan p eb
   | FInf s \<Rightarrow> fl_pack p eb s (fl_inf p eb)
   | FFin s m e \<Rightarrow> fl_pack p eb s (fl_round p eb (scaled_num m e) (scaled_den e)))"

section \<open>Operations\<close>

definition fin_signed :: "bool \<Rightarrow> nat \<Rightarrow> int \<Rightarrow> int \<Rightarrow> int" where
  "fin_signed s m e e0 = (if s then -1 else 1) * int m * 2 ^ nat (e - e0)"

definition flt_add :: "flt \<Rightarrow> flt \<Rightarrow> flt" where
  "flt_add x y = (case (x, y) of
     (FNan, _) \<Rightarrow> FNan
   | (_, FNan) \<Rightarrow> FNan
   | (FInf s, FInf t) \<Rightarrow> (if s = t then FInf s else FNan)
   | (FInf s, _) \<Rightarrow> FInf s
   | (_, FInf t) \<Rightarrow> FInf t
   | (FFin s m e, FFin t n f) \<Rightarrow>
       (let e0 = min e f; v = fin_signed s m e e0 + fin_signed t n f e0 in
        if v = 0 then FFin (s \<and> t) 0 e0 else FFin (v < 0) (nat (abs v)) e0))"

definition flt_neg :: "flt \<Rightarrow> flt" where
  "flt_neg x = (case x of FNan \<Rightarrow> FNan | FInf s \<Rightarrow> FInf (\<not> s) | FFin s m e \<Rightarrow> FFin (\<not> s) m e)"

definition flt_mul :: "flt \<Rightarrow> flt \<Rightarrow> flt" where
  "flt_mul x y = (case (x, y) of
     (FNan, _) \<Rightarrow> FNan
   | (_, FNan) \<Rightarrow> FNan
   | (FInf s, FInf t) \<Rightarrow> FInf (s \<noteq> t)
   | (FInf s, FFin t n f) \<Rightarrow> (if n = 0 then FNan else FInf (s \<noteq> t))
   | (FFin s m e, FInf t) \<Rightarrow> (if m = 0 then FNan else FInf (s \<noteq> t))
   | (FFin s m e, FFin t n f) \<Rightarrow> FFin (s \<noteq> t) (m * n) (e + f))"

text \<open>A quotient is in general not of the form \<open>m * 2 ^ e\<close>, so division rounds at once.\<close>

definition fl_div :: "nat \<Rightarrow> nat \<Rightarrow> flt \<Rightarrow> flt \<Rightarrow> nat" where
  "fl_div p eb x y = (case (x, y) of
     (FNan, _) \<Rightarrow> fl_nan p eb
   | (_, FNan) \<Rightarrow> fl_nan p eb
   | (FInf s, FInf t) \<Rightarrow> fl_nan p eb
   | (FInf s, FFin t n f) \<Rightarrow> fl_pack p eb (s \<noteq> t) (fl_inf p eb)
   | (FFin s m e, FInf t) \<Rightarrow> fl_pack p eb (s \<noteq> t) 0
   | (FFin s m e, FFin t n f) \<Rightarrow>
       (if n = 0 then (if m = 0 then fl_nan p eb else fl_pack p eb (s \<noteq> t) (fl_inf p eb))
        else fl_pack p eb (s \<noteq> t)
          (fl_round p eb (scaled_num m e * scaled_den f) (scaled_den e * scaled_num n f))))"

definition flt_rem :: "flt \<Rightarrow> flt \<Rightarrow> flt" where
  "flt_rem x y = (case (x, y) of
     (FNan, _) \<Rightarrow> FNan
   | (_, FNan) \<Rightarrow> FNan
   | (FInf s, _) \<Rightarrow> FNan
   | (FFin s m e, FInf t) \<Rightarrow> FFin s m e
   | (FFin s m e, FFin t n f) \<Rightarrow>
       (if n = 0 then FNan
        else let e0 = min e f in
          FFin s ((m * 2 ^ nat (e - e0)) mod (n * 2 ^ nat (f - e0))) e0))"

definition flt_trunc :: "flt \<Rightarrow> int" where
  "flt_trunc x = (case x of
     FFin s m e \<Rightarrow> (if s then -1 else 1) * int (scaled_num m e div scaled_den e)
   | _ \<Rightarrow> 0)"

definition flt_of_int :: "int \<Rightarrow> flt" where
  "flt_of_int i = FFin (i < 0) (nat (abs i)) 0"

section \<open>The two widths\<close>

definition f32_decode :: "32 word \<Rightarrow> flt" where
  "f32_decode w = fl_decode 23 8 (unat w)"

definition f64_decode :: "64 word \<Rightarrow> flt" where
  "f64_decode w = fl_decode 52 11 (unat w)"

definition f32_encode :: "flt \<Rightarrow> 32 word" where
  "f32_encode x = of_nat (fl_encode 23 8 x)"

definition f64_encode :: "flt \<Rightarrow> 64 word" where
  "f64_encode x = of_nat (fl_encode 52 11 x)"

definition f32_add :: "32 word \<Rightarrow> 32 word \<Rightarrow> 32 word" where
  "f32_add a b = f32_encode (flt_add (f32_decode a) (f32_decode b))"

definition f32_sub :: "32 word \<Rightarrow> 32 word \<Rightarrow> 32 word" where
  "f32_sub a b = f32_encode (flt_add (f32_decode a) (flt_neg (f32_decode b)))"

definition f32_mul :: "32 word \<Rightarrow> 32 word \<Rightarrow> 32 word" where
  "f32_mul a b = f32_encode (flt_mul (f32_decode a) (f32_decode b))"

definition f32_rem :: "32 word \<Rightarrow> 32 word \<Rightarrow> 32 word" where
  "f32_rem a b = f32_encode (flt_rem (f32_decode a) (f32_decode b))"

definition f64_add :: "64 word \<Rightarrow> 64 word \<Rightarrow> 64 word" where
  "f64_add a b = f64_encode (flt_add (f64_decode a) (f64_decode b))"

definition f64_sub :: "64 word \<Rightarrow> 64 word \<Rightarrow> 64 word" where
  "f64_sub a b = f64_encode (flt_add (f64_decode a) (flt_neg (f64_decode b)))"

definition f64_mul :: "64 word \<Rightarrow> 64 word \<Rightarrow> 64 word" where
  "f64_mul a b = f64_encode (flt_mul (f64_decode a) (f64_decode b))"

definition f64_rem :: "64 word \<Rightarrow> 64 word \<Rightarrow> 64 word" where
  "f64_rem a b = f64_encode (flt_rem (f64_decode a) (f64_decode b))"

definition f64_div :: "64 word \<Rightarrow> 64 word \<Rightarrow> 64 word" where
  "f64_div a b = of_nat (fl_div 52 11 (f64_decode a) (f64_decode b))"

definition f32_neg :: "32 word \<Rightarrow> 32 word" where
  "f32_neg a = a XOR push_bit 31 1"

definition f64_neg :: "64 word \<Rightarrow> 64 word" where
  "f64_neg a = a XOR push_bit 63 1"

definition f32_to_f64 :: "32 word \<Rightarrow> 64 word" where
  "f32_to_f64 a = f64_encode (f32_decode a)"

definition f64_to_f32 :: "64 word \<Rightarrow> 32 word" where
  "f64_to_f32 a = f32_encode (f64_decode a)"

definition f32_of_int :: "int \<Rightarrow> 32 word" where
  "f32_of_int i = f32_encode (flt_of_int i)"

definition f64_of_int :: "int \<Rightarrow> 64 word" where
  "f64_of_int i = f64_encode (flt_of_int i)"

section \<open>Small integers are exact\<close>

lemma log2n_bounds: "0 < n \<Longrightarrow> 2 ^ log2n n \<le> n \<and> n < 2 ^ Suc (log2n n)"
proof (induction n rule: log2n.induct)
  case (1 n)
  show ?case
  proof (cases "n < 2")
    case False
    then have "2 ^ log2n (n div 2) \<le> n div 2" "n div 2 < 2 ^ Suc (log2n (n div 2))"
      using 1 by auto
    then show ?thesis using False by (subst (1 2) log2n.simps) (auto simp: less_eq_div_iff_mult_less_eq)
  qed (use 1 in \<open>auto simp: log2n.simps\<close>)
qed

lemma log2n_1 [simp]: "log2n 1 = 0" "log2n (Suc 0) = 0"
  by (simp_all add: log2n.simps)

lemma log2n_less:
  assumes "0 < n" "n < 2 ^ Suc p"
  shows "log2n n \<le> p"
proof (rule ccontr)
  assume "\<not> log2n n \<le> p"
  then have "(2 :: nat) ^ Suc p \<le> 2 ^ log2n n" by (intro power_increasing) auto
  then show False using log2n_bounds [OF assms(1)] assms(2) by linarith
qed

lemma ratio_exp_nat: "0 < n \<Longrightarrow> ratio_exp n 1 = int (log2n n)"
  using log2n_bounds [of n] by (simp add: ratio_exp_def)

lemma div_half_even_1 [simp]: "div_half_even n 1 = n" "div_half_even n (Suc 0) = n"
  by (simp_all add: div_half_even_def)

definition normal_mag :: "nat \<Rightarrow> nat \<Rightarrow> nat \<Rightarrow> nat" where
  "normal_mag p eb n = (log2n n + fl_bias eb) * 2 ^ p + (n * 2 ^ (p - log2n n) - 2 ^ p)"

lemma normal_significand:
  assumes "0 < n" "n < 2 ^ Suc p"
  shows "2 ^ p \<le> n * 2 ^ (p - log2n n)" "n * 2 ^ (p - log2n n) < 2 ^ Suc p"
proof -
  have k: "log2n n \<le> p" by (rule log2n_less [OF assms])
  have "2 ^ log2n n * 2 ^ (p - log2n n) \<le> n * 2 ^ (p - log2n n)"
    using log2n_bounds [OF assms(1)] by (intro mult_le_mono1) simp
  then show "2 ^ p \<le> n * 2 ^ (p - log2n n)" using k by (simp flip: power_add)
  have "n * 2 ^ (p - log2n n) < 2 ^ Suc (log2n n) * 2 ^ (p - log2n n)"
    using log2n_bounds [OF assms(1)] by (intro mult_strict_right_mono) simp_all
  also have "\<dots> = 2 ^ Suc p" using k by (simp flip: power_add)
  finally show "n * 2 ^ (p - log2n n) < 2 ^ Suc p" .
qed

lemma fl_round_exact:
  assumes "0 < n" "n < 2 ^ Suc p" "p + fl_bias eb + 1 < 2 ^ eb" "1 \<le> fl_bias eb"
  shows "fl_round p eb n 1 = normal_mag p eb n" "normal_mag p eb n div 2 ^ p = log2n n + fl_bias eb"
    "normal_mag p eb n mod 2 ^ p = n * 2 ^ (p - log2n n) - 2 ^ p"
proof -
  have k: "log2n n \<le> p" by (rule log2n_less [OF assms(1,2)])
  note sig = normal_significand [OF assms(1,2)]
  let ?f = "n * 2 ^ (p - log2n n) - 2 ^ p"
  have f: "?f < 2 ^ p" using sig by simp
  show "normal_mag p eb n div 2 ^ p = log2n n + fl_bias eb" "normal_mag p eb n mod 2 ^ p = ?f"
    using f by (simp_all add: normal_mag_def)
  have "normal_mag p eb n < (log2n n + fl_bias eb + 1) * 2 ^ p"
    using f by (simp add: normal_mag_def)
  also have "\<dots> \<le> fl_inf p eb"
    unfolding fl_inf_def using k assms(3) by (intro mult_le_mono1) linarith
  finally have inf: "normal_mag p eb n \<le> fl_inf p eb" by simp
  have q: "max (ratio_exp n 1) (1 - int (fl_bias eb)) = int (log2n n)"
    using ratio_exp_nat [OF assms(1)] assms(4) by simp
  have n: "(if 0 \<le> int (log2n n) - int p then div_half_even n (1 * 2 ^ nat (int (log2n n) - int p))
      else div_half_even (n * 2 ^ nat (- (int (log2n n) - int p))) 1) = n * 2 ^ (p - log2n n)"
    using k by (cases "log2n n = p") (simp_all add: nat_diff_distrib)
  show "fl_round p eb n 1 = normal_mag p eb n"
    unfolding fl_round_def Let_def q n using assms(1) sig inf by (simp add: normal_mag_def nat_add_distrib)
qed

lemma fl_decode_normal:
  assumes "0 < n" "n < 2 ^ Suc p" "p + fl_bias eb + 1 < 2 ^ eb" "1 \<le> fl_bias eb"
  shows "fl_decode p eb (fl_pack p eb s (normal_mag p eb n)) =
    FFin s (n * 2 ^ (p - log2n n)) (int (log2n n) - int p)"
proof -
  note ex = fl_round_exact [OF assms]
  have k: "log2n n \<le> p" by (rule log2n_less [OF assms(1,2)])
  define w where "w = fl_pack p eb s (normal_mag p eb n)"
  have pk: "w = (if s then 2 ^ eb else 0) * 2 ^ p + normal_mag p eb n"
    by (simp add: w_def fl_pack_def power_add)
  have d: "w div 2 ^ p = (if s then 2 ^ eb else 0) + (log2n n + fl_bias eb)"
    unfolding pk using ex(2) by simp
  have m: "w mod 2 ^ p = n * 2 ^ (p - log2n n) - 2 ^ p"
    unfolding pk using ex(3) by simp
  have lt: "log2n n + fl_bias eb \<noteq> 2 ^ eb - 1" "log2n n + fl_bias eb < 2 ^ eb" using k assms(3) by linarith+
  have e: "w div 2 ^ p mod 2 ^ eb = log2n n + fl_bias eb"
    unfolding d using lt(2) by simp
  have "(2 ^ eb + (log2n n + fl_bias eb)) div 2 ^ eb = (log2n n + fl_bias eb) div 2 ^ eb + 1"
    by (rule div_add_self1) simp
  then have sg: "w div 2 ^ (p + eb) = (if s then 1 else 0)"
    unfolding power_add div_mult2_eq d using lt(2) by simp
  have "n * 2 ^ (p - log2n n) - 2 ^ p + 2 ^ p = n * 2 ^ (p - log2n n)" "log2n n + fl_bias eb \<noteq> 0"
    using normal_significand [OF assms(1,2)] assms(4) by simp_all
  then show ?thesis
    unfolding w_def [symmetric] fl_decode_def Let_def m e sg using lt(1) by simp
qed

lemma flt_trunc_normal:
  assumes "0 < n" "n < 2 ^ Suc p"
  shows "flt_trunc (FFin s (n * 2 ^ (p - log2n n)) (int (log2n n) - int p)) = (if s then - int n else int n)"
proof -
  have "log2n n \<le> p" by (rule log2n_less [OF assms])
  then have "nat (int p - int (log2n n)) = p - log2n n" by simp
  then show ?thesis
    using \<open>log2n n \<le> p\<close> by (auto simp: flt_trunc_def scaled_num_def scaled_den_def)
qed

lemma normal_mag_less:
  assumes "0 < n" "n < 2 ^ Suc p" "p + fl_bias eb + 1 < 2 ^ eb" "1 \<le> fl_bias eb"
  shows "fl_pack p eb s (normal_mag p eb n) < 2 ^ Suc (p + eb)"
proof -
  have "normal_mag p eb n \<le> fl_inf p eb"
    using fl_round_exact(1) [OF assms] by (auto simp: fl_round_def Let_def split: if_splits)
  also have "fl_inf p eb < 2 ^ (p + eb)"
    by (simp add: fl_inf_def power_add)
  finally show ?thesis by (simp add: fl_pack_def)
qed

lemma f64_of_int_nonzero:
  assumes "i \<noteq> 0" "abs i < 2 ^ 53"
  shows "f64_decode (f64_of_int i) =
    FFin (i < 0) (nat (abs i) * 2 ^ (52 - log2n (nat (abs i)))) (int (log2n (nat (abs i))) - 52)"
proof -
  let ?n = "nat (abs i)"
  have n: "0 < ?n" "?n < 2 ^ Suc 52" and eb: "52 + fl_bias 11 + 1 < 2 ^ 11" "1 \<le> fl_bias 11"
    using assms by (auto simp: fl_bias_def nat_less_iff)
  have "fl_pack 52 11 (i < 0) (normal_mag 52 11 ?n) < 2 ^ 64"
    using normal_mag_less [OF n eb] by simp
  then show ?thesis
    using fl_decode_normal [OF n eb] fl_round_exact(1) [OF n eb]
    by (simp add: f64_decode_def f64_of_int_def f64_encode_def flt_of_int_def fl_encode_def scaled_num_def
        scaled_den_def unat_of_nat)
qed

lemma f64_of_int_0: "f64_decode (f64_of_int 0) = FFin False 0 (- 1074)"
  by (simp add: f64_decode_def f64_of_int_def f64_encode_def flt_of_int_def fl_encode_def scaled_num_def
      scaled_den_def fl_round_def fl_pack_def fl_decode_def fl_bias_def)

text \<open>An integer of magnitude below \<open>2 ^ 53\<close> is exact in \<open>f64\<close>: truncating its conversion gives it back.\<close>

lemma f64_of_int_exact:
  assumes "abs i < 2 ^ 53"
  shows "flt_trunc (f64_decode (f64_of_int i)) = i"
proof (cases "i = 0")
  case True
  then show ?thesis by (simp add: f64_of_int_0) (simp add: flt_trunc_def scaled_num_def)
next
  case False
  then have "0 < nat (abs i)" "nat (abs i) < 2 ^ Suc 52" using assms by (auto simp: nat_less_iff)
  from flt_trunc_normal [OF this, of "i < 0"] show ?thesis
    using f64_of_int_nonzero [OF False assms] by auto
qed

text \<open>Its bit pattern lies in the binades of the integers below \<open>2 ^ 53\<close>.\<close>

lemma f64_of_int_bits:
  assumes "0 < i" "i < 2 ^ 53"
  shows "1023 * 2 ^ 52 \<le> unat (f64_of_int i)" "unat (f64_of_int i) < 1076 * 2 ^ 52"
proof -
  let ?n = "nat i"
  have n: "0 < ?n" "?n < 2 ^ Suc 52" and eb: "52 + fl_bias 11 + 1 < 2 ^ 11" "1 \<le> fl_bias 11"
    using assms by (auto simp: fl_bias_def nat_less_iff)
  have mag: "normal_mag 52 11 ?n = (log2n ?n + 1023) * 2 ^ 52 + (?n * 2 ^ (52 - log2n ?n) - 2 ^ 52)"
    by (simp add: normal_mag_def fl_bias_def)
  have lt: "normal_mag 52 11 ?n < 1076 * 2 ^ 52"
    using mag normal_significand [OF n] log2n_less [OF n] by simp
  have "unat (f64_of_int i) = normal_mag 52 11 ?n"
    using fl_round_exact(1) [OF n eb] lt assms
    by (simp add: f64_of_int_def f64_encode_def flt_of_int_def fl_encode_def scaled_num_def scaled_den_def fl_pack_def
        unat_of_nat)
  then show "1023 * 2 ^ 52 \<le> unat (f64_of_int i)" "unat (f64_of_int i) < 1076 * 2 ^ 52"
    using lt mag by simp_all
qed

end
