(* ===== verification/Evaluator.thy ===== *)
theory Evaluator
  imports Value_Ops Ieee_Float
begin

text \<open>
  The typed operators of \<open>src/src/types/evaluator/\<close>: \<open>EvaluatorFactory\<close> picks an evaluator for a type and
  an operator, and the evaluators compute on two values with SQL's treatment of NULL. A branch that the
  code marks with \<open>hint::unreachable_unchecked\<close> is \<open>Err Undefined\<close>. The arithmetic of \<open>rust_decimal\<close>,
  regular expressions and chrono are the record \<open>eval_crates\<close>.
\<close>

section \<open>Functions of other crates\<close>

text \<open>
  \<open>None\<close> from a decimal operation is its panic on overflow or on a zero divisor, and from \<open>regex_is_match\<close>
  that the pattern does not compile. An instant of chrono's \<open>DateTime<Utc>\<close> has the type \<open>'t\<close>.
\<close>

record ('d, 't) eval_crates =
  dec_add :: "'d \<Rightarrow> 'd \<Rightarrow> 'd option"
  dec_sub :: "'d \<Rightarrow> 'd \<Rightarrow> 'd option"
  dec_mul :: "'d \<Rightarrow> 'd \<Rightarrow> 'd option"
  dec_div :: "'d \<Rightarrow> 'd \<Rightarrow> 'd option"
  dec_rem :: "'d \<Rightarrow> 'd \<Rightarrow> 'd option"
  regex_is_match :: "rstring \<Rightarrow> rstring \<Rightarrow> bool option"
  dt_from_timestamp :: "int \<Rightarrow> nat \<Rightarrow> 't option"
  dt_from_millis :: "int \<Rightarrow> 't option"
  dt_from_micros :: "int \<Rightarrow> 't option"
  dt_timestamp :: "'t \<Rightarrow> int"
  dt_millis :: "'t \<Rightarrow> int"
  dt_micros :: "'t \<Rightarrow> int"
  dt_nanos_opt :: "'t \<Rightarrow> int option"

section \<open>Operations of the numeric types\<close>

record ('w, 'd) num_ops =
  n_add :: "'w \<Rightarrow> 'w \<Rightarrow> 'w res"
  n_sub :: "'w \<Rightarrow> 'w \<Rightarrow> 'w res"
  n_mul :: "'w \<Rightarrow> 'w \<Rightarrow> 'w res"
  n_div :: "'w \<Rightarrow> 'w \<Rightarrow> 'd data_value res"
  n_rem :: "'w \<Rightarrow> 'w \<Rightarrow> 'w res"
  n_cmp :: "'w \<Rightarrow> 'w \<Rightarrow> ordering"
  n_eq :: "'w \<Rightarrow> 'w \<Rightarrow> bool"

text \<open>\<open>checked_add\<close>, \<open>checked_sub\<close> and \<open>checked_mul\<close> of the signed and unsigned integers.\<close>

definition checked_signed :: "(int \<Rightarrow> int \<Rightarrow> int) \<Rightarrow> 'a::len word \<Rightarrow> 'a word \<Rightarrow> 'a word option" where
  "checked_signed f a b =
    (let r = f (sint a) (sint b) in
     if - (2 ^ (LENGTH('a) - 1)) \<le> r \<and> r < 2 ^ (LENGTH('a) - 1) then Some (word_of_int r) else None)"

definition checked_unsigned :: "(int \<Rightarrow> int \<Rightarrow> int) \<Rightarrow> 'a::len word \<Rightarrow> 'a word \<Rightarrow> 'a word option" where
  "checked_unsigned f a b =
    (let r = f (uint a) (uint b) in if 0 \<le> r \<and> r < 2 ^ LENGTH('a) then Some (word_of_int r) else None)"

text \<open>The remainder has the sign of the dividend; a zero divisor and \<open>MIN % -1\<close> panic.\<close>

definition rem_signed :: "'a::len word \<Rightarrow> 'a word \<Rightarrow> 'a word res" where
  "rem_signed a b =
    (if b = 0 then Err Panic
     else if sint a = - (2 ^ (LENGTH('a) - 1)) \<and> sint b = -1 then Err Panic
     else Ok (word_of_int (sgn (sint a) * (abs (sint a) mod abs (sint b)))))"

definition rem_unsigned :: "'a::len word \<Rightarrow> 'a word \<Rightarrow> 'a word res" where
  "rem_unsigned a b = (if b = 0 then Err Panic else Ok (word_of_int (uint a mod uint b)))"

definition signed_ops :: "('a::len word, 'd) num_ops" where
  "signed_ops = \<lparr>
     n_add = (\<lambda>a b. of_option OverFlow (checked_signed (+) a b)),
     n_sub = (\<lambda>a b. of_option OverFlow (checked_signed (-) a b)),
     n_mul = (\<lambda>a b. of_option OverFlow (checked_signed (*) a b)),
     n_div = (\<lambda>a b. Ok (Float64 (f64_div (f64_of_int (sint a)) (f64_of_int (sint b))))),
     n_rem = rem_signed,
     n_cmp = (\<lambda>a b. cmp_of (sint a) (sint b)),
     n_eq = (\<lambda>a b. a = b) \<rparr>"

definition unsigned_ops :: "('a::len word, 'd) num_ops" where
  "unsigned_ops = \<lparr>
     n_add = (\<lambda>a b. of_option OverFlow (checked_unsigned (+) a b)),
     n_sub = (\<lambda>a b. of_option OverFlow (checked_unsigned (-) a b)),
     n_mul = (\<lambda>a b. of_option OverFlow (checked_unsigned (*) a b)),
     n_div = (\<lambda>a b. Ok (Float64 (f64_div (f64_of_int (uint a)) (f64_of_int (uint b))))),
     n_rem = rem_unsigned,
     n_cmp = (\<lambda>a b. cmp_of (uint a) (uint b)),
     n_eq = (\<lambda>a b. a = b) \<rparr>"

definition float32_ops :: "'d crates \<Rightarrow> (32 word, 'd) num_ops" where
  "float32_ops K = \<lparr>
     n_add = (\<lambda>a b. Ok (f32_add a b)), n_sub = (\<lambda>a b. Ok (f32_sub a b)), n_mul = (\<lambda>a b. Ok (f32_mul a b)),
     n_div = (\<lambda>a b. Ok (Float64 (f64_div (f32_to_f64 a) (f32_to_f64 b)))),
     n_rem = (\<lambda>a b. Ok (f32_rem a b)),
     n_cmp = of32_cmp K, n_eq = of32_eq K \<rparr>"

definition float64_ops :: "'d crates \<Rightarrow> (64 word, 'd) num_ops" where
  "float64_ops K = \<lparr>
     n_add = (\<lambda>a b. Ok (f64_add a b)), n_sub = (\<lambda>a b. Ok (f64_sub a b)), n_mul = (\<lambda>a b. Ok (f64_mul a b)),
     n_div = (\<lambda>a b. Ok (Float64 (f64_div a b))),
     n_rem = (\<lambda>a b. Ok (f64_rem a b)),
     n_cmp = of64_cmp K, n_eq = of64_eq K \<rparr>"

definition decimal_ops :: "'d crates \<Rightarrow> ('d, 't) eval_crates \<Rightarrow> ('d, 'd) num_ops" where
  "decimal_ops K E = \<lparr>
     n_add = (\<lambda>a b. of_option Panic (dec_add E a b)), n_sub = (\<lambda>a b. of_option Panic (dec_sub E a b)),
     n_mul = (\<lambda>a b. of_option Panic (dec_mul E a b)),
     n_div = (\<lambda>a b. map_res Decimal (of_option Panic (dec_div E a b))),
     n_rem = (\<lambda>a b. of_option Panic (dec_rem E a b)),
     n_cmp = dec_cmp K, n_eq = dec_eq K \<rparr>"

section \<open>The numeric evaluators\<close>

text \<open>The getters of \<open>generate_get_option!\<close>, which the model uses for the patterns of the macros.\<close>

definition get_i8 :: "'d data_value \<Rightarrow> 8 word option" where
  "get_i8 v = (case v of Int8 w \<Rightarrow> Some w | _ \<Rightarrow> None)"

definition get_i16 :: "'d data_value \<Rightarrow> 16 word option" where
  "get_i16 v = (case v of Int16 w \<Rightarrow> Some w | _ \<Rightarrow> None)"

definition get_i32 :: "'d data_value \<Rightarrow> 32 word option" where
  "get_i32 v = (case v of Int32 w \<Rightarrow> Some w | _ \<Rightarrow> None)"

definition get_i64 :: "'d data_value \<Rightarrow> 64 word option" where
  "get_i64 v = (case v of Int64 w \<Rightarrow> Some w | _ \<Rightarrow> None)"

definition get_u8 :: "'d data_value \<Rightarrow> 8 word option" where
  "get_u8 v = (case v of UInt8 w \<Rightarrow> Some w | _ \<Rightarrow> None)"

definition get_u16 :: "'d data_value \<Rightarrow> 16 word option" where
  "get_u16 v = (case v of UInt16 w \<Rightarrow> Some w | _ \<Rightarrow> None)"

definition get_u32 :: "'d data_value \<Rightarrow> 32 word option" where
  "get_u32 v = (case v of UInt32 w \<Rightarrow> Some w | _ \<Rightarrow> None)"

definition get_u64 :: "'d data_value \<Rightarrow> 64 word option" where
  "get_u64 v = (case v of UInt64 w \<Rightarrow> Some w | _ \<Rightarrow> None)"

definition get_decimal :: "'d data_value \<Rightarrow> 'd option" where
  "get_decimal v = (case v of Decimal d \<Rightarrow> Some d | _ \<Rightarrow> None)"

definition get_float :: "'d data_value \<Rightarrow> 32 word option" where
  "get_float v = (case v of Float32 w \<Rightarrow> Some w | _ \<Rightarrow> None)"

definition get_double :: "'d data_value \<Rightarrow> 64 word option" where
  "get_double v = (case v of Float64 w \<Rightarrow> Some w | _ \<Rightarrow> None)"

definition get_date32 :: "'d data_value \<Rightarrow> 32 word option" where
  "get_date32 v = (case v of Date32 w \<Rightarrow> Some w | _ \<Rightarrow> None)"

definition get_date64 :: "'d data_value \<Rightarrow> 64 word option" where
  "get_date64 v = (case v of Date64 w \<Rightarrow> Some w | _ \<Rightarrow> None)"

text \<open>
  The evaluators of \<open>numeric_binary_evaluator_definition!\<close> for one value type: the operation on two values
  of the type, NULL when one or both are NULL, and undefined on anything else.
\<close>

definition numeric_binary ::
  "('w \<Rightarrow> 'd data_value) \<Rightarrow> ('d data_value \<Rightarrow> 'w option) \<Rightarrow> ('w, 'd) num_ops \<Rightarrow> binary_operator \<Rightarrow>
   'd data_value \<Rightarrow> 'd data_value \<Rightarrow> 'd data_value res" where
  "numeric_binary C get N op left right =
    (case (get left, get right) of
       (Some v1, Some v2) \<Rightarrow>
         (case op of
            Plus \<Rightarrow> map_res C (n_add N v1 v2)
          | Minus \<Rightarrow> map_res C (n_sub N v1 v2)
          | Multiply \<Rightarrow> map_res C (n_mul N v1 v2)
          | Divide \<Rightarrow> n_div N v1 v2
          | Gt \<Rightarrow> Ok (Boolean (n_cmp N v1 v2 = Greater))
          | GtEq \<Rightarrow> Ok (Boolean (n_cmp N v1 v2 \<noteq> Less))
          | Lt \<Rightarrow> Ok (Boolean (n_cmp N v1 v2 = Less))
          | LtEq \<Rightarrow> Ok (Boolean (n_cmp N v1 v2 \<noteq> Greater))
          | OpEq \<Rightarrow> Ok (Boolean (n_eq N v1 v2))
          | NotEq \<Rightarrow> Ok (Boolean (\<not> n_eq N v1 v2))
          | Modulo \<Rightarrow> map_res C (n_rem N v1 v2)
          | _ \<Rightarrow> Err Undefined)
     | (l, r) \<Rightarrow>
         if (l \<noteq> None \<or> is_null left) \<and> (r \<noteq> None \<or> is_null right) then Ok Null else Err Undefined)"

definition neg_signed :: "'a::len word \<Rightarrow> 'a word res" where
  "neg_signed a = (if sint a = - (2 ^ (LENGTH('a) - 1)) then Err Panic else Ok (- a))"

definition numeric_unary ::
  "('w \<Rightarrow> 'd data_value) \<Rightarrow> ('d data_value \<Rightarrow> 'w option) \<Rightarrow> ('w \<Rightarrow> 'w res) \<Rightarrow> unary_operator \<Rightarrow>
   'd data_value \<Rightarrow> 'd data_value res" where
  "numeric_unary C get neg op v = (case op of
     UPlus \<Rightarrow> Ok v
   | UMinus \<Rightarrow>
       (case get v of
          Some w \<Rightarrow> map_res C (neg w)
        | None \<Rightarrow> if is_null v then Ok Null else Err Undefined)
   | UNot \<Rightarrow> Err Undefined)"

section \<open>The other evaluators\<close>

definition boolean_not :: "'d data_value \<Rightarrow> 'd data_value res" where
  "boolean_not v = (case v of Boolean b \<Rightarrow> Ok (Boolean (\<not> b)) | Null \<Rightarrow> Ok Null | _ \<Rightarrow> Err Undefined)"

definition boolean_and :: "'d data_value \<Rightarrow> 'd data_value \<Rightarrow> 'd data_value res" where
  "boolean_and left right = (case (left, right) of
     (Boolean v1, Boolean v2) \<Rightarrow> Ok (Boolean (v1 \<and> v2))
   | (Boolean v1, Null) \<Rightarrow> Ok (if v1 then Null else Boolean False)
   | (Null, Boolean v2) \<Rightarrow> Ok (if v2 then Null else Boolean False)
   | (Null, Null) \<Rightarrow> Ok Null
   | _ \<Rightarrow> Err Undefined)"

definition boolean_or :: "'d data_value \<Rightarrow> 'd data_value \<Rightarrow> 'd data_value res" where
  "boolean_or left right = (case (left, right) of
     (Boolean v1, Boolean v2) \<Rightarrow> Ok (Boolean (v1 \<or> v2))
   | (Boolean v1, Null) \<Rightarrow> Ok (if v1 then Boolean True else Null)
   | (Null, Boolean v2) \<Rightarrow> Ok (if v2 then Boolean True else Null)
   | (Null, Null) \<Rightarrow> Ok Null
   | _ \<Rightarrow> Err Undefined)"

definition boolean_eq :: "'d data_value \<Rightarrow> 'd data_value \<Rightarrow> 'd data_value res" where
  "boolean_eq left right = (case (left, right) of
     (Boolean v1, Boolean v2) \<Rightarrow> Ok (Boolean (v1 = v2))
   | (Boolean v1, Null) \<Rightarrow> Ok Null
   | (Null, Boolean v2) \<Rightarrow> Ok Null
   | (Null, Null) \<Rightarrow> Ok Null
   | _ \<Rightarrow> Err Undefined)"

definition boolean_not_eq :: "'d data_value \<Rightarrow> 'd data_value \<Rightarrow> 'd data_value res" where
  "boolean_not_eq left right = (case (left, right) of
     (Boolean v1, Boolean v2) \<Rightarrow> Ok (Boolean (v1 \<noteq> v2))
   | (Boolean v1, Null) \<Rightarrow> Ok Null
   | (Null, Boolean v2) \<Rightarrow> Ok Null
   | (Null, Null) \<Rightarrow> Ok Null
   | _ \<Rightarrow> Err Undefined)"

text \<open>Strings compare as their bytes do; \<open>ord_op\<close> is the test of an operator on the outcome.\<close>

definition ord_op :: "binary_operator \<Rightarrow> ordering \<Rightarrow> bool res" where
  "ord_op op c = (case op of
     Gt \<Rightarrow> Ok (c = Greater) | GtEq \<Rightarrow> Ok (c \<noteq> Less) | Lt \<Rightarrow> Ok (c = Less) | LtEq \<Rightarrow> Ok (c \<noteq> Greater)
   | OpEq \<Rightarrow> Ok (c = Equal) | NotEq \<Rightarrow> Ok (c \<noteq> Equal) | _ \<Rightarrow> Err Undefined)"

text \<open>
  \<open>string_like\<close> builds a regular expression: the wildcards become \<open>.*\<close> and \<open>.\<close>, an escaped character and
  every other character are copied as they are. Characters are their UTF-8 encodings.
\<close>

definition char_bytes :: "32 word \<Rightarrow> bytes" where
  "char_bytes c =
    (let n = unat c in
     if n < 128 then [of_nat n]
     else if n < 2048 then [of_nat (192 + n div 64), of_nat (128 + n mod 64)]
     else if n < 65536 then [of_nat (224 + n div 4096), of_nat (128 + n div 64 mod 64), of_nat (128 + n mod 64)]
     else [of_nat (240 + n div 262144), of_nat (128 + n div 4096 mod 64), of_nat (128 + n div 64 mod 64),
           of_nat (128 + n mod 64)])"

fun like_pattern :: "bytes option \<Rightarrow> bytes list \<Rightarrow> bytes" where
  "like_pattern esc [] = []"
| "like_pattern esc [c] =
    (if esc = Some c then []
     else if c = [0x25] then [0x2E, 0x2A]
     else if c = [0x5F] then [0x2E]
     else c)"
| "like_pattern esc (c # next # cs) =
    (if esc = Some c then next @ like_pattern esc cs
     else (if c = [0x25] then [0x2E, 0x2A] else if c = [0x5F] then [0x2E] else c) @ like_pattern esc (next # cs))"

definition string_like :: "('d, 't) eval_crates \<Rightarrow> rstring \<Rightarrow> rstring \<Rightarrow> 32 word option \<Rightarrow> bool res" where
  "string_like E val pattern escape_char =
    of_option Panic (regex_is_match E (like_pattern (map_option char_bytes escape_char) (utf8_chars pattern)) val)"

definition utf8_op ::
  "('d, 't) eval_crates \<Rightarrow> binary_operator \<Rightarrow> rstring \<Rightarrow> rstring \<Rightarrow> 'd data_value res" where
  "utf8_op E op v1 v2 = (case op of
     StringConcat \<Rightarrow> Ok (Utf8 (v1 @ v2) (Variable None) Characters)
   | Like escape_char \<Rightarrow> map_res Boolean (string_like E v1 v2 escape_char)
   | NotLike escape_char \<Rightarrow> map_res (\<lambda>b. Boolean (\<not> b)) (string_like E v1 v2 escape_char)
   | _ \<Rightarrow> map_res Boolean (ord_op op (cmp_of v1 v2)))"

definition utf8_binary ::
  "('d, 't) eval_crates \<Rightarrow> binary_operator \<Rightarrow> 'd data_value \<Rightarrow> 'd data_value \<Rightarrow> 'd data_value res" where
  "utf8_binary E op left right = (case (left, right) of
     (Utf8 v1 _ _, Utf8 v2 _ _) \<Rightarrow> utf8_op E op v1 v2
   | (Utf8 _ _ _, Null) \<Rightarrow> Ok Null
   | (Null, Utf8 _ _ _) \<Rightarrow> Ok Null
   | (Null, Null) \<Rightarrow> Ok Null
   | _ \<Rightarrow> Err Undefined)"

fun tuple_cmp :: "'d crates \<Rightarrow> 'd data_value list \<Rightarrow> bool \<Rightarrow> 'd data_value list \<Rightarrow> bool \<Rightarrow> ordering option" where
  "tuple_cmp K (v1 # vs1) u1 (v2 # vs2) u2 =
    (case partial_cmp K v1 v2 of
       None \<Rightarrow> None
     | Some Equal \<Rightarrow> tuple_cmp K vs1 u1 vs2 u2
     | Some c \<Rightarrow> Some c)"
| "tuple_cmp K (_ # _) u1 [] u2 = Some (if u2 then Less else Greater)"
| "tuple_cmp K [] u1 (_ # _) u2 = Some (if u1 then Greater else Less)"
| "tuple_cmp K [] u1 [] u2 = Some Equal"

definition tuple_binary ::
  "'d crates \<Rightarrow> binary_operator \<Rightarrow> 'd data_value \<Rightarrow> 'd data_value \<Rightarrow> 'd data_value res" where
  "tuple_binary K op left right = (case (left, right) of
     (Tuple v1 is_upper1, Tuple v2 is_upper2) \<Rightarrow>
       (case op of
          OpEq \<Rightarrow> Ok (Boolean (values_eq K v1 v2))
        | NotEq \<Rightarrow> Ok (Boolean (\<not> values_eq K v1 v2))
        | _ \<Rightarrow>
            (case tuple_cmp K v1 is_upper1 v2 is_upper2 of
               None \<Rightarrow> Ok Null
             | Some c \<Rightarrow> map_res Boolean (ord_op op c)))
   | (Null, Boolean _) \<Rightarrow> Ok Null
   | (Boolean _, Null) \<Rightarrow> Ok Null
   | (Null, Null) \<Rightarrow> Ok Null
   | _ \<Rightarrow> Err Undefined)"

section \<open>Times and timestamps\<close>

text \<open>The loop that carries whole seconds out of the nanoseconds, with \<open>u32\<close> arithmetic.\<close>

definition u32_add :: "32 word \<Rightarrow> 32 word \<Rightarrow> 32 word res" where
  "u32_add a b = of_option Panic (checked_unsigned (+) a b)"

definition u32_sub :: "32 word \<Rightarrow> 32 word \<Rightarrow> 32 word res" where
  "u32_sub a b = of_option Panic (checked_unsigned (-) a b)"

definition nano_sec :: "32 word" where
  "nano_sec = of_nat ONE_SEC_TO_NANO"

function carry_loop :: "32 word \<Rightarrow> 32 word \<Rightarrow> (32 word \<times> 32 word) res" where
  "carry_loop v n =
    (if nano_sec < n then res_bind (u32_add v 1) (\<lambda>v. carry_loop v (n - nano_sec)) else Ok (v, n))"
  by auto

lemma nano_sec_pos: "0 < unat nano_sec" "unat nano_sec = 1000000000"
  by (simp_all add: nano_sec_def ONE_SEC_TO_NANO_def)

termination carry_loop
proof (relation "measure (\<lambda>(v, n). unat n)", simp, goal_cases)
  case (1 v n x)
  then have "nano_sec \<le> n" by simp
  then show ?case using nano_sec_pos by (simp add: unat_sub unat_gt_0 word_le_nat_alt)
qed

declare carry_loop.simps [simp del]

definition time_plus ::
  "32 word \<Rightarrow> 64 word \<Rightarrow> 32 word \<Rightarrow> 64 word \<Rightarrow> 'd data_value res" where
  "time_plus w1 p1 w2 p2 =
    res_bind (unpack w1 p1) (\<lambda>(v1, n1).
    res_bind (unpack w2 p2) (\<lambda>(v2, n2).
    res_bind (u32_add n1 n2) (\<lambda>n.
    res_bind (carry_loop v1 n) (\<lambda>(v1, n).
    res_bind (u32_add v1 v2) (\<lambda>v.
    let p = (if p1 < p2 then p2 else p1) in
    if ONE_DAY_TO_SEC < unat v then Ok Null
    else map_res (\<lambda>w. Time32 w p) (pack v n p))))))"

text \<open>The loop that borrows whole seconds until the nanoseconds can be subtracted.\<close>

function borrow_loop :: "32 word \<Rightarrow> 32 word \<Rightarrow> 32 word \<Rightarrow> (32 word \<times> 32 word) res" where
  "borrow_loop v1 n1 n2 =
    (if n1 < n2 then
       res_bind (u32_sub v1 1) (\<lambda>v.
       if 2 ^ 32 \<le> unat n1 + unat nano_sec then Err Panic
       else borrow_loop v (n1 + nano_sec) n2)
     else Ok (v1, n1))"
  by auto

termination borrow_loop
proof (relation "measure (\<lambda>(v, n1, n2). unat n2 - unat n1)", simp, goal_cases)
  case (1 v1 n1 n2 x)
  then have "unat (n1 + nano_sec) = unat n1 + unat nano_sec"
    by (intro unat_add_lem [THEN iffD1]) simp
  then show ?case using 1 nano_sec_pos by (simp add: word_less_nat_alt)
qed

declare borrow_loop.simps [simp del]

definition time_minus ::
  "32 word \<Rightarrow> 64 word \<Rightarrow> 32 word \<Rightarrow> 64 word \<Rightarrow> 'd data_value res" where
  "time_minus w1 p1 w2 p2 =
    res_bind (unpack w1 p1) (\<lambda>(v1, n1).
    res_bind (unpack w2 p2) (\<lambda>(v2, n2).
    res_bind (borrow_loop v1 n1 n2) (\<lambda>(v1, n1).
    if v1 < v2 then Ok Null
    else let p = (if p1 < p2 then p2 else p1) in
      map_res (\<lambda>w. Time32 w p) (pack (v1 - v2) (n1 - n2) p))))"

definition time_compare :: "32 word \<Rightarrow> 64 word \<Rightarrow> 32 word \<Rightarrow> 64 word \<Rightarrow> ordering res" where
  "time_compare w1 p1 w2 p2 =
    res_bind (unpack w1 p1) (\<lambda>(v1, n1).
    res_bind (unpack w2 p2) (\<lambda>(v2, n2). Ok (then_ord (cmp_of v1 v2) (cmp_of n1 n2))))"

definition time_binary :: "binary_operator \<Rightarrow> 'd data_value \<Rightarrow> 'd data_value \<Rightarrow> 'd data_value res" where
  "time_binary op left right = (case (left, right) of
     (Time32 w1 p1, Time32 w2 p2) \<Rightarrow>
       (case op of
          Plus \<Rightarrow> time_plus w1 p1 w2 p2
        | Minus \<Rightarrow> time_minus w1 p1 w2 p2
        | _ \<Rightarrow> res_bind (time_compare w1 p1 w2 p2) (\<lambda>c. map_res Boolean (ord_op op c)))
   | (Time32 _ _, Null) \<Rightarrow> Ok Null
   | (Null, Time32 _ _) \<Rightarrow> Ok Null
   | (Null, Null) \<Rightarrow> Ok Null
   | _ \<Rightarrow> Err Undefined)"

definition from_timestamp_precision :: "('d, 't) eval_crates \<Rightarrow> 64 word \<Rightarrow> 64 word \<Rightarrow> 't option res" where
  "from_timestamp_precision E v precision =
    (let i = sint v in
     if precision = 0 then Ok (dt_from_timestamp E i 0)
     else if precision = 3 then Ok (dt_from_millis E i)
     else if precision = 6 then Ok (dt_from_micros E i)
     else if precision = 9 then
       Ok (dt_from_timestamp E (i div int ONE_SEC_TO_NANO) (nat (i mod int ONE_SEC_TO_NANO)))
     else Err Panic)"

definition timestamp_precision :: "('d, 't) eval_crates \<Rightarrow> 't \<Rightarrow> 64 word \<Rightarrow> int res" where
  "timestamp_precision E t precision =
    (if precision = 3 then Ok (dt_millis E t)
     else if precision = 6 then Ok (dt_micros E t)
     else if precision = 9 then Ok (case dt_nanos_opt E t of Some n \<Rightarrow> n | None \<Rightarrow> 0)
     else if precision = 0 then Ok (dt_timestamp E t)
     else Err Panic)"

definition time64_compare ::
  "('d, 't) eval_crates \<Rightarrow> 64 word \<Rightarrow> 64 word \<Rightarrow> 64 word \<Rightarrow> 64 word \<Rightarrow> ordering option res" where
  "time64_compare E v1 p1 v2 p2 =
    res_bind (from_timestamp_precision E v1 p1) (\<lambda>t1.
    res_bind (from_timestamp_precision E v2 p2) (\<lambda>t2.
    case (t1, t2) of
      (Some t1, Some t2) \<Rightarrow>
        (let p = (if p1 < p2 then p2 else p1) in
         res_bind (timestamp_precision E t1 p) (\<lambda>i1.
         res_bind (timestamp_precision E t2 p) (\<lambda>i2. Ok (Some (cmp_of i1 i2)))))
    | _ \<Rightarrow> Ok None))"

definition time64_binary ::
  "('d, 't) eval_crates \<Rightarrow> binary_operator \<Rightarrow> 'd data_value \<Rightarrow> 'd data_value \<Rightarrow> 'd data_value res" where
  "time64_binary E op left right = (case (left, right) of
     (Time64 v1 p1 _, Time64 v2 p2 _) \<Rightarrow>
       res_bind (time64_compare E v1 p1 v2 p2) (\<lambda>c.
         case c of None \<Rightarrow> Ok Null | Some c \<Rightarrow> map_res Boolean (ord_op op c))
   | (Time64 _ _ _, Null) \<Rightarrow> Ok Null
   | (Null, Time64 _ _ _) \<Rightarrow> Ok Null
   | (Null, Null) \<Rightarrow> Ok Null
   | _ \<Rightarrow> Err Undefined)"

section \<open>The factory\<close>

datatype num_type =
    NInt8 | NInt16 | NInt32 | NInt64 | NUInt8 | NUInt16 | NUInt32 | NUInt64
  | NFloat32 | NFloat64 | NDate | NDateTime | NDecimal

text \<open>The evaluator structs; each names its operator.\<close>

datatype binary_evaluator =
    NumericEvaluator num_type binary_operator
  | TimeEvaluator binary_operator
  | Time64Evaluator binary_operator
  | BooleanEvaluator binary_operator
  | Utf8Evaluator binary_operator
  | TupleEvaluator binary_operator
  | NullEvaluator

datatype unary_evaluator =
    NumericUnary num_type unary_operator
  | BooleanNotUnary

definition numeric_op :: "binary_operator \<Rightarrow> bool" where
  "numeric_op op \<longleftrightarrow> op \<in> {Plus, Minus, Multiply, Divide, Gt, GtEq, Lt, LtEq, OpEq, NotEq, Modulo}"

definition numeric_binary_evaluator :: "num_type \<Rightarrow> binary_operator \<Rightarrow> logical_type \<Rightarrow> binary_evaluator res" where
  "numeric_binary_evaluator t op ty =
    (if numeric_op op then Ok (NumericEvaluator t op) else Err (UnsupportedBinaryOperator ty op))"

definition numeric_unary_evaluator :: "num_type \<Rightarrow> unary_operator \<Rightarrow> logical_type \<Rightarrow> unary_evaluator res" where
  "numeric_unary_evaluator t op ty =
    (if op \<in> {UPlus, UMinus} then Ok (NumericUnary t op) else Err (UnsupportedUnaryOperator ty op))"

definition unary_create :: "logical_type \<Rightarrow> unary_operator \<Rightarrow> unary_evaluator res" where
  "unary_create ty op = (case ty of
     Tinyint \<Rightarrow> numeric_unary_evaluator NInt8 op Tinyint
   | Smallint \<Rightarrow> numeric_unary_evaluator NInt16 op Smallint
   | Integer \<Rightarrow> numeric_unary_evaluator NInt32 op Integer
   | Bigint \<Rightarrow> numeric_unary_evaluator NInt64 op Bigint
   | BooleanT \<Rightarrow> if op = UNot then Ok BooleanNotUnary else Err (UnsupportedUnaryOperator ty op)
   | FloatT \<Rightarrow> numeric_unary_evaluator NFloat32 op FloatT
   | DoubleT \<Rightarrow> numeric_unary_evaluator NFloat64 op DoubleT
   | _ \<Rightarrow> Err (UnsupportedUnaryOperator ty op))"

definition only_ops ::
  "binary_operator set \<Rightarrow> (binary_operator \<Rightarrow> binary_evaluator) \<Rightarrow> logical_type \<Rightarrow> binary_operator \<Rightarrow>
   binary_evaluator res" where
  "only_ops ops C ty op = (if op \<in> ops then Ok (C op) else Err (UnsupportedBinaryOperator ty op))"

definition utf8_supported :: "binary_operator \<Rightarrow> bool" where
  "utf8_supported op = (case op of
     Gt \<Rightarrow> True | Lt \<Rightarrow> True | GtEq \<Rightarrow> True | LtEq \<Rightarrow> True | OpEq \<Rightarrow> True | NotEq \<Rightarrow> True
   | StringConcat \<Rightarrow> True | Like _ \<Rightarrow> True | NotLike _ \<Rightarrow> True | _ \<Rightarrow> False)"

definition binary_create :: "logical_type \<Rightarrow> binary_operator \<Rightarrow> binary_evaluator res" where
  "binary_create ty op = (case ty of
     Tinyint \<Rightarrow> numeric_binary_evaluator NInt8 op Tinyint
   | Smallint \<Rightarrow> numeric_binary_evaluator NInt16 op Smallint
   | Integer \<Rightarrow> numeric_binary_evaluator NInt32 op Integer
   | Bigint \<Rightarrow> numeric_binary_evaluator NInt64 op Bigint
   | UTinyint \<Rightarrow> numeric_binary_evaluator NUInt8 op UTinyint
   | USmallint \<Rightarrow> numeric_binary_evaluator NUInt16 op USmallint
   | UInteger \<Rightarrow> numeric_binary_evaluator NUInt32 op UInteger
   | UBigint \<Rightarrow> numeric_binary_evaluator NUInt64 op UBigint
   | FloatT \<Rightarrow> numeric_binary_evaluator NFloat32 op FloatT
   | DoubleT \<Rightarrow> numeric_binary_evaluator NFloat64 op DoubleT
   | DateT \<Rightarrow> numeric_binary_evaluator NDate op DateT
   | DateTimeT \<Rightarrow> numeric_binary_evaluator NDateTime op DateTimeT
   | TimeT _ \<Rightarrow> only_ops {Plus, Minus, Gt, GtEq, Lt, LtEq, OpEq, NotEq} TimeEvaluator ty op
   | TimeStampT _ _ \<Rightarrow> only_ops {Gt, GtEq, Lt, LtEq, OpEq, NotEq} Time64Evaluator ty op
   | DecimalT _ _ \<Rightarrow> numeric_binary_evaluator NDecimal op ty
   | BooleanT \<Rightarrow> only_ops {And, Or, OpEq, NotEq} BooleanEvaluator ty op
   | Varchar _ _ \<Rightarrow> if utf8_supported op then Ok (Utf8Evaluator op) else Err (UnsupportedBinaryOperator ty op)
   | CharT _ _ \<Rightarrow> if utf8_supported op then Ok (Utf8Evaluator op) else Err (UnsupportedBinaryOperator ty op)
   | SqlNull \<Rightarrow> Ok NullEvaluator
   | TupleT _ \<Rightarrow> only_ops {OpEq, NotEq, Gt, GtEq, Lt, LtEq} TupleEvaluator ty op)"

definition numeric_eval ::
  "'d crates \<Rightarrow> ('d, 't) eval_crates \<Rightarrow> num_type \<Rightarrow> binary_operator \<Rightarrow> 'd data_value \<Rightarrow> 'd data_value \<Rightarrow>
   'd data_value res" where
  "numeric_eval K E t = (case t of
     NInt8 \<Rightarrow> numeric_binary Int8 get_i8 signed_ops
   | NInt16 \<Rightarrow> numeric_binary Int16 get_i16 signed_ops
   | NInt32 \<Rightarrow> numeric_binary Int32 get_i32 signed_ops
   | NInt64 \<Rightarrow> numeric_binary Int64 get_i64 signed_ops
   | NUInt8 \<Rightarrow> numeric_binary UInt8 get_u8 unsigned_ops
   | NUInt16 \<Rightarrow> numeric_binary UInt16 get_u16 unsigned_ops
   | NUInt32 \<Rightarrow> numeric_binary UInt32 get_u32 unsigned_ops
   | NUInt64 \<Rightarrow> numeric_binary UInt64 get_u64 unsigned_ops
   | NFloat32 \<Rightarrow> numeric_binary Float32 get_float (float32_ops K)
   | NFloat64 \<Rightarrow> numeric_binary Float64 get_double (float64_ops K)
   | NDate \<Rightarrow> numeric_binary Date32 get_date32 signed_ops
   | NDateTime \<Rightarrow> numeric_binary Date64 get_date64 signed_ops
   | NDecimal \<Rightarrow> numeric_binary Decimal get_decimal (decimal_ops K E))"

definition binary_eval ::
  "'d crates \<Rightarrow> ('d, 't) eval_crates \<Rightarrow> binary_evaluator \<Rightarrow> 'd data_value \<Rightarrow> 'd data_value \<Rightarrow> 'd data_value res" where
  "binary_eval K E ev left right = (case ev of
     NumericEvaluator t op \<Rightarrow> numeric_eval K E t op left right
   | TimeEvaluator op \<Rightarrow> time_binary op left right
   | Time64Evaluator op \<Rightarrow> time64_binary E op left right
   | BooleanEvaluator op \<Rightarrow>
       (case op of
          And \<Rightarrow> boolean_and left right
        | Or \<Rightarrow> boolean_or left right
        | OpEq \<Rightarrow> boolean_eq left right
        | NotEq \<Rightarrow> boolean_not_eq left right
        | _ \<Rightarrow> Err Undefined)
   | Utf8Evaluator op \<Rightarrow> utf8_binary E op left right
   | TupleEvaluator op \<Rightarrow> tuple_binary K op left right
   | NullEvaluator \<Rightarrow> Ok Null)"

definition unary_eval :: "unary_evaluator \<Rightarrow> 'd data_value \<Rightarrow> 'd data_value res" where
  "unary_eval ev v = (case ev of
     NumericUnary t op \<Rightarrow>
       (case t of
          NInt8 \<Rightarrow> numeric_unary Int8 get_i8 neg_signed op v
        | NInt16 \<Rightarrow> numeric_unary Int16 get_i16 neg_signed op v
        | NInt32 \<Rightarrow> numeric_unary Int32 get_i32 neg_signed op v
        | NInt64 \<Rightarrow> numeric_unary Int64 get_i64 neg_signed op v
        | NFloat32 \<Rightarrow> numeric_unary Float32 get_float (\<lambda>w. Ok (f32_neg w)) op v
        | NFloat64 \<Rightarrow> numeric_unary Float64 get_double (\<lambda>w. Ok (f64_neg w)) op v
        | _ \<Rightarrow> Err Undefined)
   | BooleanNotUnary \<Rightarrow> boolean_not v)"

section \<open>Comparisons\<close>

text \<open>The tag of the values of a type.\<close>

definition type_tag :: "logical_type \<Rightarrow> nat" where
  "type_tag ty = (case ty of
     SqlNull \<Rightarrow> 0 | BooleanT \<Rightarrow> 1 | FloatT \<Rightarrow> 2 | DoubleT \<Rightarrow> 3
   | Tinyint \<Rightarrow> 4 | Smallint \<Rightarrow> 5 | Integer \<Rightarrow> 6 | Bigint \<Rightarrow> 7
   | UTinyint \<Rightarrow> 8 | USmallint \<Rightarrow> 9 | UInteger \<Rightarrow> 10 | UBigint \<Rightarrow> 11
   | CharT _ _ \<Rightarrow> 12 | Varchar _ _ \<Rightarrow> 12 | DateT \<Rightarrow> 13 | DateTimeT \<Rightarrow> 14
   | TimeT _ \<Rightarrow> 15 | TimeStampT _ _ \<Rightarrow> 16 | DecimalT _ _ \<Rightarrow> 17 | TupleT _ \<Rightarrow> 18)"

lemmas getters = get_i8_def get_i16_def get_i32_def get_i64_def get_u8_def get_u16_def get_u32_def get_u64_def
  get_decimal_def get_float_def get_double_def get_date32_def get_date64_def

lemmas num_ops_defs = signed_ops_def unsigned_ops_def float32_ops_def float64_ops_def decimal_ops_def

lemma logical_type_tag: "type_tag (logical_type v) = value_tag v"
  by (cases v) (simp_all add: type_tag_def split: utf8_type.split)

definition comparison :: "binary_operator \<Rightarrow> bool" where
  "comparison op \<longleftrightarrow> op \<in> {Gt, GtEq, Lt, LtEq, OpEq, NotEq}"

text \<open>Types whose values the evaluators compare as \<open>partial_cmp\<close> does.\<close>

definition plainly_ordered :: "logical_type \<Rightarrow> bool" where
  "plainly_ordered ty \<longleftrightarrow> type_tag ty \<in> {2, 3, 4, 5, 6, 7, 8, 9, 10, 11, 12, 13, 14, 17}"

lemma comparison_cases:
  assumes "comparison op"
  obtains "op = Gt" | "op = GtEq" | "op = Lt" | "op = LtEq" | "op = OpEq" | "op = NotEq"
  using assms by (auto simp: comparison_def)

lemma numeric_binary_compare:
  assumes "comparison op" "get l = Some v1" "get r = Some v2" "n_eq N v1 v2 \<longleftrightarrow> n_cmp N v1 v2 = Equal"
  shows "numeric_binary C get N op l r = map_res Boolean (ord_op op (n_cmp N v1 v2))"
  using assms(1) by (cases rule: comparison_cases) (simp_all add: numeric_binary_def ord_op_def assms(2-4))

definition tag_evaluator :: "nat \<Rightarrow> binary_operator \<Rightarrow> binary_evaluator" where
  "tag_evaluator t op =
    (if t = 12 then Utf8Evaluator op
     else NumericEvaluator
       (if t = 2 then NFloat32 else if t = 3 then NFloat64 else if t = 4 then NInt8 else if t = 5 then NInt16
        else if t = 6 then NInt32 else if t = 7 then NInt64 else if t = 8 then NUInt8 else if t = 9 then NUInt16
        else if t = 10 then NUInt32 else if t = 11 then NUInt64 else if t = 13 then NDate
        else if t = 14 then NDateTime else NDecimal) op)"

lemma binary_create_plain:
  assumes "plainly_ordered ty" "comparison op"
  shows "binary_create ty op = Ok (tag_evaluator (type_tag ty) op)"
  using assms
  by (cases ty; elim comparison_cases)
    (simp_all add: binary_create_def numeric_binary_evaluator_def numeric_op_def utf8_supported_def tag_evaluator_def
      type_tag_def plainly_ordered_def)

lemma utf8_op_compare: "comparison op \<Longrightarrow> utf8_op E op v1 v2 = map_res Boolean (ord_op op (cmp_of v1 v2))"
  by (elim comparison_cases) (simp_all add: utf8_op_def)

lemma tag_evaluator_compare:
  assumes "decimal_laws K" "ordered_float_laws K" "comparison op" "value_tag l = value_tag r"
    and "value_tag l \<in> {2, 3, 4, 5, 6, 7, 8, 9, 10, 11, 12, 13, 14, 17}"
  shows "\<exists>c. partial_cmp K l r = Some c \<and>
    binary_eval K E (tag_evaluator (value_tag l) op) l r = map_res Boolean (ord_op op c)"
proof -
  note [simp] = tag_evaluator_def binary_eval_def numeric_eval_def getters num_ops_defs utf8_binary_def
    utf8_op_compare [OF assms(3)] scmp_def cmp_of_uint [symmetric] of_eq_key [OF assms(2)]
    dec_eq_key [OF assms(1)] of32_cmp_key [OF assms(2)] dec_cmp_key [OF assms(1)]
  from assms(4,5) show ?thesis
    by (cases l; cases r) (simp_all add: numeric_binary_compare [OF assms(3)] word_uint_eq_iff sint_eq_iff)
qed


definition sample_eval :: "(64 word, int) eval_crates" where
  "sample_eval = \<lparr>
     dec_add = (\<lambda>a b. Some (a + b)), dec_sub = (\<lambda>a b. Some (a - b)), dec_mul = (\<lambda>a b. Some (a * b)),
     dec_div = (\<lambda>a b. if b = 0 then None else Some (a div b)), dec_rem = (\<lambda>a b. if b = 0 then None else Some (a mod b)),
     regex_is_match = (\<lambda>p s. Some (p = s)),
     dt_from_timestamp = (\<lambda>s n. Some (s * 1000000000 + int n)),
     dt_from_millis = (\<lambda>i. Some (i * 1000000)),
     dt_from_micros = (\<lambda>i. Some (i * 1000)),
     dt_timestamp = (\<lambda>t. t div 1000000000),
     dt_millis = (\<lambda>t. t div 1000000),
     dt_micros = (\<lambda>t. t div 1000),
     dt_nanos_opt = (\<lambda>t. Some t) \<rparr>"


section \<open>Well-typed operands\<close>

definition defined :: "'a res \<Rightarrow> bool" where
  "defined r \<longleftrightarrow> r \<noteq> Err Undefined"

lemma defined_simps [simp]:
  "defined (Ok x)" "defined (Err e) \<longleftrightarrow> e \<noteq> Undefined" "defined (map_res f r) \<longleftrightarrow> defined r"
  "e \<noteq> Undefined \<Longrightarrow> defined (of_option e y)"
  by (auto simp: defined_def of_option_def split: option.split) (cases r; simp)+

lemma defined_bind: "defined r \<Longrightarrow> (\<And>x. r = Ok x \<Longrightarrow> defined (f x)) \<Longrightarrow> defined (res_bind r f)"
  by (cases r) auto

lemma rem_defined [simp]: "defined (rem_signed a b)" "defined (rem_unsigned a b)"
  by (simp_all add: rem_signed_def rem_unsigned_def)

lemma time_parts_defined [simp]:
  "defined (unpack w p)" "defined (pack a b p)" "defined (u32_add x y)" "defined (u32_sub x y)"
proof -
  have "defined (nano_unit p)" by (simp add: nano_unit_def Let_def)
  then show "defined (unpack w p)" "defined (pack a b p)"
    by (auto simp: unpack_def pack_def Let_def intro!: defined_bind)
qed (simp_all add: u32_add_def u32_sub_def)

lemma carry_loop_defined [simp]: "defined (carry_loop v n)"
proof (induction v n rule: carry_loop.induct)
  case (1 v n)
  then show ?case by (subst carry_loop.simps) (auto intro!: defined_bind)
qed

lemma borrow_loop_defined [simp]: "defined (borrow_loop v n m)"
proof (induction v n m rule: borrow_loop.induct)
  case (1 v n m)
  then show ?case by (subst borrow_loop.simps) (auto intro!: defined_bind)
qed

lemma ord_op_defined: "comparison op \<Longrightarrow> defined (ord_op op c)"
  by (elim comparison_cases) (simp_all add: ord_op_def)

lemma time_op_defined:
  "defined (time_plus w p w' p')" "defined (time_minus w p w' p')" "defined (time_compare w p w' p')"
  "defined (time64_compare E v p v' p')"
  by (auto simp: time_plus_def time_minus_def time_compare_def time64_compare_def Let_def
      from_timestamp_precision_def timestamp_precision_def intro!: defined_bind split: prod.split option.split)

definition ops_defined :: "('w, 'd) num_ops \<Rightarrow> bool" where
  "ops_defined N \<longleftrightarrow> (\<forall>a b. defined (n_add N a b) \<and> defined (n_sub N a b) \<and> defined (n_mul N a b) \<and>
     defined (n_div N a b) \<and> defined (n_rem N a b))"

lemma ops_defined [simp]:
  "ops_defined signed_ops" "ops_defined unsigned_ops" "ops_defined (float32_ops K)" "ops_defined (float64_ops K)"
  "ops_defined (decimal_ops K E)"
  by (simp_all add: ops_defined_def num_ops_defs)

definition reads :: "nat \<Rightarrow> ('d data_value \<Rightarrow> 'w option) \<Rightarrow> bool" where
  "reads t get \<longleftrightarrow> (\<forall>v. value_tag v = t \<longrightarrow> get v \<noteq> None)"

lemma reads_getters:
  "reads 4 get_i8" "reads 5 get_i16" "reads 6 get_i32" "reads 7 get_i64"
  "reads 8 get_u8" "reads 9 get_u16" "reads 10 get_u32" "reads 11 get_u64"
  "reads 17 get_decimal" "reads 2 get_float" "reads 3 get_double" "reads 13 get_date32" "reads 14 get_date64"
  unfolding reads_def by (intro allI; rename_tac v; case_tac v; simp add: getters)+

lemma value_tag_iff:
  "value_tag v = 0 \<longleftrightarrow> v = Null" "value_tag v = Suc 0 \<longleftrightarrow> (\<exists>b. v = Boolean b)"
  "value_tag v = 12 \<longleftrightarrow> (\<exists>s ty u. v = Utf8 s ty u)" "value_tag v = 15 \<longleftrightarrow> (\<exists>w p. v = Time32 w p)"
  "value_tag v = 16 \<longleftrightarrow> (\<exists>w p z. v = Time64 w p z)"
  by (cases v; simp)+

lemma numeric_binary_defined:
  assumes "numeric_op op" "ops_defined N" "reads t get"
    and "value_tag l = 0 \<or> value_tag l = t" "value_tag r = 0 \<or> value_tag r = t"
  shows "defined (numeric_binary C get N op l r)"
proof (cases "get l = None \<or> get r = None")
  case True
  then have "(get l \<noteq> None \<or> l = Null) \<and> (get r \<noteq> None \<or> r = Null)"
    using assms(3-5) by (auto simp: reads_def value_tag_iff)
  then show ?thesis using True by (cases "get l"; cases "get r") (auto simp: numeric_binary_def)
next
  case False
  then obtain v1 v2 where "get l = Some v1" "get r = Some v2" by auto
  then show ?thesis
    using assms(1,2) by (cases op) (simp_all add: numeric_binary_def numeric_op_def ops_defined_def)
qed

lemma numeric_eval_defined:
  assumes "numeric_op op" "binary_create ty op = Ok (NumericEvaluator n op)"
    and "value_tag l = 0 \<or> value_tag l = type_tag ty" "value_tag r = 0 \<or> value_tag r = type_tag ty"
  shows "defined (numeric_eval K E n op l r)"
  using assms(2-4)
  by (cases ty)
    (auto simp: binary_create_def numeric_binary_evaluator_def only_ops_def assms(1) type_tag_def numeric_eval_def
      simp del: value_tag.simps split: if_splits intro: numeric_binary_defined [OF assms(1)] reads_getters)

lemma binary_create_cases:
  assumes "binary_create ty op = Ok ev"
  obtains (num) n where "ev = NumericEvaluator n op" "numeric_op op"
  | (time) "ev = TimeEvaluator op" "op = Plus \<or> op = Minus \<or> comparison op" "type_tag ty = 15"
  | (time64) "ev = Time64Evaluator op" "comparison op" "type_tag ty = 16"
  | (bool) "ev = BooleanEvaluator op" "op \<in> {And, Or, OpEq, NotEq}" "type_tag ty = 1"
  | (utf8) "ev = Utf8Evaluator op" "utf8_supported op" "type_tag ty = 12"
  | (tuple) "ev = TupleEvaluator op" "type_tag ty = 18"
  | (null) "ev = NullEvaluator"
  using assms
  by (cases ty)
    (auto simp: binary_create_def numeric_binary_evaluator_def only_ops_def type_tag_def comparison_def
      split: if_splits)

lemma time_binary_defined:
  assumes "op = Plus \<or> op = Minus \<or> comparison op"
    and "value_tag l = 0 \<or> value_tag l = 15" "value_tag r = 0 \<or> value_tag r = 15"
  shows "defined (time_binary op l r)"
proof -
  have "defined (res_bind (time_compare w p w' p') (\<lambda>c. map_res Boolean (ord_op op c)))"
    if "comparison op" for w p w' p'
    using ord_op_defined [OF that] by (auto intro!: defined_bind simp: time_op_defined)
  then have "defined (time_binary op (Time32 w p) (Time32 w' p'))" for w p w' p'
    using assms(1) by (cases op) (auto simp: time_binary_def time_op_defined comparison_def)
  then show ?thesis using assms(2,3) by (auto simp: value_tag_iff time_binary_def)
qed

lemma time64_binary_defined:
  assumes "comparison op" "value_tag l = 0 \<or> value_tag l = 16" "value_tag r = 0 \<or> value_tag r = 16"
  shows "defined (time64_binary E op l r)"
  using assms(2,3) ord_op_defined [OF assms(1)]
  by (auto simp: value_tag_iff time64_binary_def time_op_defined intro!: defined_bind split: option.split)

lemma utf8_binary_defined:
  assumes "utf8_supported op" "value_tag l = 0 \<or> value_tag l = 12" "value_tag r = 0 \<or> value_tag r = 12"
  shows "defined (utf8_binary E op l r)"
proof -
  have "defined (utf8_op E op v1 v2)" for v1 v2
    using assms(1) by (cases op) (simp_all add: utf8_op_def utf8_supported_def ord_op_def string_like_def)
  then show ?thesis using assms(2,3) by (auto simp: value_tag_iff utf8_binary_def)
qed

lemma binary_eval_is_defined:
  assumes "binary_create ty op = Ok ev" "type_tag ty \<noteq> 18"
    and "value_tag l = 0 \<or> value_tag l = type_tag ty" "value_tag r = 0 \<or> value_tag r = type_tag ty"
  shows "defined (binary_eval K E ev l r)"
  using assms(1)
proof (cases rule: binary_create_cases)
  case (num n)
  then show ?thesis using numeric_eval_defined [of op ty n l r K E] assms by (simp add: binary_eval_def)
next
  case time
  then show ?thesis using time_binary_defined [of op l r] assms(3,4) by (simp add: binary_eval_def)
next
  case time64
  then show ?thesis using time64_binary_defined [of op l r E] assms(3,4) by (simp add: binary_eval_def)
next
  case bool
  then show ?thesis
    using assms(3,4)
    by (auto simp: binary_eval_def value_tag_iff boolean_and_def boolean_or_def boolean_eq_def boolean_not_eq_def)
next
  case utf8
  then show ?thesis using utf8_binary_defined [of op l r E] assms(3,4) by (simp add: binary_eval_def)
qed (use assms(2) in \<open>simp_all add: binary_eval_def\<close>)





definition truth :: "'d data_value \<Rightarrow> nat" where
  "truth v = (case v of Boolean b \<Rightarrow> if b then 2 else 0 | _ \<Rightarrow> 1)"

definition boolean_value :: "'d data_value \<Rightarrow> bool" where
  "boolean_value v \<longleftrightarrow> v = Null \<or> (\<exists>b. v = Boolean b)"

text \<open>
  C31: AND, OR and NOT are the connectives of three-valued logic: with false below NULL below true, AND is
  the minimum, OR the maximum, and NOT exchanges the two ends, so De Morgan's laws hold.
\<close>

theorem three_valued_logic:
  assumes "boolean_value a" "boolean_value b"
  shows "\<exists>x y n m. boolean_and a b = Ok x \<and> boolean_or a b = Ok y \<and> boolean_not a = Ok n \<and> boolean_not x = Ok m \<and>
    truth x = min (truth a) (truth b) \<and> truth y = max (truth a) (truth b) \<and> truth n = 2 - truth a \<and>
    (\<exists>n'. boolean_not b = Ok n' \<and> boolean_or n n' = Ok m)"
  using assms
  by (auto simp: boolean_value_def boolean_and_def boolean_or_def boolean_not_def truth_def)

theorem three_valued_logic_witness:
  "\<exists>x. boolean_and Null (Boolean False) = Ok x \<and> truth x = 0"
  using three_valued_logic [of Null "Boolean False"] by (auto simp: boolean_value_def truth_def)

section \<open>Timestamps\<close>

text \<open>
  The documented behaviour of chrono: an instant is a number of nanoseconds since the epoch, built from
  seconds, milliseconds or microseconds and read by flooring division.
\<close>

definition chrono_laws :: "('d, 't) eval_crates \<Rightarrow> ('t \<Rightarrow> int) \<Rightarrow> bool" where
  "chrono_laws E ns \<longleftrightarrow>
    (\<forall>s n t. dt_from_timestamp E s n = Some t \<longrightarrow> ns t = s * 1000000000 + int n) \<and>
    (\<forall>i t. dt_from_millis E i = Some t \<longrightarrow> ns t = i * 1000000) \<and>
    (\<forall>i t. dt_from_micros E i = Some t \<longrightarrow> ns t = i * 1000) \<and>
    (\<forall>t. dt_timestamp E t = ns t div 1000000000) \<and> (\<forall>t. dt_millis E t = ns t div 1000000) \<and>
    (\<forall>t. dt_micros E t = ns t div 1000) \<and> (\<forall>t n. dt_nanos_opt E t = Some n \<longrightarrow> n = ns t)"

definition timestamp_nanos :: "64 word \<Rightarrow> 64 word \<Rightarrow> int" where
  "timestamp_nanos v p = sint v * 10 ^ (9 - unat p)"

lemma from_timestamp_nanos:
  assumes "chrono_laws E ns" "p \<in> {0, 3, 6, 9}" "from_timestamp_precision E v p = Ok (Some t)"
  shows "ns t = timestamp_nanos v p"
  using assms unfolding chrono_laws_def
  by (auto simp: from_timestamp_precision_def timestamp_nanos_def ONE_SEC_TO_NANO_def Let_def split: if_splits)

lemma from_timestamp_total:
  "p \<in> {0, 3, 6, 9} \<Longrightarrow> \<exists>x. from_timestamp_precision E v p = Ok x"
  by (auto simp: from_timestamp_precision_def Let_def)

lemma cmp_of_mult: "0 < k \<Longrightarrow> cmp_of (a * k) (b * k) = cmp_of a (b :: int)"
  by (simp add: cmp_of_def)

lemma timestamp_read:
  assumes "chrono_laws E ns" "q \<in> {0, 3, 6, 9}" "p \<in> {0, 3, 6, 9}" "p \<le> q" "ns t = timestamp_nanos v p"
    and "q = 9 \<longrightarrow> dt_nanos_opt E t \<noteq> None"
  shows "\<exists>i. timestamp_precision E t q = Ok i \<and> timestamp_nanos v p = i * 10 ^ (9 - unat q)"
  using assms unfolding chrono_laws_def
  by (auto simp: timestamp_precision_def timestamp_nanos_def)

lemma time64_compare_nanos:
  assumes "chrono_laws E ns" "p1 \<in> {0, 3, 6, 9}" "p2 \<in> {0, 3, 6, 9}"
    and "from_timestamp_precision E v1 p1 = Ok (Some t1)" "from_timestamp_precision E v2 p2 = Ok (Some t2)"
    and "p1 = 9 \<or> p2 = 9 \<longrightarrow> dt_nanos_opt E t1 \<noteq> None \<and> dt_nanos_opt E t2 \<noteq> None"
  shows "time64_compare E v1 p1 v2 p2 = Ok (Some (cmp_of (timestamp_nanos v1 p1) (timestamp_nanos v2 p2)))"
proof -
  define q where "q = (if p1 < p2 then p2 else p1)"
  have q: "q \<in> {0, 3, 6, 9}" "p1 \<le> q" "p2 \<le> q" "q = 9 \<longrightarrow> p1 = 9 \<or> p2 = 9"
    using assms(2,3) by (auto simp: q_def)
  obtain i1 where i1: "timestamp_precision E t1 q = Ok i1" "timestamp_nanos v1 p1 = i1 * 10 ^ (9 - unat q)"
    using timestamp_read [OF assms(1) q(1) assms(2) q(2) from_timestamp_nanos [OF assms(1,2,4)]] assms(6) q(4) by blast
  obtain i2 where i2: "timestamp_precision E t2 q = Ok i2" "timestamp_nanos v2 p2 = i2 * 10 ^ (9 - unat q)"
    using timestamp_read [OF assms(1) q(1) assms(3) q(3) from_timestamp_nanos [OF assms(1,3,5)]] assms(6) q(4) by blast
  show ?thesis
    using assms(4,5) i1 i2 by (simp add: time64_compare_def Let_def cmp_of_mult flip: q_def)
qed


lemma chrono_laws_sample: "chrono_laws sample_eval id"
  by (simp add: chrono_laws_def sample_eval_def)


section \<open>The types of results\<close>

definition result_tag :: "binary_operator \<Rightarrow> nat \<Rightarrow> nat" where
  "result_tag op t = (case op of
     Plus \<Rightarrow> t | Minus \<Rightarrow> t | Multiply \<Rightarrow> t | Modulo \<Rightarrow> t
   | Divide \<Rightarrow> if t = 17 then 17 else 3
   | StringConcat \<Rightarrow> 12
   | _ \<Rightarrow> 1)"

lemma numeric_binary_tag:
  assumes "numeric_binary C get N op l r = Ok v" "\<And>w. value_tag (C w) = t"
    and "\<And>a b w. n_div N a b = Ok w \<Longrightarrow> value_tag w = (if t = 17 then 17 else 3)"
  shows "value_tag v = 0 \<or> value_tag v = result_tag op t"
  using assms(1)
  by (auto simp: numeric_binary_def result_tag_def result_simps assms(2) dest: assms(3)
      split: option.splits binary_operator.splits if_splits)

definition num_tag :: "num_type \<Rightarrow> nat" where
  "num_tag n = (case n of
     NFloat32 \<Rightarrow> 2 | NFloat64 \<Rightarrow> 3 | NInt8 \<Rightarrow> 4 | NInt16 \<Rightarrow> 5 | NInt32 \<Rightarrow> 6 | NInt64 \<Rightarrow> 7
   | NUInt8 \<Rightarrow> 8 | NUInt16 \<Rightarrow> 9 | NUInt32 \<Rightarrow> 10 | NUInt64 \<Rightarrow> 11 | NDate \<Rightarrow> 13 | NDateTime \<Rightarrow> 14 | NDecimal \<Rightarrow> 17)"

lemma numeric_eval_tag:
  assumes "numeric_eval K E n op l r = Ok v"
  shows "value_tag v = 0 \<or> value_tag v = result_tag op (num_tag n)"
  using assms
  by (cases n, simp_all only: numeric_eval_def num_type.case num_tag_def)
    (erule numeric_binary_tag; auto simp: num_ops_defs result_simps)+

lemma binary_create_num_tag: "binary_create ty op = Ok (NumericEvaluator n op) \<Longrightarrow> num_tag n = type_tag ty"
  by (cases ty) (auto simp: binary_create_def numeric_binary_evaluator_def only_ops_def type_tag_def num_tag_def split: if_splits)

lemma time_plus_tag: "time_plus w p w' p' = Ok v \<Longrightarrow> value_tag v = 0 \<or> value_tag v = 15"
  by (auto simp: time_plus_def Let_def result_simps split: prod.splits if_splits)

lemma time_minus_tag: "time_minus w p w' p' = Ok v \<Longrightarrow> value_tag v = 0 \<or> value_tag v = 15"
  by (auto simp: time_minus_def Let_def result_simps split: prod.splits if_splits)

lemma comparison_result_tag: "comparison op \<Longrightarrow> result_tag op t = 1"
  by (elim comparison_cases) (simp_all add: result_tag_def)

lemma binary_eval_tag:
  assumes "binary_create ty op = Ok ev" "type_tag ty \<noteq> 18" "binary_eval K E ev l r = Ok v"
  shows "value_tag v = 0 \<or> value_tag v = result_tag op (type_tag ty)"
  using assms(1)
proof (cases rule: binary_create_cases)
  case (num n)
  then show ?thesis using numeric_eval_tag [of K E n op l r v] binary_create_num_tag [of ty op n] assms by (simp add: binary_eval_def)
next
  case time
  then show ?thesis using assms(3)
    by (auto simp: binary_eval_def time_binary_def result_simps comparison_def result_tag_def
        dest!: time_plus_tag time_minus_tag split: data_value.splits binary_operator.splits if_splits)
next
  case time64
  then show ?thesis using assms(3)
    by (auto simp: binary_eval_def time64_binary_def result_simps comparison_result_tag
        split: data_value.splits option.splits)
next
  case bool
  then show ?thesis using assms(3)
    by (auto simp: binary_eval_def boolean_and_def boolean_or_def boolean_eq_def boolean_not_eq_def result_tag_def
        split: data_value.splits if_splits)
next
  case utf8
  then show ?thesis using assms(3)
    by (auto simp: binary_eval_def utf8_binary_def utf8_op_def result_simps result_tag_def utf8_supported_def
        split: data_value.splits binary_operator.splits)
qed (use assms in \<open>simp_all add: binary_eval_def\<close>)

lemma unary_eval_typed:
  assumes "unary_create ty op = Ok ev" "value_tag v = 0 \<or> value_tag v = type_tag ty"
  shows "defined (unary_eval ev v)" "unary_eval ev v = Ok w \<Longrightarrow> value_tag w = 0 \<or> value_tag w = type_tag ty"
proof -
  have "reads t get \<Longrightarrow> value_tag v = 0 \<or> value_tag v = t \<Longrightarrow> get v = None \<Longrightarrow> v = Null" for t and get :: "'a data_value \<Rightarrow> 'c option"
    by (auto simp: reads_def value_tag_iff)
  with assms show "defined (unary_eval ev v)"
    by (cases ty; cases v) (auto simp: unary_create_def numeric_unary_evaluator_def unary_eval_def numeric_unary_def type_tag_def
        getters neg_signed_def boolean_not_def split: if_splits unary_operator.split)
  show "unary_eval ev v = Ok w \<Longrightarrow> value_tag w = 0 \<or> value_tag w = type_tag ty"
    using assms
    by (cases ty; cases v) (auto simp: unary_create_def numeric_unary_evaluator_def unary_eval_def numeric_unary_def type_tag_def
        getters boolean_not_def result_simps split: if_splits unary_operator.splits)
qed

section \<open>Cases the evaluators get wrong\<close>

text \<open>
  A tuple compared with NULL reaches the branch that the code declares unreachable.
\<close>

theorem tuple_null_undefined:
  "\<exists>ev. binary_create (TupleT [Integer]) OpEq = Ok ev \<and>
    binary_eval K E ev (Tuple [Int32 1] False) Null = Err Undefined"
  by (simp add: binary_create_def only_ops_def binary_eval_def tuple_binary_def)

lemma unpack_tenths:
  "unpack 0x50000000 1 = Ok (0, 500000000)" "unpack 0xA0000000 1 = Ok (0, 1000000000)"
  "unpack 1 1 = Ok (1, 0)" "unpack 0x10000002 1 = Ok (2, 100000000)" "unpack 0x50000001 1 = Ok (1, 500000000)"
  by (simp_all add: unpack_def time_shift_def nano_unit_def)

lemma pack_tenths:
  "pack 0 500000000 1 = Ok 0x50000000" "pack 0 1000000000 1 = Ok 0xA0000000"
  "pack 2 100000000 1 = Ok 0x10000002" "pack 1 500000000 1 = Ok 0x50000001"
  by (simp_all add: pack_def time_shift_def nano_unit_def ONE_SEC_TO_NANO_def ONE_DAY_TO_SEC_def)

text \<open>
  Half a second plus half a second, at precision 1, is not carried: the sum holds no whole second and a
  fraction of ten tenths, and is not equal to one second.
\<close>

theorem time_plus_no_carry:
  "pack 0 500000000 1 = Ok 0x50000000 \<and> unpack 0xA0000000 1 = Ok (0, 1000000000) \<and>
   binary_eval K E (TimeEvaluator Plus) (Time32 0x50000000 1) (Time32 0x50000000 1) = Ok (Time32 0xA0000000 1) \<and>
   binary_eval K E (TimeEvaluator OpEq) (Time32 0xA0000000 1) (Time32 1 1) = Ok (Boolean False)"
  by (simp add: binary_eval_def time_binary_def time_plus_def time_compare_def unpack_tenths pack_tenths u32_add_def
      of_option_def checked_unsigned_def carry_loop.simps nano_sec_def ONE_SEC_TO_NANO_def ONE_DAY_TO_SEC_def
      ord_op_def cmp_of_def)

text \<open>
  The order of packed times is not the order of the times: two seconds and a tenth is later than one
  second and a half, while \<open>partial_cmp\<close>, which sorting and index keys follow, puts it first.
\<close>

theorem time_order_disagrees:
  "pack 2 100000000 1 = Ok 0x10000002 \<and> pack 1 500000000 1 = Ok 0x50000001 \<and>
   binary_eval K E (TimeEvaluator Gt) (Time32 0x10000002 1) (Time32 0x50000001 1) = Ok (Boolean True) \<and>
   partial_cmp K (Time32 0x10000002 1) (Time32 0x50000001 1) = Some Less"
  by (simp add: binary_eval_def time_binary_def time_compare_def unpack_tenths pack_tenths ord_op_def cmp_of_def)

end
