(* ===== verification/Cast.thy ===== *)
theory Cast
  imports Evaluator
begin

text \<open>
  \<open>DataValue::cast\<close> of \<open>src/src/types/value.rs\<close>: every conversion between the types of values, with the
  length check at its end. Text of integers and booleans is modelled; text of floats, decimals and
  chrono's dates, and the conversions of \<open>rust_decimal\<close>, are the record \<open>cast_crates\<close>.
\<close>

section \<open>Functions of other crates\<close>

text \<open>
  \<open>'n\<close> is chrono's \<open>NaiveDate\<close> and \<open>'t\<close> an instant. The parsers return \<open>None\<close> for a parse error;
  \<open>time_parse\<close> gives the seconds from midnight and the nanoseconds.
\<close>

record ('d, 't, 'n) cast_crates =
  dec_from_f32 :: "32 word \<Rightarrow> 'd option"
  dec_from_f64 :: "64 word \<Rightarrow> 'd option"
  dec_from_int :: "int \<Rightarrow> 'd"
  dec_trunc_with_scale :: "'d \<Rightarrow> nat \<Rightarrow> 'd"
  dec_round_dp :: "'d \<Rightarrow> nat \<Rightarrow> 'd"
  dec_to_f32 :: "'d \<Rightarrow> 32 word option"
  dec_to_f64 :: "'d \<Rightarrow> 64 word option"
  dec_to_i128 :: "'d \<Rightarrow> int option"
  dec_to_string :: "'d \<Rightarrow> rstring"
  dec_from_str :: "rstring \<Rightarrow> 'd option"
  f32_to_string :: "32 word \<Rightarrow> rstring"
  f64_to_string :: "64 word \<Rightarrow> rstring"
  f32_from_str :: "rstring \<Rightarrow> 32 word option"
  f64_from_str :: "rstring \<Rightarrow> 64 word option"
  date_parse :: "rstring \<Rightarrow> string \<Rightarrow> 'n option"
  date_num_days :: "'n \<Rightarrow> int"
  date_from_num_days :: "int \<Rightarrow> 'n option"
  date_midnight :: "'n \<Rightarrow> int"
  date_to_string :: "'n \<Rightarrow> string \<Rightarrow> rstring"
  naive_datetime_parse :: "rstring \<Rightarrow> string \<Rightarrow> int option"
  time_parse :: "rstring \<Rightarrow> string \<Rightarrow> (nat \<times> nat) option"
  datetime_parse :: "rstring \<Rightarrow> string \<Rightarrow> 't option"
  dt_num_days :: "'t \<Rightarrow> int"
  dt_time :: "'t \<Rightarrow> nat \<times> nat"
  dt_to_string :: "'t \<Rightarrow> string \<Rightarrow> rstring"
  time_to_string :: "nat \<Rightarrow> nat \<Rightarrow> string \<Rightarrow> rstring option"

definition DATE_FMT :: string where "DATE_FMT = ''%Y-%m-%d''"

definition DATE_TIME_FMT :: string where "DATE_TIME_FMT = ''%Y-%m-%d %H:%M:%S''"

definition TIME_STAMP_FMT_WITHOUT_ZONE :: string where
  "TIME_STAMP_FMT_WITHOUT_ZONE = ''%Y-%m-%d %H:%M:%S%.f''"

definition TIME_STAMP_FMT_WITH_ZONE :: string where
  "TIME_STAMP_FMT_WITH_ZONE = ''%Y-%m-%d %H:%M:%S%.f%z''"

definition TIME_STAMP_FMT_WITHOUT_PRECISION :: string where
  "TIME_STAMP_FMT_WITHOUT_PRECISION = ''%Y-%m-%d %H:%M:%S%z''"

definition TIME_FMT :: string where "TIME_FMT = ''%H:%M:%S''"

definition TIME_FMT_WITHOUT_ZONE :: string where "TIME_FMT_WITHOUT_ZONE = ''%H:%M:%S%.f''"

section \<open>Text of integers and booleans\<close>

definition ascii :: "string \<Rightarrow> rstring" where
  "ascii s = map of_char s"

fun nat_to_string :: "nat \<Rightarrow> rstring" where
  "nat_to_string n = (if n < 10 then [of_nat (48 + n)] else nat_to_string (n div 10) @ [of_nat (48 + n mod 10)])"

declare nat_to_string.simps [simp del]

definition int_to_string :: "int \<Rightarrow> rstring" where
  "int_to_string i = (if i < 0 then 45 # nat_to_string (nat (- i)) else nat_to_string (nat i))"

definition bool_to_string :: "bool \<Rightarrow> rstring" where
  "bool_to_string b = (if b then ascii ''true'' else ascii ''false'')"

definition parse_digits :: "rstring \<Rightarrow> nat option" where
  "parse_digits s =
    (if s = [] \<or> list_ex (\<lambda>c. \<not> (48 \<le> unat c \<and> unat c \<le> 57)) s then None
     else Some (foldl (\<lambda>n c. 10 * n + (unat c - 48)) 0 s))"

text \<open>\<open>from_str\<close> of the integer types: an optional sign, digits, and a result in the range.\<close>

definition parse_int :: "bool \<Rightarrow> nat \<Rightarrow> rstring \<Rightarrow> int option" where
  "parse_int sgn_ty bits s =
    (let r = (case s of
         [] \<Rightarrow> None
       | c # cs \<Rightarrow>
           if c = 43 then map_option int (parse_digits cs)
           else if c = 45 \<and> sgn_ty then map_option (\<lambda>n. - int n) (parse_digits cs)
           else map_option int (parse_digits s))
     in case r of
          None \<Rightarrow> None
        | Some i \<Rightarrow>
            if (if sgn_ty then - (2 ^ (bits - 1)) \<le> i \<and> i < 2 ^ (bits - 1) else 0 \<le> i \<and> i < 2 ^ bits)
            then Some i else None)"

definition parse_bool :: "rstring \<Rightarrow> bool option" where
  "parse_bool s = (if s = ascii ''true'' then Some True else if s = ascii ''false'' then Some False else None)"

section \<open>The macros\<close>

definition varchar_cast ::
  "rstring \<Rightarrow> 32 word option \<Rightarrow> utf8_type \<Rightarrow> char_length_units \<Rightarrow> 'd data_value res" where
  "varchar_cast s len ty unit = (case len of
     Some n \<Rightarrow> if check_string_len s (unat n) unit then Err TooLong else Ok (Utf8 s ty unit)
   | None \<Rightarrow> Ok (Utf8 s ty unit))"

text \<open>The two string targets, which every source but tuples has.\<close>

definition to_text :: "rstring \<Rightarrow> logical_type \<Rightarrow> 'd data_value res \<Rightarrow> 'd data_value res" where
  "to_text s to other = (case to of
     CharT len unit \<Rightarrow> varchar_cast s (Some len) (Fixed len) unit
   | Varchar len unit \<Rightarrow> varchar_cast s len (Variable len) unit
   | _ \<Rightarrow> other)"

definition numeric_to_boolean :: "int \<Rightarrow> logical_type \<Rightarrow> 'd data_value res" where
  "numeric_to_boolean i from =
    (if i = 0 then Ok (Boolean False) else if i = 1 then Ok (Boolean True) else Err (CastFail from BooleanT))"

text \<open>The integer targets: the constructor, whether it is signed, and its width.\<close>

definition int_target :: "logical_type \<Rightarrow> ((int \<Rightarrow> 'd data_value) \<times> bool \<times> nat) option" where
  "int_target to = (case to of
     Tinyint \<Rightarrow> Some (\<lambda>i. Int8 (word_of_int i), True, 8)
   | Smallint \<Rightarrow> Some (\<lambda>i. Int16 (word_of_int i), True, 16)
   | Integer \<Rightarrow> Some (\<lambda>i. Int32 (word_of_int i), True, 32)
   | Bigint \<Rightarrow> Some (\<lambda>i. Int64 (word_of_int i), True, 64)
   | UTinyint \<Rightarrow> Some (\<lambda>i. UInt8 (word_of_int i), False, 8)
   | USmallint \<Rightarrow> Some (\<lambda>i. UInt16 (word_of_int i), False, 16)
   | UInteger \<Rightarrow> Some (\<lambda>i. UInt32 (word_of_int i), False, 32)
   | UBigint \<Rightarrow> Some (\<lambda>i. UInt64 (word_of_int i), False, 64)
   | _ \<Rightarrow> None)"

definition int_min :: "bool \<Rightarrow> nat \<Rightarrow> int" where
  "int_min sgn_ty bits = (if sgn_ty then - (2 ^ (bits - 1)) else 0)"

definition int_max :: "bool \<Rightarrow> nat \<Rightarrow> int" where
  "int_max sgn_ty bits = (if sgn_ty then 2 ^ (bits - 1) - 1 else 2 ^ bits - 1)"

definition float_to_int_32 :: "32 word \<Rightarrow> bool \<Rightarrow> nat \<Rightarrow> int res" where
  "float_to_int_32 w sgn_ty bits =
    (let mx = int_max sgn_ty bits in
     if f32_is_nan w then Ok 0
     else if f32_key w \<le> 0 \<or> f32_key (f32_of_int mx) < f32_key w then Err OverFlow
     else Ok (min (flt_trunc (f32_decode w)) mx))"

definition float_to_int_64 :: "64 word \<Rightarrow> bool \<Rightarrow> nat \<Rightarrow> int res" where
  "float_to_int_64 w sgn_ty bits =
    (let mx = int_max sgn_ty bits in
     if f64_is_nan w then Ok 0
     else if f64_key w \<le> 0 \<or> f64_key (f64_of_int mx) < f64_key w then Err OverFlow
     else Ok (min (flt_trunc (f64_decode w)) mx))"

definition decimal_to_int ::
  "'d crates \<Rightarrow> ('d, 't, 'n) cast_crates \<Rightarrow> 'd \<Rightarrow> bool \<Rightarrow> nat \<Rightarrow> int res" where
  "decimal_to_int K C d sgn_ty bits =
    (let mn = int_min sgn_ty bits; mx = int_max sgn_ty bits;
         wrap = (\<lambda>i. if sgn_ty then signed_take_bit (bits - 1) i else take_bit bits i) in
     if dec_is_sign_negative K d then
       (if mn = 0 then Ok 0
        else if dec_cmp K d (dec_from_int C mn) \<noteq> Greater then Ok mn
        else map_res wrap (of_option Panic (dec_to_i128 C d)))
     else if dec_cmp K d (dec_from_int C mx) \<noteq> Less then Ok mx
     else map_res wrap (of_option Panic (dec_to_i128 C d)))"

definition decimal_round_i :: "('d, 't, 'n) cast_crates \<Rightarrow> 8 word option \<Rightarrow> 'd \<Rightarrow> 'd" where
  "decimal_round_i C option d = (case option of Some scale \<Rightarrow> dec_trunc_with_scale C d (unat scale) | None \<Rightarrow> d)"

definition decimal_round_f :: "('d, 't, 'n) cast_crates \<Rightarrow> 8 word option \<Rightarrow> 'd \<Rightarrow> 'd" where
  "decimal_round_f C option d = (case option of Some scale \<Rightarrow> dec_round_dp C d (unat scale) | None \<Rightarrow> d)"


section \<open>Casts of each kind of value\<close>

abbreviation cast_fail :: "'d data_value \<Rightarrow> logical_type \<Rightarrow> 'd data_value res" where
  "cast_fail v to \<equiv> Err (CastFail (logical_type v) to)"

definition cast_boolean :: "bool \<Rightarrow> logical_type \<Rightarrow> 'd data_value res" where
  "cast_boolean b to = (case to of
     SqlNull \<Rightarrow> Ok Null
   | BooleanT \<Rightarrow> Ok (Boolean b)
   | FloatT \<Rightarrow> Ok (Float32 (f32_of_int (of_bool b)))
   | DoubleT \<Rightarrow> Ok (Float64 (f64_of_int (of_bool b)))
   | _ \<Rightarrow>
     (case int_target to of
        Some (mk, _) \<Rightarrow> Ok (mk (of_bool b))
      | None \<Rightarrow> to_text (bool_to_string b) to (cast_fail (Boolean b) to)))"

definition cast_float32 ::
  "('d, 't, 'n) cast_crates \<Rightarrow> 32 word \<Rightarrow> logical_type \<Rightarrow> 'd data_value res" where
  "cast_float32 C w to = (case to of
     SqlNull \<Rightarrow> Ok Null
   | FloatT \<Rightarrow> Ok (Float32 w)
   | DoubleT \<Rightarrow> Ok (Float64 (f32_to_f64 w))
   | DecimalT _ option \<Rightarrow>
       (case dec_from_f32 C w of
          None \<Rightarrow> cast_fail (Float32 w) to
        | Some d \<Rightarrow> Ok (Decimal (decimal_round_f C option d)))
   | _ \<Rightarrow>
     (case int_target to of
        Some (mk, sgn_ty, bits) \<Rightarrow> map_res mk (float_to_int_32 w sgn_ty bits)
      | None \<Rightarrow> to_text (f32_to_string C w) to (cast_fail (Float32 w) to)))"

definition cast_float64 ::
  "('d, 't, 'n) cast_crates \<Rightarrow> 64 word \<Rightarrow> logical_type \<Rightarrow> 'd data_value res" where
  "cast_float64 C w to = (case to of
     SqlNull \<Rightarrow> Ok Null
   | FloatT \<Rightarrow> Ok (Float32 (f64_to_f32 w))
   | DoubleT \<Rightarrow> Ok (Float64 w)
   | DecimalT _ option \<Rightarrow>
       (case dec_from_f64 C w of
          None \<Rightarrow> cast_fail (Float64 w) to
        | Some d \<Rightarrow> Ok (Decimal (decimal_round_f C option d)))
   | _ \<Rightarrow>
     (case int_target to of
        Some (mk, sgn_ty, bits) \<Rightarrow> map_res mk (float_to_int_64 w sgn_ty bits)
      | None \<Rightarrow> to_text (f64_to_string C w) to (cast_fail (Float64 w) to)))"

text \<open>
  \<open>try_from\<close> between integer types keeps the number or fails; \<open>into\<close> is used where every number fits, so
  that the check of the range never fails there.
\<close>

definition try_from :: "(int \<Rightarrow> 'd data_value) \<Rightarrow> bool \<Rightarrow> nat \<Rightarrow> int \<Rightarrow> 'd data_value res" where
  "try_from mk sgn_ty bits i =
    (if int_min sgn_ty bits \<le> i \<and> i \<le> int_max sgn_ty bits then Ok (mk i) else Err TryFromInt)"

text \<open>The arms of the eight integer types, which differ in the number and in the type they report.\<close>

definition cast_number ::
  "('d, 't, 'n) cast_crates \<Rightarrow> logical_type \<Rightarrow> int \<Rightarrow> logical_type \<Rightarrow> 'd data_value res" where
  "cast_number C from i to = (case to of
     SqlNull \<Rightarrow> Ok Null
   | BooleanT \<Rightarrow> numeric_to_boolean i from
   | FloatT \<Rightarrow> Ok (Float32 (f32_of_int i))
   | DoubleT \<Rightarrow> Ok (Float64 (f64_of_int i))
   | DecimalT _ option \<Rightarrow> Ok (Decimal (decimal_round_i C option (dec_from_int C i)))
   | _ \<Rightarrow>
     (case int_target to of
        Some (mk, sgn_ty, bits) \<Rightarrow> try_from mk sgn_ty bits i
      | None \<Rightarrow> to_text (int_to_string i) to (Err (CastFail from to))))"

definition cast_int8 :: "('d, 't, 'n) cast_crates \<Rightarrow> 8 word \<Rightarrow> logical_type \<Rightarrow> 'd data_value res" where
  "cast_int8 C w to = cast_number C Tinyint (sint w) to"

definition cast_int16 :: "('d, 't, 'n) cast_crates \<Rightarrow> 16 word \<Rightarrow> logical_type \<Rightarrow> 'd data_value res" where
  "cast_int16 C w to = cast_number C Smallint (sint w) to"

definition cast_int32 :: "('d, 't, 'n) cast_crates \<Rightarrow> 32 word \<Rightarrow> logical_type \<Rightarrow> 'd data_value res" where
  "cast_int32 C w to = cast_number C Integer (sint w) to"

definition cast_int64 :: "('d, 't, 'n) cast_crates \<Rightarrow> 64 word \<Rightarrow> logical_type \<Rightarrow> 'd data_value res" where
  "cast_int64 C w to = cast_number C Bigint (sint w) to"

definition cast_uint8 :: "('d, 't, 'n) cast_crates \<Rightarrow> 8 word \<Rightarrow> logical_type \<Rightarrow> 'd data_value res" where
  "cast_uint8 C w to = cast_number C UTinyint (uint w) to"

definition cast_uint16 :: "('d, 't, 'n) cast_crates \<Rightarrow> 16 word \<Rightarrow> logical_type \<Rightarrow> 'd data_value res" where
  "cast_uint16 C w to = cast_number C USmallint (uint w) to"

definition cast_uint32 :: "('d, 't, 'n) cast_crates \<Rightarrow> 32 word \<Rightarrow> logical_type \<Rightarrow> 'd data_value res" where
  "cast_uint32 C w to = cast_number C UInteger (uint w) to"

definition cast_uint64 :: "('d, 't, 'n) cast_crates \<Rightarrow> 64 word \<Rightarrow> logical_type \<Rightarrow> 'd data_value res" where
  "cast_uint64 C w to = cast_number C UBigint (uint w) to"

definition precision_or_zero :: "64 word option \<Rightarrow> 64 word" where
  "precision_or_zero p = (case p of Some precision \<Rightarrow> precision | None \<Rightarrow> 0)"

definition string_to_time ::
  "('d, 't, 'n) cast_crates \<Rightarrow> rstring \<Rightarrow> 64 word \<Rightarrow> 'd data_value res" where
  "string_to_time C s precision =
    (let fmt = (if precision = 0 then TIME_FMT else TIME_FMT_WITHOUT_ZONE) in
     case time_parse C s fmt of
       None \<Rightarrow> Err ParseDate
     | Some (secs, nano) \<Rightarrow>
         map_res (\<lambda>v. Time32 v precision)
           (pack (of_nat secs) (if precision = 0 then 0 else of_nat nano) precision))"

definition timestamp_format :: "64 word \<Rightarrow> bool \<Rightarrow> string" where
  "timestamp_format precision zone =
    (if precision = 0 \<and> \<not> zone then DATE_TIME_FMT
     else if precision = 0 \<and> zone then TIME_STAMP_FMT_WITHOUT_PRECISION
     else if precision \<in> {3, 6, 9} \<and> \<not> zone then TIME_STAMP_FMT_WITHOUT_ZONE
     else TIME_STAMP_FMT_WITH_ZONE)"

definition string_to_timestamp ::
  "('d, 't) eval_crates \<Rightarrow> ('d, 't, 'n) cast_crates \<Rightarrow> rstring \<Rightarrow> 64 word \<Rightarrow> bool \<Rightarrow> 'd data_value res \<Rightarrow>
   'd data_value res" where
  "string_to_timestamp E C s precision zone failure =
    (let fmt = timestamp_format precision zone;
         complete = (if zone \<and> 43 \<notin> set s then s @ ascii ''+00:00'' else s);
         mk = (\<lambda>i. Time64 (word_of_int i) precision zone)
     in if precision = 0 \<and> \<not> zone
        then map_res mk (of_option ParseDate (naive_datetime_parse C complete fmt))
        else if precision \<notin> {0, 3, 6, 9} then Err Panic
        else case datetime_parse C complete fmt of
          None \<Rightarrow> Err ParseDate
        | Some t \<Rightarrow>
            if precision = 3 then Ok (mk (dt_millis E t))
            else if precision = 6 then Ok (mk (dt_micros E t))
            else if precision = 9 then
              (case dt_nanos_opt E t of Some i \<Rightarrow> Ok (mk i) | None \<Rightarrow> failure)
            else Ok (mk (dt_timestamp E t)))"

definition string_to_datetime :: "('d, 't, 'n) cast_crates \<Rightarrow> rstring \<Rightarrow> 'd data_value res" where
  "string_to_datetime C s = (case naive_datetime_parse C s DATE_TIME_FMT of
     Some i \<Rightarrow> Ok (Date64 (word_of_int i))
   | None \<Rightarrow>
       (case date_parse C s DATE_FMT of
          Some n \<Rightarrow> Ok (Date64 (word_of_int (date_midnight C n)))
        | None \<Rightarrow> Err ParseDate))"

definition cast_utf8 ::
  "('d, 't) eval_crates \<Rightarrow> ('d, 't, 'n) cast_crates \<Rightarrow> 'd data_value \<Rightarrow> rstring \<Rightarrow> logical_type \<Rightarrow>
   'd data_value res" where
  "cast_utf8 E C self s to = (case to of
     SqlNull \<Rightarrow> Ok Null
   | BooleanT \<Rightarrow> map_res Boolean (of_option ParseBool (parse_bool s))
   | FloatT \<Rightarrow> map_res Float32 (of_option ParseFloat (f32_from_str C s))
   | DoubleT \<Rightarrow> map_res Float64 (of_option ParseFloat (f64_from_str C s))
   | DateT \<Rightarrow>
       map_res (\<lambda>n. Date32 (word_of_int (date_num_days C n))) (of_option Panic (date_parse C s DATE_FMT))
   | DateTimeT \<Rightarrow> string_to_datetime C s
   | TimeT precision \<Rightarrow> string_to_time C s (precision_or_zero precision)
   | TimeStampT precision zone \<Rightarrow>
       string_to_timestamp E C s (precision_or_zero precision) zone (cast_fail self to)
   | DecimalT _ _ \<Rightarrow> map_res Decimal (of_option TryFromDecimal (dec_from_str C s))
   | _ \<Rightarrow>
     (case int_target to of
        Some (mk, sgn_ty, bits) \<Rightarrow> map_res mk (of_option ParseInt (parse_int sgn_ty bits s))
      | None \<Rightarrow> to_text s to (cast_fail self to)))"

definition format_date :: "('d, 't, 'n) cast_crates \<Rightarrow> 32 word \<Rightarrow> rstring option" where
  "format_date C v = map_option (\<lambda>n. date_to_string C n DATE_FMT) (date_from_num_days C (sint v))"

definition format_datetime ::
  "('d, 't) eval_crates \<Rightarrow> ('d, 't, 'n) cast_crates \<Rightarrow> 64 word \<Rightarrow> rstring option" where
  "format_datetime E C v = map_option (\<lambda>t. dt_to_string C t DATE_TIME_FMT) (dt_from_timestamp E (sint v) 0)"

definition format_time :: "('d, 't, 'n) cast_crates \<Rightarrow> 32 word \<Rightarrow> 64 word \<Rightarrow> rstring option res" where
  "format_time C v precision =
    map_res (\<lambda>(s, n). time_to_string C (unat s) (unat n) TIME_FMT_WITHOUT_ZONE) (unpack v precision)"

definition format_timestamp ::
  "('d, 't) eval_crates \<Rightarrow> ('d, 't, 'n) cast_crates \<Rightarrow> 64 word \<Rightarrow> 64 word \<Rightarrow> rstring option res" where
  "format_timestamp E C v precision =
    map_res (map_option (\<lambda>t. dt_to_string C t TIME_STAMP_FMT_WITHOUT_ZONE)) (from_timestamp_precision E v precision)"

text \<open>The string targets of a value whose text may not exist.\<close>

definition to_text_opt ::
  "rstring option res \<Rightarrow> logical_type \<Rightarrow> 'd data_value res \<Rightarrow> 'd data_value res" where
  "to_text_opt r to failure = (case to of
     CharT _ _ \<Rightarrow>
       res_bind r (\<lambda>x. case x of Some s \<Rightarrow> to_text s to failure | None \<Rightarrow> failure)
   | Varchar _ _ \<Rightarrow>
       res_bind r (\<lambda>x. case x of Some s \<Rightarrow> to_text s to failure | None \<Rightarrow> failure)
   | _ \<Rightarrow> failure)"

definition cast_date32 :: "('d, 't, 'n) cast_crates \<Rightarrow> 32 word \<Rightarrow> logical_type \<Rightarrow> 'd data_value res" where
  "cast_date32 C v to = (case to of
     SqlNull \<Rightarrow> Ok Null
   | DateT \<Rightarrow> Ok (Date32 v)
   | DateTimeT \<Rightarrow>
       (case date_from_num_days C (sint v) of
          Some n \<Rightarrow> Ok (Date64 (word_of_int (date_midnight C n)))
        | None \<Rightarrow> cast_fail (Date32 v) to)
   | _ \<Rightarrow> to_text_opt (Ok (format_date C v)) to (cast_fail (Date32 v) to))"

definition cast_date64 ::
  "('d, 't) eval_crates \<Rightarrow> ('d, 't, 'n) cast_crates \<Rightarrow> 64 word \<Rightarrow> logical_type \<Rightarrow> 'd data_value res" where
  "cast_date64 E C v to = (case to of
     SqlNull \<Rightarrow> Ok Null
   | DateT \<Rightarrow>
       (case dt_from_timestamp E (sint v) 0 of
          Some t \<Rightarrow> Ok (Date32 (word_of_int (dt_num_days C t)))
        | None \<Rightarrow> cast_fail (Date64 v) to)
   | DateTimeT \<Rightarrow> Ok (Date64 v)
   | TimeT precision \<Rightarrow>
       (case dt_from_timestamp E (sint v) 0 of
          Some t \<Rightarrow>
            map_res (\<lambda>w. Time32 w (precision_or_zero precision)) (pack (of_nat (fst (dt_time C t))) 0 0)
        | None \<Rightarrow> cast_fail (Date64 v) to)
   | TimeStampT precision zone \<Rightarrow> Ok (Time64 v (precision_or_zero precision) zone)
   | _ \<Rightarrow> to_text_opt (Ok (format_datetime E C v)) to (cast_fail (Date64 v) to))"

definition cast_time32 ::
  "('d, 't, 'n) cast_crates \<Rightarrow> 32 word \<Rightarrow> 64 word \<Rightarrow> logical_type \<Rightarrow> 'd data_value res" where
  "cast_time32 C v precision to = (case to of
     SqlNull \<Rightarrow> Ok Null
   | TimeT to_precision \<Rightarrow> Ok (Time32 v (precision_or_zero to_precision))
   | _ \<Rightarrow> to_text_opt (format_time C v precision) to (cast_fail (Time32 v precision) to))"

definition cast_time64 ::
  "('d, 't) eval_crates \<Rightarrow> ('d, 't, 'n) cast_crates \<Rightarrow> 64 word \<Rightarrow> 64 word \<Rightarrow> bool \<Rightarrow> logical_type \<Rightarrow>
   'd data_value res" where
  "cast_time64 E C v precision zone to =
    (let failure = cast_fail (Time64 v precision zone) to;
         instant = (\<lambda>f. res_bind (from_timestamp_precision E v precision)
                     (\<lambda>x. case x of Some t \<Rightarrow> f t | None \<Rightarrow> failure))
     in case to of
       SqlNull \<Rightarrow> Ok Null
     | DateT \<Rightarrow> instant (\<lambda>t. Ok (Date32 (word_of_int (dt_num_days C t))))
     | DateTimeT \<Rightarrow> instant (\<lambda>t. Ok (Date64 (word_of_int (dt_timestamp E t))))
     | TimeT p \<Rightarrow>
         instant (\<lambda>t. map_res (\<lambda>w. Time32 w (precision_or_zero p))
           (pack (of_nat (fst (dt_time C t))) (of_nat (snd (dt_time C t))) (precision_or_zero p)))
     | TimeStampT to_precision to_zone \<Rightarrow> Ok (Time64 v (precision_or_zero to_precision) to_zone)
     | _ \<Rightarrow> to_text_opt (format_timestamp E C v precision) to failure)"

definition cast_decimal ::
  "'d crates \<Rightarrow> ('d, 't, 'n) cast_crates \<Rightarrow> 'd \<Rightarrow> logical_type \<Rightarrow> 'd data_value res" where
  "cast_decimal K C d to = (case to of
     SqlNull \<Rightarrow> Ok Null
   | FloatT \<Rightarrow> (case dec_to_f32 C d of Some w \<Rightarrow> Ok (Float32 w) | None \<Rightarrow> cast_fail (Decimal d) to)
   | DoubleT \<Rightarrow> (case dec_to_f64 C d of Some w \<Rightarrow> Ok (Float64 w) | None \<Rightarrow> cast_fail (Decimal d) to)
   | DecimalT _ _ \<Rightarrow> Ok (Decimal d)
   | _ \<Rightarrow>
     (case int_target to of
        Some (mk, sgn_ty, bits) \<Rightarrow> map_res mk (decimal_to_int K C d sgn_ty bits)
      | None \<Rightarrow> to_text (dec_to_string C d) to (cast_fail (Decimal d) to)))"

text \<open>
  The TIMESTAMP cast of a string without precision and zone returns before the check of the length,
  which does not look at timestamps. A tuple casts its elements to the types at their positions.
\<close>

fun cast ::
  "'d crates \<Rightarrow> ('d, 't) eval_crates \<Rightarrow> ('d, 't, 'n) cast_crates \<Rightarrow> 'd data_value \<Rightarrow> logical_type \<Rightarrow>
   'd data_value res"
and cast_values ::
  "'d crates \<Rightarrow> ('d, 't) eval_crates \<Rightarrow> ('d, 't, 'n) cast_crates \<Rightarrow> 'd data_value list \<Rightarrow> logical_type list \<Rightarrow>
   'd data_value list res" where
  "cast K E C self to =
    res_bind
      (case self of
         Null \<Rightarrow> Ok Null
       | Boolean b \<Rightarrow> cast_boolean b to
       | Float32 w \<Rightarrow> cast_float32 C w to
       | Float64 w \<Rightarrow> cast_float64 C w to
       | Int8 w \<Rightarrow> cast_int8 C w to
       | Int16 w \<Rightarrow> cast_int16 C w to
       | Int32 w \<Rightarrow> cast_int32 C w to
       | Int64 w \<Rightarrow> cast_int64 C w to
       | UInt8 w \<Rightarrow> cast_uint8 C w to
       | UInt16 w \<Rightarrow> cast_uint16 C w to
       | UInt32 w \<Rightarrow> cast_uint32 C w to
       | UInt64 w \<Rightarrow> cast_uint64 C w to
       | Utf8 s _ _ \<Rightarrow> cast_utf8 E C self s to
       | Date32 v \<Rightarrow> cast_date32 C v to
       | Date64 v \<Rightarrow> cast_date64 E C v to
       | Time32 v p \<Rightarrow> cast_time32 C v p to
       | Time64 v p z \<Rightarrow> cast_time64 E C v p z to
       | Decimal d \<Rightarrow> cast_decimal K C d to
       | Tuple vals is_upper \<Rightarrow>
           (case to of
              TupleT types \<Rightarrow> map_res (\<lambda>vs. Tuple vs is_upper) (cast_values K E C vals types)
            | _ \<Rightarrow> cast_fail self to))
      (\<lambda>v. res_bind (check_len K v to) (\<lambda>_. Ok v))"
| "cast_values K E C [] types = Ok []"
| "cast_values K E C (v # vs) types = (case types of
     [] \<Rightarrow> Err Panic
   | t # ts \<Rightarrow>
       res_bind (if t \<noteq> logical_type v then cast K E C v t else Ok v)
         (\<lambda>x. map_res (\<lambda>xs. x # xs) (cast_values K E C vs ts)))"

declare cast.simps [simp del]

section \<open>The result of a cast\<close>

text \<open>Concrete functions for the parameters: decimals and dates are integers, and nothing parses.\<close>

definition sample_cast :: "(64 word, int, int) cast_crates" where
  "sample_cast = \<lparr>
     dec_from_f32 = (\<lambda>w. Some (ucast w)), dec_from_f64 = Some, dec_from_int = word_of_int,
     dec_trunc_with_scale = (\<lambda>d _. d), dec_round_dp = (\<lambda>d _. d), dec_to_f32 = (\<lambda>_. None),
     dec_to_f64 = (\<lambda>d. Some (f64_of_int (sint d))), dec_to_i128 = (\<lambda>d. Some (sint d)),
     dec_to_string = (\<lambda>d. int_to_string (sint d)), dec_from_str = (\<lambda>s. map_option word_of_int (parse_int True 64 s)),
     f32_to_string = (\<lambda>_. []), f64_to_string = (\<lambda>_. []), f32_from_str = (\<lambda>_. None), f64_from_str = (\<lambda>_. None),
     date_parse = (\<lambda>_ _. None), date_num_days = id, date_from_num_days = Some, date_midnight = (\<lambda>n. n * 86400),
     date_to_string = (\<lambda>n _. int_to_string n), naive_datetime_parse = (\<lambda>_ _. None), time_parse = (\<lambda>_ _. None),
     datetime_parse = (\<lambda>_ _. None), dt_num_days = (\<lambda>t. t div 86400), dt_time = (\<lambda>t. (nat (t mod 86400), 0)),
     dt_to_string = (\<lambda>t _. int_to_string t), time_to_string = (\<lambda>s _ _. Some (nat_to_string s)) \<rparr>"

text \<open>
  A value that a cast to \<open>to\<close> can return: NULL, or a value of that type, where a time or a timestamp has
  the precision of the type and a string is not longer than it allows.
\<close>

definition settled :: "'d data_value \<Rightarrow> logical_type \<Rightarrow> bool" where
  "settled v to = (case v of
     Null \<Rightarrow> True
   | Utf8 s _ _ \<Rightarrow>
       logical_type v = to \<and>
       (case to of
          CharT n unit \<Rightarrow> \<not> check_string_len s (unat n) unit
        | Varchar (Some n) unit \<Rightarrow> \<not> check_string_len s (unat n) unit
        | _ \<Rightarrow> True)
   | Time32 _ p \<Rightarrow> (case to of TimeT q \<Rightarrow> p = precision_or_zero q | _ \<Rightarrow> False)
   | Time64 _ p z \<Rightarrow> (case to of TimeStampT q zone \<Rightarrow> p = precision_or_zero q \<and> z = zone | _ \<Rightarrow> False)
   | Decimal _ \<Rightarrow> (case to of DecimalT _ _ \<Rightarrow> True | _ \<Rightarrow> False)
   | Tuple _ _ \<Rightarrow> False
   | _ \<Rightarrow> logical_type v = to)"

lemma settled_simps [simp]:
  "settled Null to" "settled (Boolean b) to \<longleftrightarrow> to = BooleanT"
  "settled (Float32 f) to \<longleftrightarrow> to = FloatT" "settled (Float64 d) to \<longleftrightarrow> to = DoubleT"
  "settled (Int8 a) to \<longleftrightarrow> to = Tinyint" "settled (Int16 i) to \<longleftrightarrow> to = Smallint"
  "settled (Int32 j) to \<longleftrightarrow> to = Integer" "settled (Int64 k) to \<longleftrightarrow> to = Bigint"
  "settled (UInt8 a) to \<longleftrightarrow> to = UTinyint" "settled (UInt16 i) to \<longleftrightarrow> to = USmallint"
  "settled (UInt32 j) to \<longleftrightarrow> to = UInteger" "settled (UInt64 k) to \<longleftrightarrow> to = UBigint"
  "settled (Date32 j) to \<longleftrightarrow> to = DateT" "settled (Date64 k) to \<longleftrightarrow> to = DateTimeT"
  "settled (Time32 j p) to \<longleftrightarrow> (\<exists>q. to = TimeT q \<and> p = precision_or_zero q)"
  "settled (Time64 k p z) to \<longleftrightarrow> (\<exists>q. to = TimeStampT q z \<and> p = precision_or_zero q)"
  "settled (Decimal x) to \<longleftrightarrow> (\<exists>l scale. to = DecimalT l scale)"
  by (auto simp: settled_def split: logical_type.splits)

lemma settled_int_target: "int_target to = Some (mk, x) \<Longrightarrow> settled (mk i) to"
  by (cases to) (auto simp: int_target_def)

lemma settled_to_text:
  assumes "to_text s to (Err e) = Ok v"
  shows "settled v to"
  using assms by (cases to) (auto simp: to_text_def varchar_cast_def settled_def split: option.splits if_splits)

lemma settled_to_text_opt:
  assumes "to_text_opt r to (Err e) = Ok v"
  shows "settled v to"
  using assms by (cases to) (auto simp: to_text_opt_def result_simps split: option.splits dest: settled_to_text)

text \<open>What is left when the target is neither one of the special ones nor an integer type.\<close>

lemma settled_int_or_text:
  assumes "(case int_target to of Some (mk, sgn_ty, bits) \<Rightarrow> map_res mk (f sgn_ty bits) | None \<Rightarrow> to_text s to (Err e)) = Ok v"
  shows "settled v to"
  using assms by (auto simp: result_simps settled_int_target split: option.splits dest: settled_to_text)

lemma settled_cast_boolean: "cast_boolean b to = Ok v \<Longrightarrow> settled v to"
  by (cases to) (auto simp: cast_boolean_def int_target_def dest: settled_to_text)

lemma settled_cast_float32: "cast_float32 C w to = Ok v \<Longrightarrow> settled v to"
  using settled_int_or_text [of "f32_to_string C w" to "CastFail FloatT to" "float_to_int_32 w" v]
  by (cases to) (auto simp: cast_float32_def split: option.splits)

lemma settled_cast_float64: "cast_float64 C w to = Ok v \<Longrightarrow> settled v to"
  using settled_int_or_text [of "f64_to_string C w" to "CastFail DoubleT to" "float_to_int_64 w" v]
  by (cases to) (auto simp: cast_float64_def split: option.splits)

lemma settled_cast_number: "cast_number C from i to = Ok v \<Longrightarrow> settled v to"
  by (cases to)
    (auto simp: cast_number_def numeric_to_boolean_def try_from_def int_target_def
      split: if_splits dest: settled_to_text)

lemma settled_string_to_timestamp:
  "string_to_timestamp E C s (precision_or_zero p) z (Err e) = Ok v \<Longrightarrow> settled v (TimeStampT p z)"
  by (auto simp: string_to_timestamp_def Let_def result_simps split: if_splits option.splits)

lemma settled_cast_utf8: "cast_utf8 E C self s to = Ok v \<Longrightarrow> settled v to"
  using settled_int_or_text [of s to "CastFail (logical_type self) to" "\<lambda>sgn_ty bits. of_option ParseInt (parse_int sgn_ty bits s)" v]
  by (cases to)
    (auto simp: cast_utf8_def string_to_datetime_def string_to_time_def
      result_simps Let_def split: option.splits dest: settled_string_to_timestamp)

lemma settled_cast_time:
  "cast_date32 C v32 to = Ok v \<Longrightarrow> settled v to"
  "cast_date64 E C v64 to = Ok v \<Longrightarrow> settled v to"
  "cast_time32 C v32 p to = Ok v \<Longrightarrow> settled v to"
  "cast_time64 E C v64 p z to = Ok v \<Longrightarrow> settled v to"
  by (cases to; force simp: cast_date32_def cast_date64_def cast_time32_def cast_time64_def result_simps Let_def split: option.splits dest: settled_to_text_opt)+

lemma settled_cast_decimal: "cast_decimal K C d to = Ok v \<Longrightarrow> settled v to"
  using settled_int_or_text [of "dec_to_string C d" to "CastFail (DecimalT None None) to" "decimal_to_int K C d" v]
  by (cases to) (auto simp: cast_decimal_def split: option.splits)

lemmas cast_arms = cast_boolean_def cast_float32_def cast_float64_def cast_int8_def cast_int16_def cast_int32_def
  cast_int64_def cast_uint8_def cast_uint16_def cast_uint32_def cast_uint64_def cast_number_def cast_utf8_def
  cast_date32_def cast_date64_def cast_time32_def cast_time64_def cast_decimal_def

lemma int_in_range:
  "int_min True 8 \<le> sint (a :: 8 word) \<and> sint a \<le> int_max True 8"
  "int_min True 16 \<le> sint (b :: 16 word) \<and> sint b \<le> int_max True 16"
  "int_min True 32 \<le> sint (c :: 32 word) \<and> sint c \<le> int_max True 32"
  "int_min True 64 \<le> sint (d :: 64 word) \<and> sint d \<le> int_max True 64"
  "int_min False 8 \<le> uint (a :: 8 word) \<and> uint a \<le> int_max False 8"
  "int_min False 16 \<le> uint (b :: 16 word) \<and> uint b \<le> int_max False 16"
  "int_min False 32 \<le> uint (c :: 32 word) \<and> uint c \<le> int_max False 32"
  "int_min False 64 \<le> uint (d :: 64 word) \<and> uint d \<le> int_max False 64"
  using sint_ge [of a] sint_lt [of a] sint_ge [of b] sint_lt [of b] sint_ge [of c] sint_lt [of c]
    sint_ge [of d] sint_lt [of d] uint_lt2p [of a] uint_lt2p [of b] uint_lt2p [of c] uint_lt2p [of d]
  by (simp_all add: int_min_def int_max_def)

lemma cast_settled:
  assumes "settled v to" "check_len K v to = Ok ()"
  shows "cast K E C v to = Ok v"
proof (cases v)
  case (Utf8 s ty unit)
  then show ?thesis using assms
    by (auto simp: cast.simps cast_utf8_def to_text_def varchar_cast_def settled_def int_target_def
        split: utf8_type.splits option.splits)
next
  case (Tuple vs u)
  then show ?thesis using assms by (simp add: settled_def)
qed (use assms in \<open>auto simp: cast.simps cast_arms int_target_def try_from_def int_in_range Let_def\<close>)

lemma cast_scalar_settled:
  assumes "cast K E C v to = Ok x" "\<And>vs u. v \<noteq> Tuple vs u"
  shows "settled x to \<and> check_len K x to = Ok ()"
  using assms
  by (cases v)
    (auto simp: cast.simps result_simps cast_int8_def cast_int16_def cast_int32_def cast_int64_def cast_uint8_def
      cast_uint16_def cast_uint32_def cast_uint64_def
      dest: settled_cast_boolean settled_cast_float32 settled_cast_float64 settled_cast_number settled_cast_utf8
        settled_cast_time settled_cast_decimal)

lemma settled_tag: "settled v to \<Longrightarrow> value_tag v = 0 \<or> value_tag v = type_tag to"
  by (cases v) (auto simp: settled_def [of "Utf8 _ _ _"] settled_def [of "Tuple _ _"] type_tag_def split: utf8_type.splits)

lemma check_len_Tuple [simp]: "check_len K (Tuple vs u) to = Ok ()"
  by (simp add: check_len_def Let_def split: logical_type.split option.split)

lemma cast_Tuple:
  "cast K E C (Tuple vs u) to = (case to of
     TupleT types \<Rightarrow> map_res (\<lambda>vs. Tuple vs u) (cast_values K E C vs types)
   | _ \<Rightarrow> cast_fail (Tuple vs u) to)"
proof (cases to)
  case (TupleT types)
  then show ?thesis by (cases "cast_values K E C vs types") (simp_all add: cast.simps)
qed (simp_all add: cast.simps)

lemma cast_result:
  assumes "cast K E C v to = Ok x"
  shows "(value_tag x = 0 \<or> value_tag x = type_tag to) \<and> check_len K x to = Ok ()"
proof (cases v)
  case (Tuple vs u)
  then show ?thesis using assms
    by (cases to) (auto simp: cast_Tuple result_simps type_tag_def)
qed (use cast_scalar_settled [OF assms] in \<open>auto dest: settled_tag\<close>)



lemma defined_to_text: "defined other \<Longrightarrow> defined (to_text s to other)"
  by (cases to) (auto simp: to_text_def varchar_cast_def split: option.split)

lemma defined_to_text_opt: "defined r \<Longrightarrow> defined other \<Longrightarrow> defined (to_text_opt r to other)"
  by (cases to) (auto simp: to_text_opt_def intro!: defined_bind defined_to_text split: option.split)

lemma defined_to_int:
  "defined (float_to_int_32 w sgn_ty bits)" "defined (float_to_int_64 u sgn_ty bits)"
  "defined (decimal_to_int K C d sgn_ty bits)"
  by (simp_all add: float_to_int_32_def float_to_int_64_def decimal_to_int_def Let_def)

lemma defined_check_len: "defined (check_len K v to)"
  by (auto simp: check_len_def check_decimal_len_def Let_def split: logical_type.split data_value.split option.split
      utf8_type.split)

lemma defined_timestamp: "defined (from_timestamp_precision E v p)"
  by (simp add: from_timestamp_precision_def Let_def)

lemma defined_formats:
  "defined (format_time C v p)" "defined (format_timestamp E C u p)"
  by (simp_all add: format_time_def format_timestamp_def defined_timestamp)

lemma defined_arms:
  "defined (cast_boolean b to)" "defined (cast_float32 C w to)" "defined (cast_float64 C u to)"
  "defined (cast_number C from i to)" "defined (cast_utf8 E C self s to)" "defined (cast_date32 C w to)"
  "defined (cast_date64 E C u to)" "defined (cast_time32 C w p to)" "defined (cast_time64 E C u p z to)"
  "defined (cast_decimal K C d to)"
  by (cases to; auto simp: cast_boolean_def cast_float32_def cast_float64_def cast_number_def cast_utf8_def cast_date32_def
      cast_date64_def cast_time32_def cast_time64_def cast_decimal_def int_target_def numeric_to_boolean_def try_from_def
      string_to_datetime_def string_to_time_def string_to_timestamp_def Let_def defined_to_int defined_formats
      defined_timestamp intro!: defined_to_text defined_to_text_opt defined_bind split: option.split prod.split)+

text \<open>A cast never reaches code that is declared unreachable without a check.\<close>

lemma cast_defined:
  "defined (cast K E C v to)"
  "defined (cast_values K E C vs types)"
proof (induction K E C v to and K E C vs types rule: cast_cast_values.induct)
  case (1 K E C v to)
  then show ?case
    by (subst cast.simps, cases v)
      (auto simp: defined_arms cast_int8_def cast_int16_def cast_int32_def cast_int64_def cast_uint8_def cast_uint16_def
        cast_uint32_def cast_uint64_def defined_check_len intro!: defined_bind split: logical_type.split)
qed (auto intro!: defined_bind split: list.split)

lemma cast_idempotent_aux:
  "cast K E C v to = Ok x \<Longrightarrow> cast K E C x to = Ok x"
  "cast_values K E C vs types = Ok xs \<Longrightarrow> cast_values K E C xs types = Ok xs"
proof (induction K E C v to and K E C vs types arbitrary: x and xs rule: cast_cast_values.induct)
  case (1 K E C v to)
  show ?case
  proof (cases "\<exists>vs u. v = Tuple vs u")
    case True
    then obtain vs u where "v = Tuple vs u" by blast
    then show ?thesis using 1 by (cases to) (auto simp: cast_Tuple result_simps)
  qed (use cast_scalar_settled [OF 1(2)] cast_settled in blast)
qed (auto simp: result_simps split: list.splits if_splits)

text \<open>
  Casting is idempotent: a value that a cast returned is returned unchanged by the same cast.
\<close>

theorem cast_idempotent:
  assumes "cast K E C v to = Ok x"
  shows "cast K E C x to = Ok x"
  by (rule cast_idempotent_aux(1) [OF assms])

text \<open>The cast of 12 to CHAR(3), repeated.\<close>

theorem cast_idempotent_witness:
  "cast sample_crates sample_eval sample_cast (Utf8 [49, 50] (Fixed 3) Characters) (CharT 3 Characters) =
     Ok (Utf8 [49, 50] (Fixed 3) Characters)"
  by (rule cast_idempotent [of sample_crates sample_eval sample_cast "Int32 12"])
    (simp add: cast.simps cast_int32_def cast_number_def int_target_def to_text_def varchar_cast_def
      int_to_string_def nat_to_string.simps check_string_len_def char_count_def check_len_def)

section \<open>Casts of integers\<close>

definition number :: "'d data_value \<Rightarrow> int option" where
  "number v = (case v of
     Int8 w \<Rightarrow> Some (sint w) | Int16 w \<Rightarrow> Some (sint w) | Int32 w \<Rightarrow> Some (sint w) | Int64 w \<Rightarrow> Some (sint w)
   | UInt8 w \<Rightarrow> Some (uint w) | UInt16 w \<Rightarrow> Some (uint w) | UInt32 w \<Rightarrow> Some (uint w) | UInt64 w \<Rightarrow> Some (uint w)
   | _ \<Rightarrow> None)"

lemma check_len_int_target: "int_target to = Some x \<Longrightarrow> check_len K v to = Ok ()"
  by (cases to) (simp_all add: int_target_def check_len_def)

lemma cast_of_number:
  assumes "number v = Some i"
  shows "cast K E C v to =
    res_bind (cast_number C (logical_type v) i to) (\<lambda>x. res_bind (check_len K x to) (\<lambda>_. Ok x))"
  using assms
  by (cases v)
    (simp_all add: number_def cast.simps cast_int8_def cast_int16_def cast_int32_def cast_int64_def cast_uint8_def
      cast_uint16_def cast_uint32_def cast_uint64_def)

lemma cast_number_int_target:
  assumes "int_target to = Some (mk, sgn_ty, bits)"
  shows "cast_number C from i to = try_from mk sgn_ty bits i"
  using assms by (cases to) (auto simp: cast_number_def int_target_def)

lemma number_int_target:
  fixes mk :: "int \<Rightarrow> 'd data_value"
  assumes "int_target to = Some (mk, sgn_ty, bits)" "int_min sgn_ty bits \<le> i" "i \<le> int_max sgn_ty bits"
  shows "number (mk i) = Some i"
  using assms
  by (cases to)
    (auto simp: int_target_def number_def int_min_def int_max_def uint_word_of_int sint_sbintrunc'
      signed_take_bit_int_eq_self_iff)

text \<open>
  A cast between integer types keeps the number when the target can hold it and is the error TryFromInt
  otherwise; no number is ever changed.
\<close>

theorem cast_integer_exact:
  assumes "number v = Some i" "int_target to = Some (mk, sgn_ty, bits)"
  shows "cast K E C v to =
      (if int_min sgn_ty bits \<le> i \<and> i \<le> int_max sgn_ty bits then Ok (mk i) else Err TryFromInt) \<and>
    (int_min sgn_ty bits \<le> i \<and> i \<le> int_max sgn_ty bits \<longrightarrow> number (mk i) = Some i)"
  using number_int_target [OF assms(2)]
  by (simp add: cast_of_number [OF assms(1)] cast_number_int_target [OF assms(2)] try_from_def
      check_len_int_target [OF assms(2)])

text \<open>-1 as INTEGER to INTEGER UNSIGNED.\<close>

theorem cast_integer_exact_witness:
  "cast sample_crates sample_eval sample_cast (Int32 (- 1)) UInteger = Err TryFromInt"
  using cast_integer_exact [of "Int32 (- 1)" "- 1" UInteger "\<lambda>i. UInt32 (word_of_int i)" False 32 sample_crates
      sample_eval sample_cast]
  by (simp add: number_def int_target_def int_min_def int_max_def)

section \<open>Integers as text and as doubles\<close>

definition digit :: "byte \<Rightarrow> bool" where
  "digit c \<longleftrightarrow> 48 \<le> unat c \<and> unat c \<le> 57"

lemma unat_digit: "n < 10 \<Longrightarrow> unat (of_nat (48 + n) :: byte) = 48 + n"
  by (simp add: unat_of_nat del: of_nat_add)

lemma nat_to_string_digits: "nat_to_string n \<noteq> [] \<and> list_all digit (nat_to_string n)"
proof (induction n rule: nat_to_string.induct)
  case (1 n)
  then show ?case
    by (subst (1 2) nat_to_string.simps) (auto simp: digit_def [of "of_nat _"] unat_digit simp del: of_nat_add)
qed

lemma nat_to_string_value: "foldl (\<lambda>n c. 10 * n + (unat c - 48)) 0 (nat_to_string n) = n"
proof (induction n rule: nat_to_string.induct)
  case (1 n)
  then show ?case
    by (subst nat_to_string.simps) (auto simp: unat_digit simp del: of_nat_add)
qed

lemma parse_digits_nat: "parse_digits (nat_to_string n) = Some n"
  using nat_to_string_digits [of n] nat_to_string_value [of n]
  by (simp add: parse_digits_def digit_def list_all_iff list_ex_iff)

lemma nat_to_string_head:
  obtains c cs where "nat_to_string n = c # cs" "c \<noteq> 43" "c \<noteq> 45"
proof -
  have "\<not> digit 43" "\<not> digit 45" by (simp_all add: digit_def)
  then show thesis using nat_to_string_digits [of n] that by (cases "nat_to_string n") force+
qed

lemma parse_int_to_string:
  assumes "int_min sgn_ty bits \<le> i" "i \<le> int_max sgn_ty bits"
  shows "parse_int sgn_ty bits (int_to_string i) = Some i"
proof (cases "i < 0")
  case True
  then have "sgn_ty" using assms(1) by (simp add: int_min_def split: if_splits)
  then show ?thesis using assms True
    by (simp add: int_to_string_def parse_int_def parse_digits_nat int_min_def int_max_def)
next
  case False
  obtain c cs where c: "nat_to_string (nat i) = c # cs" "c \<noteq> 43" "c \<noteq> 45" by (rule nat_to_string_head)
  then show ?thesis using assms False parse_digits_nat [of "nat i"]
    by (simp add: int_to_string_def parse_int_def int_min_def int_max_def split: if_splits)
qed

lemma int_target_number:
  assumes "number v = Some i"
  shows "\<exists>mk sgn_ty bits. int_target (logical_type v) = Some (mk, sgn_ty, bits) \<and> mk i = v \<and>
    int_min sgn_ty bits \<le> i \<and> i \<le> int_max sgn_ty bits"
  using assms by (cases v; clarsimp simp: number_def int_target_def int_in_range ex_bool_eq)

lemma cast_utf8_int_target:
  assumes "int_target to = Some (mk, sgn_ty, bits)"
  shows "cast_utf8 E C self s to = map_res mk (of_option ParseInt (parse_int sgn_ty bits s))"
  using assms by (cases to) (auto simp: cast_utf8_def int_target_def)

text \<open>
  C34: An integer of any type survives the way through its text: the cast to VARCHAR succeeds, and the cast
  of that string to the integer's type gives it back.
\<close>

theorem cast_text_roundtrip:
  assumes "number v = Some i"
  shows "\<exists>s. cast K E C v (Varchar None unit) = Ok (Utf8 s (Variable None) unit) \<and>
    cast K E C (Utf8 s (Variable None) unit) (logical_type v) = Ok v"
proof (intro exI conjI)
  show "cast K E C v (Varchar None unit) = Ok (Utf8 (int_to_string i) (Variable None) unit)"
    by (simp add: cast_of_number [OF assms] cast_number_def int_target_def to_text_def varchar_cast_def check_len_def)
  from int_target_number [OF assms] obtain mk sgn_ty bits where t:
    "int_target (logical_type v) = Some (mk, sgn_ty, bits)" "mk i = v" "int_min sgn_ty bits \<le> i" "i \<le> int_max sgn_ty bits"
    by blast
  show "cast K E C (Utf8 (int_to_string i) (Variable None) unit) (logical_type v) = Ok v"
    using parse_int_to_string [OF t(3,4)] t(2)
    by (simp add: cast.simps cast_utf8_int_target [OF t(1)] of_option_def check_len_int_target [OF t(1)])
qed

text \<open>The smallest INTEGER.\<close>

theorem cast_text_roundtrip_witness:
  "\<exists>s. cast sample_crates sample_eval sample_cast (Int32 0x80000000) (Varchar None Octets) = Ok (Utf8 s (Variable None) Octets) \<and>
    cast sample_crates sample_eval sample_cast (Utf8 s (Variable None) Octets) (logical_type (Int32 0x80000000 :: 64 word data_value)) =
      Ok (Int32 0x80000000)"
  by (rule cast_text_roundtrip [of _ "- 2147483648"]) (simp add: number_def)

lemmas float_eval = f64_of_int_def f64_encode_def flt_of_int_def fl_encode_def scaled_num_def scaled_den_def
  fl_round_def ratio_exp_def log2n.simps fl_bias_def fl_pack_def fl_inf_def div_half_even_def f64_key_def

lemma f64_key_of_int_max: "f64_key (f64_of_int 9223372036854775807) = 1086 * 2 ^ 52"
  by (simp add: float_eval)

lemma f64_key_binades:
  fixes d :: "64 word"
  assumes "1023 * 2 ^ 52 \<le> unat d" "unat d < 1076 * 2 ^ 52"
  shows "\<not> f64_is_nan d" "0 < f64_key d" "f64_key d \<le> 1086 * 2 ^ 52"
proof -
  have "int (1023 * 2 ^ 52) \<le> int (unat d)" "int (unat d) < int (1076 * 2 ^ 52)"
    using assms by (simp_all only: of_nat_le_iff of_nat_less_iff)
  then show "\<not> f64_is_nan d" "0 < f64_key d" "f64_key d \<le> 1086 * 2 ^ 52"
    using assms by (simp_all add: f64_is_nan_def f64_key_def)
qed

text \<open>
  A positive integer below \<open>2 ^ 53\<close> survives the way through a double.
\<close>

theorem cast_double_roundtrip:
  assumes "0 < sint w" "sint w < 2 ^ 53"
  shows "\<exists>d. cast K E C (Int64 w) DoubleT = Ok (Float64 d) \<and> cast K E C (Float64 d) Bigint = Ok (Int64 w)"
proof (intro exI conjI)
  let ?d = "f64_of_int (sint w)"
  show "cast K E C (Int64 w) DoubleT = Ok (Float64 ?d)"
    by (simp add: cast.simps cast_int64_def cast_number_def check_len_def)
  have "\<not> f64_is_nan ?d" "0 < f64_key ?d" "f64_key ?d \<le> f64_key (f64_of_int 9223372036854775807)"
    unfolding f64_key_of_int_max by (rule f64_key_binades [OF f64_of_int_bits [OF assms]])+
  moreover have "flt_trunc (f64_decode ?d) = sint w" using f64_of_int_exact [of "sint w"] assms by simp
  ultimately have "float_to_int_64 ?d True 64 = Ok (sint w)"
    using assms by (simp add: float_to_int_64_def int_max_def)
  then show "cast K E C (Float64 ?d) Bigint = Ok (Int64 w)"
    by (simp add: cast.simps cast_float64_def int_target_def check_len_def)
qed

text \<open>42 through a double.\<close>

theorem cast_double_roundtrip_witness:
  "\<exists>d. cast sample_crates sample_eval sample_cast (Int64 42) DoubleT = Ok (Float64 d) \<and>
    cast sample_crates sample_eval sample_cast (Float64 d) Bigint = Ok (Int64 42)"
  by (rule cast_double_roundtrip) simp_all

text \<open>
  The same way fails for zero and for every negative number: \<open>float_to_int!\<close> takes them for an overflow.
\<close>

theorem cast_double_nonpositive:
  "cast K E C (Float64 0) Integer = Err OverFlow \<and>
   cast K E C (Float64 (f64_of_int (- 1))) Integer = Err OverFlow"
proof -
  have "f64_key 0 = 0" "f64_key (f64_of_int (- 1)) < 0" "\<not> f64_is_nan 0" "\<not> f64_is_nan (f64_of_int (- 1))"
    by (simp_all add: float_eval f64_is_nan_def)
  then show ?thesis
    by (simp add: cast.simps cast_float64_def int_target_def float_to_int_64_def)
qed

text \<open>
  A string that is not a date panics in a cast to DATE, and is an error in a cast to DATETIME.
\<close>

theorem cast_date_panics:
  assumes "date_parse C s DATE_FMT = None" "naive_datetime_parse C s DATE_TIME_FMT = None"
  shows "cast K E C (Utf8 s ty unit) DateT = Err Panic \<and> cast K E C (Utf8 s ty unit) DateTimeT = Err ParseDate"
  using assms by (simp add: cast.simps cast_utf8_def string_to_datetime_def of_option_def)

text \<open>
  A cast to TIMESTAMP(3) without a zone never succeeds on a string: the format it parses with has no
  offset, and chrono's \<open>DateTime::parse_from_str\<close> is documented to require one in the string.
\<close>

theorem cast_timestamp_needs_zone:
  assumes "\<And>s. datetime_parse C s TIME_STAMP_FMT_WITHOUT_ZONE = None"
  shows "cast K E C (Utf8 s ty unit) (TimeStampT (Some 3) False) = Err ParseDate"
  using assms
  by (simp add: cast.simps cast_utf8_def string_to_timestamp_def timestamp_format_def precision_or_zero_def)

end
