(* ===== verification/Expression.thy ===== *)
theory Expression
  imports Cast
begin

text \<open>
  Scalar expressions: the datatypes of \<open>src/src/expression/mod.rs\<close> and \<open>src/src/catalog/column.rs\<close>, their types
  and output columns, the traversals of \<open>visitor_mut.rs\<close>, the built-in scalar functions, and the evaluation
  of \<open>src/src/expression/evaluator.rs\<close>.
\<close>

section \<open>Columns and expressions\<close>

type_synonym column_id = "128 word"

datatype column_relation =
    NoRelation
  | TableRelation (rel_column_id: column_id) (rel_table_name: rstring) (is_temp: bool)

record column_summary =
  column_name :: rstring
  relation :: column_relation

datatype agg_kind = Avg | Max | Min | Sum | Count

datatype trim_where_field = Both | Leading | Trailing

record function_summary =
  function_name :: rstring
  arg_types :: "logical_type list"

text \<open>
  The built-in scalar functions of \<open>src/src/function\<close>; \<open>OtherFunction\<close> is a function that a user registers,
  with its return type. A table function is named by its summary.
\<close>

datatype scalar_function_impl =
    CharLength function_summary
  | Lower function_summary
  | Upper function_summary
  | OctetLength function_summary
  | CurrentDate function_summary
  | CurrentTimeStamp function_summary
  | OtherFunction function_summary logical_type

datatype (plugins only: size code) 'd scalar_expression =
    Constant "'d data_value"
  | ColumnRef "'d column_catalog"
  | Alias "'d scalar_expression" "'d alias_type"
  | TypeCast "'d scalar_expression" logical_type
  | IsNull bool "'d scalar_expression"
  | Unary unary_operator "'d scalar_expression" "unary_evaluator option" logical_type
  | Binary binary_operator "'d scalar_expression" "'d scalar_expression" "binary_evaluator option" logical_type
  | AggCall bool agg_kind "'d scalar_expression list" logical_type
  | In bool "'d scalar_expression" "'d scalar_expression list"
  | Between bool "'d scalar_expression" "'d scalar_expression" "'d scalar_expression"
  | SubString "'d scalar_expression" "'d scalar_expression option" "'d scalar_expression option"
  | Position "'d scalar_expression" "'d scalar_expression"
  | Trim "'d scalar_expression" "'d scalar_expression option" "trim_where_field option"
  | EmptyExpr
  | Reference "'d scalar_expression" nat
  | TupleExpr "'d scalar_expression list"
  | ScalaFunction scalar_function_impl "'d scalar_expression list"
  | TableFunction function_summary "'d scalar_expression list"
  | IfExpr "'d scalar_expression" "'d scalar_expression" "'d scalar_expression" logical_type
  | IfNull "'d scalar_expression" "'d scalar_expression" logical_type
  | NullIf "'d scalar_expression" "'d scalar_expression" logical_type
  | Coalesce "'d scalar_expression list" logical_type
  | CaseWhen "'d scalar_expression option" "('d scalar_expression \<times> 'd scalar_expression) list"
      "'d scalar_expression option" logical_type
and 'd alias_type =
    AliasName rstring
  | AliasExpr "'d scalar_expression"
and 'd column_catalog =
    ColumnCatalog (summary: column_summary) (nullable: bool) (desc: "'d column_desc") (in_join: bool)
and 'd column_desc =
    ColumnDesc (column_datatype: logical_type) (primary: "nat option") (is_unique: bool)
      (default: "'d scalar_expression option")

section \<open>Functions of other crates\<close>

text \<open>
  Besides the records of the evaluators and the casts: the \<open>regex\<close> crate, Unicode case mapping, the text of
  floats, sqlparser's text of the length units, the clock, and the functions that users register. A
  scalar function gets the results of evaluating its arguments.
\<close>

record ('d, 't, 'n) env =
  base :: "'d crates"
  evals :: "('d, 't) eval_crates"
  casts :: "('d, 't, 'n) cast_crates"
  regex_escape :: "rstring \<Rightarrow> rstring"
  regex_replace_all :: "rstring \<Rightarrow> rstring \<Rightarrow> rstring option"
  to_lowercase :: "rstring \<Rightarrow> rstring"
  to_uppercase :: "rstring \<Rightarrow> rstring"
  f32_debug :: "32 word \<Rightarrow> rstring"
  f64_debug :: "64 word \<Rightarrow> rstring"
  f32_fixed :: "32 word \<Rightarrow> nat \<Rightarrow> rstring"
  f64_fixed :: "64 word \<Rightarrow> nat \<Rightarrow> rstring"
  units_to_string :: "char_length_units \<Rightarrow> rstring"
  today :: int
  now :: int
  other_function :: "function_summary \<Rightarrow> 'd data_value res list \<Rightarrow> 'd data_value res"

abbreviation cast_in :: "('d, 't, 'n) env \<Rightarrow> 'd data_value \<Rightarrow> logical_type \<Rightarrow> 'd data_value res" where
  "cast_in X v to \<equiv> cast (base X) (evals X) (casts X) v to"

section \<open>Text of values, types and operators\<close>

abbreviation lit :: "string \<Rightarrow> rstring res" where
  "lit s \<equiv> Ok (ascii s)"

text \<open>The pieces of a \<open>format!\<close>, and the \<open>join\<close> of itertools.\<close>

definition fmt :: "rstring res list \<Rightarrow> rstring res" where
  "fmt pieces = map_res concat (res_map id pieces)"

fun join_with :: "rstring \<Rightarrow> rstring list \<Rightarrow> rstring" where
  "join_with sep [] = []"
| "join_with sep [s] = s"
| "join_with sep (s # t # ts) = s @ sep @ join_with sep (t # ts)"

definition float_text :: "rstring \<Rightarrow> (nat \<Rightarrow> rstring) \<Rightarrow> rstring" where
  "float_text debug fixed =
    (let before = takeWhile (\<lambda>c. c \<noteq> 46) debug in
     if length before < length debug then fixed (length debug - length before - 1) else fixed 1)"

fun display_value :: "('d, 't, 'n) env \<Rightarrow> 'd data_value \<Rightarrow> rstring res" where
  "display_value X (Boolean b) = Ok (bool_to_string b)"
| "display_value X (Float32 w) = Ok (float_text (f32_debug X w) (f32_fixed X w))"
| "display_value X (Float64 w) = Ok (float_text (f64_debug X w) (f64_fixed X w))"
| "display_value X (Int8 w) = Ok (int_to_string (sint w))"
| "display_value X (Int16 w) = Ok (int_to_string (sint w))"
| "display_value X (Int32 w) = Ok (int_to_string (sint w))"
| "display_value X (Int64 w) = Ok (int_to_string (sint w))"
| "display_value X (UInt8 w) = Ok (int_to_string (uint w))"
| "display_value X (UInt16 w) = Ok (int_to_string (uint w))"
| "display_value X (UInt32 w) = Ok (int_to_string (uint w))"
| "display_value X (UInt64 w) = Ok (int_to_string (uint w))"
| "display_value X (Utf8 s _ _) = Ok s"
| "display_value X Null = lit ''null''"
| "display_value X (Date32 v) = of_option Panic (format_date (casts X) v)"
| "display_value X (Date64 v) = of_option Panic (format_datetime (evals X) (casts X) v)"
| "display_value X (Time32 v p) = res_bind (format_time (casts X) v p) (of_option Panic)"
| "display_value X (Time64 v p _) = res_bind (format_timestamp (evals X) (casts X) v p) (of_option Panic)"
| "display_value X (Decimal d) = Ok (dec_to_string (casts X) d)"
| "display_value X (Tuple vs _) =
     res_bind (res_map (display_value X) vs) (\<lambda>ss. fmt [lit ''('', Ok (join_with (ascii '', '') ss), lit '')''])"

definition debug_option :: "('a::len word) option \<Rightarrow> rstring" where
  "debug_option x = (case x of
     None \<Rightarrow> ascii ''None''
   | Some w \<Rightarrow> ascii ''Some('' @ nat_to_string (unat w) @ ascii '')'')"

fun display_type :: "('d, 't, 'n) env \<Rightarrow> logical_type \<Rightarrow> rstring" where
  "display_type X SqlNull = ascii ''SqlNull''"
| "display_type X BooleanT = ascii ''Boolean''"
| "display_type X Tinyint = ascii ''Tinyint''"
| "display_type X UTinyint = ascii ''UTinyint''"
| "display_type X Smallint = ascii ''Smallint''"
| "display_type X USmallint = ascii ''USmallint''"
| "display_type X Integer = ascii ''Integer''"
| "display_type X UInteger = ascii ''UInteger''"
| "display_type X Bigint = ascii ''Bigint''"
| "display_type X UBigint = ascii ''UBigint''"
| "display_type X FloatT = ascii ''Float''"
| "display_type X DoubleT = ascii ''Double''"
| "display_type X (CharT len units) =
     ascii ''Char('' @ nat_to_string (unat len) @ ascii '', '' @ units_to_string X units @ ascii '')''"
| "display_type X (Varchar len units) =
     ascii ''Varchar('' @ debug_option len @ ascii '', '' @ units_to_string X units @ ascii '')''"
| "display_type X DateT = ascii ''Date''"
| "display_type X DateTimeT = ascii ''DateTime''"
| "display_type X (TimeStampT precision zone) =
     ascii ''TimeStamp('' @ debug_option precision @ ascii '', '' @ bool_to_string zone @ ascii '')''"
| "display_type X (TimeT precision) = ascii ''Time('' @ debug_option precision @ ascii '')''"
| "display_type X (DecimalT precision scale) =
     ascii ''Decimal('' @ debug_option precision @ ascii '', '' @ debug_option scale @ ascii '')''"
| "display_type X (TupleT types) =
     ascii ''('' @ join_with (ascii '', '') (map (display_type X) types) @ ascii '')''"

definition display_escape :: "32 word option \<Rightarrow> rstring" where
  "display_escape c = (case c of None \<Rightarrow> [] | Some w \<Rightarrow> ascii ''(escape: '' @ char_bytes w @ ascii '')'')"

definition display_binary_operator :: "binary_operator \<Rightarrow> rstring" where
  "display_binary_operator op = (case op of
     Plus \<Rightarrow> ascii ''+'' | Minus \<Rightarrow> ascii ''-'' | Multiply \<Rightarrow> ascii ''*'' | Divide \<Rightarrow> ascii ''/''
   | Modulo \<Rightarrow> ascii ''mod'' | StringConcat \<Rightarrow> ascii ''&''
   | Gt \<Rightarrow> ascii ''>'' | Lt \<Rightarrow> ascii ''<'' | GtEq \<Rightarrow> ascii ''>='' | LtEq \<Rightarrow> ascii ''<=''
   | Spaceship \<Rightarrow> ascii ''<=>'' | OpEq \<Rightarrow> ascii ''='' | NotEq \<Rightarrow> ascii ''!=''
   | And \<Rightarrow> ascii ''&&'' | Or \<Rightarrow> ascii ''||''
   | Like c \<Rightarrow> ascii ''like'' @ display_escape c
   | NotLike c \<Rightarrow> ascii ''not like'' @ display_escape c)"

definition display_unary_operator :: "unary_operator \<Rightarrow> rstring" where
  "display_unary_operator op = (case op of UPlus \<Rightarrow> ascii ''+'' | UMinus \<Rightarrow> ascii ''-'' | UNot \<Rightarrow> ascii ''!'')"

definition debug_agg_kind :: "agg_kind \<Rightarrow> rstring" where
  "debug_agg_kind k = (case k of
     Avg \<Rightarrow> ascii ''Avg'' | Max \<Rightarrow> ascii ''Max'' | Min \<Rightarrow> ascii ''Min'' | Sum \<Rightarrow> ascii ''Sum'' | Count \<Rightarrow> ascii ''Count'')"

definition allow_distinct :: "agg_kind \<Rightarrow> bool" where
  "allow_distinct k = (case k of Avg \<Rightarrow> False | Max \<Rightarrow> False | Min \<Rightarrow> False | Sum \<Rightarrow> True | Count \<Rightarrow> True)"

section \<open>Columns\<close>

definition column_id_of :: "'d column_catalog \<Rightarrow> column_id option" where
  "column_id_of col = (case relation (summary col) of NoRelation \<Rightarrow> None | TableRelation i _ _ \<Rightarrow> Some i)"

definition table_name_of :: "'d column_catalog \<Rightarrow> rstring option" where
  "table_name_of col = (case relation (summary col) of NoRelation \<Rightarrow> None | TableRelation _ t _ \<Rightarrow> Some t)"

definition full_name :: "'d column_catalog \<Rightarrow> rstring" where
  "full_name col = (case table_name_of col of
     Some table_name \<Rightarrow> table_name @ ascii ''.'' @ column_name (summary col)
   | None \<Rightarrow> column_name (summary col))"

definition column_new :: "rstring \<Rightarrow> bool \<Rightarrow> 'd column_desc \<Rightarrow> 'd column_catalog" where
  "column_new name null column_desc =
    ColumnCatalog \<lparr> column_name = name, relation = NoRelation \<rparr> null column_desc False"

definition datatype_of :: "'d column_catalog \<Rightarrow> logical_type" where
  "datatype_of col = column_datatype (desc col)"

definition nullable_for_join :: "'d column_catalog \<Rightarrow> bool \<Rightarrow> 'd column_catalog option" where
  "nullable_for_join col null =
    (if nullable col = null then None else Some (ColumnCatalog (summary col) null (desc col) True))"

section \<open>Types and properties of expressions\<close>

definition function_summary_of :: "scalar_function_impl \<Rightarrow> function_summary" where
  "function_summary_of f = (case f of
     CharLength s \<Rightarrow> s | Lower s \<Rightarrow> s | Upper s \<Rightarrow> s | OctetLength s \<Rightarrow> s | CurrentDate s \<Rightarrow> s
   | CurrentTimeStamp s \<Rightarrow> s | OtherFunction s _ \<Rightarrow> s)"

definition function_return_type :: "scalar_function_impl \<Rightarrow> logical_type" where
  "function_return_type f = (case f of
     CharLength _ \<Rightarrow> Varchar None Characters
   | Lower _ \<Rightarrow> Varchar None Characters
   | Upper _ \<Rightarrow> Varchar None Characters
   | OctetLength _ \<Rightarrow> Varchar None Characters
   | CurrentDate _ \<Rightarrow> DateT
   | CurrentTimeStamp _ \<Rightarrow> TimeStampT None False
   | OtherFunction _ ty \<Rightarrow> ty)"

fun return_type :: "'d scalar_expression \<Rightarrow> logical_type res" where
  "return_type (Constant v) = Ok (logical_type v)"
| "return_type (ColumnRef col) = Ok (datatype_of col)"
| "return_type (Binary _ _ _ _ ty) = Ok ty"
| "return_type (Unary _ _ _ ty) = Ok ty"
| "return_type (TypeCast _ ty) = Ok ty"
| "return_type (AggCall _ _ _ ty) = Ok ty"
| "return_type (IfExpr _ _ _ ty) = Ok ty"
| "return_type (IfNull _ _ ty) = Ok ty"
| "return_type (NullIf _ _ ty) = Ok ty"
| "return_type (Coalesce _ ty) = Ok ty"
| "return_type (CaseWhen _ _ _ ty) = Ok ty"
| "return_type (IsNull _ _) = Ok BooleanT"
| "return_type (In _ _ _) = Ok BooleanT"
| "return_type (Between _ _ _ _) = Ok BooleanT"
| "return_type (SubString _ _ _) = Ok (Varchar None Characters)"
| "return_type (Position _ _) = Ok Integer"
| "return_type (Trim _ _ _) = Ok (Varchar None Characters)"
| "return_type (Alias e _) = return_type e"
| "return_type (Reference e _) = return_type e"
| "return_type EmptyExpr = Err Panic"
| "return_type (TableFunction _ _) = Err Panic"
| "return_type (TupleExpr es) = map_res TupleT (res_map return_type es)"
| "return_type (ScalaFunction f _) = Ok (function_return_type f)"

function unpack_alias :: "'d scalar_expression \<Rightarrow> 'd scalar_expression" where
  "unpack_alias (Alias e (AliasExpr a)) = unpack_alias a"
| "unpack_alias (Alias e (AliasName n)) = unpack_alias e"
| "(\<And>x y. e \<noteq> Alias x y) \<Longrightarrow> unpack_alias e = e"
  by (auto, metis alias_type.exhaust)
termination by (relation "measure size") auto

text \<open>The expressions directly below an expression, in the order the traversals visit them.\<close>

definition option_list :: "'a option \<Rightarrow> 'a list" where
  "option_list x = (case x of None \<Rightarrow> [] | Some y \<Rightarrow> [y])"

fun children :: "'d scalar_expression \<Rightarrow> 'd scalar_expression list" where
  "children (Alias e _) = [e]"
| "children (TypeCast e _) = [e]"
| "children (IsNull _ e) = [e]"
| "children (Unary _ e _ _) = [e]"
| "children (Binary _ l r _ _) = [l, r]"
| "children (AggCall _ _ args _) = args"
| "children (In _ e args) = e # args"
| "children (Between _ e l r) = [e, l, r]"
| "children (SubString e for_e from_e) = e # option_list for_e @ option_list from_e"
| "children (Position e in_e) = [e, in_e]"
| "children (Trim e what _) = e # option_list what"
| "children (Reference e _) = [e]"
| "children (TupleExpr es) = es"
| "children (ScalaFunction _ args) = args"
| "children (TableFunction _ args) = args"
| "children (IfExpr c l r _) = [c, l, r]"
| "children (IfNull l r _) = [l, r]"
| "children (NullIf l r _) = [l, r]"
| "children (Coalesce es _) = es"
| "children (CaseWhen operand pairs else_e _) =
     option_list operand @ concat (map (\<lambda>(a, b). [a, b]) pairs) @ option_list else_e"
| "children (Constant _) = []"
| "children (ColumnRef _) = []"
| "children EmptyExpr = []"

lemma member_size: "c \<in> set xs \<Longrightarrow> size c < size_list size xs"
  by (induction xs) auto

lemma member_size_pair:
  "(a, b) \<in> set ps \<Longrightarrow> size a < size_list (size_prod size size) ps \<and> size b < size_list (size_prod size size) ps"
  by (induction ps) auto

lemma children_size: "c \<in> set (children e) \<Longrightarrow> size c < size e"
  by (cases e) (auto simp: option_list_def split: option.splits dest: member_size member_size_pair)

text \<open>
  \<open>walk_mut_expr\<close> with the default methods of \<open>VisitorMut\<close>: the visitor \<open>f\<close> is applied to the expressions
  directly below, in order, until one fails.
\<close>

fun walk_mut_expr ::
  "('d scalar_expression \<Rightarrow> 'd scalar_expression res) \<Rightarrow> 'd scalar_expression \<Rightarrow> 'd scalar_expression res" where
  "walk_mut_expr f (Alias e a) = map_res (\<lambda>e. Alias e a) (f e)"
| "walk_mut_expr f (TypeCast e ty) = map_res (\<lambda>e. TypeCast e ty) (f e)"
| "walk_mut_expr f (IsNull negated e) = map_res (IsNull negated) (f e)"
| "walk_mut_expr f (Unary op e ev ty) = map_res (\<lambda>e. Unary op e ev ty) (f e)"
| "walk_mut_expr f (Binary op l r ev ty) = res_bind (f l) (\<lambda>l. map_res (\<lambda>r. Binary op l r ev ty) (f r))"
| "walk_mut_expr f (AggCall dist kind args ty) = map_res (\<lambda>args. AggCall dist kind args ty) (res_map f args)"
| "walk_mut_expr f (In negated e args) = res_bind (f e) (\<lambda>e. map_res (In negated e) (res_map f args))"
| "walk_mut_expr f (Between negated e l r) =
     res_bind (f e) (\<lambda>e. res_bind (f l) (\<lambda>l. map_res (Between negated e l) (f r)))"
| "walk_mut_expr f (SubString e for_e from_e) =
     res_bind (f e) (\<lambda>e. res_bind (opt_res f for_e) (\<lambda>for_e. map_res (SubString e for_e) (opt_res f from_e)))"
| "walk_mut_expr f (Position e in_e) = res_bind (f e) (\<lambda>e. map_res (Position e) (f in_e))"
| "walk_mut_expr f (Trim e what where_f) =
     res_bind (f e) (\<lambda>e. map_res (\<lambda>what. Trim e what where_f) (opt_res f what))"
| "walk_mut_expr f (Reference e pos) = map_res (\<lambda>e. Reference e pos) (f e)"
| "walk_mut_expr f (TupleExpr es) = map_res TupleExpr (res_map f es)"
| "walk_mut_expr f (ScalaFunction impl args) = map_res (ScalaFunction impl) (res_map f args)"
| "walk_mut_expr f (TableFunction impl args) = map_res (TableFunction impl) (res_map f args)"
| "walk_mut_expr f (IfExpr c l r ty) =
     res_bind (f c) (\<lambda>c. res_bind (f l) (\<lambda>l. map_res (\<lambda>r. IfExpr c l r ty) (f r)))"
| "walk_mut_expr f (IfNull l r ty) = res_bind (f l) (\<lambda>l. map_res (\<lambda>r. IfNull l r ty) (f r))"
| "walk_mut_expr f (NullIf l r ty) = res_bind (f l) (\<lambda>l. map_res (\<lambda>r. NullIf l r ty) (f r))"
| "walk_mut_expr f (Coalesce es ty) = map_res (\<lambda>es. Coalesce es ty) (res_map f es)"
| "walk_mut_expr f (CaseWhen operand pairs else_e ty) =
     res_bind (opt_res f operand) (\<lambda>operand.
       res_bind (res_map (\<lambda>(a, b). res_bind (f a) (\<lambda>a. map_res (Pair a) (f b))) pairs) (\<lambda>pairs.
         map_res (\<lambda>else_e. CaseWhen operand pairs else_e ty) (opt_res f else_e)))"
| "walk_mut_expr f (Constant v) = Ok (Constant v)"
| "walk_mut_expr f (ColumnRef col) = Ok (ColumnRef col)"
| "walk_mut_expr f EmptyExpr = Ok EmptyExpr"

lemma walk_mut_expr_cong [fundef_cong]:
  assumes "e = e'" "\<And>c. c \<in> set (children e') \<Longrightarrow> f c = g c"
  shows "walk_mut_expr f e = walk_mut_expr g e'"
proof -
  have l: "res_map f xs = res_map g xs" if "set xs \<subseteq> set (children e')" for xs
    using that assms(2) by (intro res_map_cong) auto
  have o: "opt_res f x = opt_res g x" if "set_option x \<subseteq> set (children e')" for x
    using that assms(2) by (intro opt_res_cong) auto
  have "res_bind (f a) (\<lambda>a. map_res (Pair a) (f b)) = res_bind (g a) (\<lambda>a. map_res (Pair a) (g b))"
    if "a \<in> set (children e')" "b \<in> set (children e')" for a b
    using that assms(2) by simp
  then have p: "res_map (\<lambda>(a, b). res_bind (f a) (\<lambda>a. map_res (Pair a) (f b))) xs =
      res_map (\<lambda>(a, b). res_bind (g a) (\<lambda>a. map_res (Pair a) (g b))) xs"
    if "set (concat (map (\<lambda>(a, b). [a, b]) xs)) \<subseteq> set (children e')" for xs
    using that by (intro res_map_cong) force+
  have "set_option x = set (option_list x)" for x :: "'a scalar_expression option"
    by (cases x) (simp_all add: option_list_def)
  then show ?thesis
    unfolding assms(1) using assms(2) l o p
    by (cases e') (simp_all add: subset_iff)
qed

text \<open>The lookups in an expression: short-circuit search below, and the visitor \<open>HasCountStar\<close>.\<close>

fun any_res :: "('a \<Rightarrow> bool res) \<Rightarrow> 'a list \<Rightarrow> bool res" where
  "any_res f [] = Ok False"
| "any_res f (x # xs) = res_bind (f x) (\<lambda>b. if b then Ok True else any_res f xs)"

lemma any_res_cong [fundef_cong]:
  "xs = ys \<Longrightarrow> (\<And>x. x \<in> set ys \<Longrightarrow> f x = g x) \<Longrightarrow> any_res f xs = any_res g ys"
  by (induction xs arbitrary: ys) (auto intro!: res_bind_cong)

function has_table_ref_column :: "'d scalar_expression \<Rightarrow> bool" where
  "has_table_ref_column e = (case e of
     ColumnRef col \<Rightarrow> table_name_of col \<noteq> None \<and> column_id_of col \<noteq> None
   | _ \<Rightarrow> list_ex has_table_ref_column (children e))"
  by auto
termination by (relation "measure size") (auto simp del: children.simps scalar_expression.size intro: children_size)

function has_agg_call :: "'d scalar_expression \<Rightarrow> bool res" where
  "has_agg_call e = (case e of
     AggCall _ _ _ _ \<Rightarrow> Ok True
   | Reference _ _ \<Rightarrow> Err Panic
   | EmptyExpr \<Rightarrow> Err Panic
   | TableFunction _ _ \<Rightarrow> Err Panic
   | _ \<Rightarrow> any_res has_agg_call (children e))"
  by auto
termination by (relation "measure size") (auto simp del: children.simps scalar_expression.size intro: children_size)

function has_count_star :: "'d scalar_expression \<Rightarrow> bool" where
  "has_count_star e = (case e of
     AggCall _ _ args _ \<Rightarrow> (case args of [Constant (Utf8 s _ _)] \<Rightarrow> s = ascii ''*'' | _ \<Rightarrow> False)
   | _ \<Rightarrow> list_ex has_count_star (children e))"
  by auto
termination by (relation "measure size") (auto simp del: children.simps scalar_expression.size intro: children_size)

declare has_table_ref_column.simps [simp del] has_agg_call.simps [simp del] has_count_star.simps [simp del]

definition column_desc_new ::
  "logical_type \<Rightarrow> nat option \<Rightarrow> bool \<Rightarrow> 'd scalar_expression option \<Rightarrow> 'd column_desc res" where
  "column_desc_new ty prim unique dflt =
    (if (case dflt of Some e \<Rightarrow> has_table_ref_column e | None \<Rightarrow> False) then Err DefaultNotColumnRef
     else Ok (ColumnDesc ty prim unique dflt))"

section \<open>Output columns\<close>

definition join_res :: "rstring list res \<Rightarrow> rstring res" where
  "join_res r = map_res (join_with (ascii '', '')) r"

definition quoted :: "rstring \<Rightarrow> rstring" where
  "quoted s = [39] @ s @ [39]"

definition trim_text :: "trim_where_field option \<Rightarrow> rstring \<Rightarrow> rstring" where
  "trim_text where_f what = (case where_f of
     Some Both \<Rightarrow> ascii ''both '' @ quoted what @ ascii '' from''
   | Some Leading \<Rightarrow> ascii ''leading '' @ quoted what @ ascii '' from''
   | Some Trailing \<Rightarrow> ascii ''trailing '' @ quoted what @ ascii '' from''
   | None \<Rightarrow> if what = [] then [] else quoted what @ ascii '' from'')"


fun output_name :: "('d, 't, 'n) env \<Rightarrow> 'd scalar_expression \<Rightarrow> rstring res" where
  "output_name X (Constant v) = display_value X v"
| "output_name X (ColumnRef col) = Ok (full_name col)"
| "output_name X (Alias e (AliasName n)) = Ok n"
| "output_name X (Alias e (AliasExpr a)) =
     fmt [lit ''('', output_name X e, lit '') as ('', output_name X a, lit '')'']"
| "output_name X (TypeCast e ty) =
     fmt [lit ''cast ('', output_name X e, lit '' as '', Ok (display_type X ty), lit '')'']"
| "output_name X (IsNull negated e) =
     fmt [output_name X e, lit '' '', if negated then lit ''is not null'' else lit ''is null'']"
| "output_name X (Unary op e _ _) = fmt [Ok (display_unary_operator op), output_name X e]"
| "output_name X (Binary op l r _ _) =
     fmt [lit ''('', output_name X l, lit '' '', Ok (display_binary_operator op), lit '' '', output_name X r, lit '')'']"
| "output_name X (AggCall dist kind args _) =
     fmt [Ok (debug_agg_kind kind), lit ''('', if allow_distinct kind \<and> dist then lit ''distinct '' else Ok [],
       join_res (res_map (output_name X) args), lit '')'']"
| "output_name X (In negated e args) =
     res_bind (join_res (res_map (output_name X) args)) (\<lambda>args_string.
       fmt [output_name X e, lit '' '', if negated then lit ''not in'' else lit ''in'', lit '' ('', Ok args_string, lit '')''])"
| "output_name X (Between negated e l r) =
     fmt [output_name X e, lit '' '', if negated then lit ''not between'' else lit ''between'', lit '' ['',
       output_name X l, lit '', '', output_name X r, lit '']'']"
| "output_name X (SubString e for_e from_e) =
     fmt [lit ''substring('', output_name X e,
       (case from_e of None \<Rightarrow> Ok [] | Some x \<Rightarrow> fmt [lit '', from: '', output_name X x]),
       (case for_e of None \<Rightarrow> Ok [] | Some x \<Rightarrow> fmt [lit '', for: '', output_name X x]), lit '')'']"
| "output_name X (Position e in_e) =
     fmt [lit ''position('', output_name X e, lit '' in '', output_name X in_e, lit '')'']"
| "output_name X (Trim e what where_f) =
     res_bind (case what of None \<Rightarrow> lit '' '' | Some x \<Rightarrow> output_name X x) (\<lambda>what_str.
       fmt [lit ''trim('', Ok (trim_text where_f what_str), lit '' '', output_name X e, lit '')''])"
| "output_name X (Reference e _) = output_name X e"
| "output_name X EmptyExpr = Err Panic"
| "output_name X (TupleExpr args) = fmt [lit ''('', join_res (res_map (output_name X) args), lit '')'']"
| "output_name X (ScalaFunction f args) =
     res_bind (join_res (res_map (output_name X) args)) (\<lambda>args_str.
       fmt [Ok (function_name (function_summary_of f)), lit ''('', Ok args_str, lit '')''])"
| "output_name X (TableFunction f args) =
     res_bind (join_res (res_map (output_name X) args)) (\<lambda>args_str.
       fmt [Ok (function_name f), lit ''('', Ok args_str, lit '')''])"
| "output_name X (IfExpr c l r _) =
     fmt [lit ''if '', output_name X c, lit '' ('', output_name X l, lit '', '', output_name X r, lit '')'']"
| "output_name X (IfNull l r _) =
     fmt [lit ''ifnull('', output_name X l, lit '', '', output_name X r, lit '')'']"
| "output_name X (NullIf l r _) =
     fmt [lit ''ifnull('', output_name X l, lit '', '', output_name X r, lit '')'']"
| "output_name X (Coalesce es _) =
     fmt [lit ''coalesce('', join_res (res_map (output_name X) es), lit '')'']"
| "output_name X (CaseWhen operand pairs else_e _) =
     res_bind (map_res (join_with (ascii '' '')) (res_map (\<lambda>(a, b).
         fmt [lit ''when '', output_name X a, lit '' then '', output_name X b]) pairs)) (\<lambda>pairs_str.
       fmt [lit ''case '',
         (case operand of None \<Rightarrow> Ok [] | Some x \<Rightarrow> fmt [output_name X x, lit '' '']), Ok pairs_str, lit '' '',
         (case else_e of None \<Rightarrow> Ok [] | Some x \<Rightarrow> fmt [lit ''else '', output_name X x, lit '' '']), lit ''end''])"

definition named_column :: "('d, 't, 'n) env \<Rightarrow> 'd scalar_expression \<Rightarrow> 'd column_catalog res" where
  "named_column X e =
    res_bind (output_name X e) (\<lambda>name.
      res_bind (return_type e) (\<lambda>ty.
        res_bind (column_desc_new ty None False None) (\<lambda>d. Ok (column_new name True d))))"

function output_column :: "('d, 't, 'n) env \<Rightarrow> 'd scalar_expression \<Rightarrow> 'd column_catalog res" where
  "output_column X e = (case e of
     ColumnRef col \<Rightarrow> Ok col
   | Alias _ (AliasExpr a) \<Rightarrow> output_column X a
   | Reference x _ \<Rightarrow> output_column X x
   | _ \<Rightarrow> named_column X e)"
  by auto
termination by (relation "measure (\<lambda>(X, e). size e)") auto

function referenced_columns ::
  "('d, 't, 'n) env \<Rightarrow> bool \<Rightarrow> 'd scalar_expression \<Rightarrow> 'd column_catalog list res" where
  "referenced_columns X only_column_ref e =
    res_bind (if only_column_ref then Ok [] else map_res (\<lambda>c. [c]) (output_column X e)) (\<lambda>self.
      map_res (\<lambda>below. self @ below)
        (case e of
           ColumnRef col \<Rightarrow> Ok [col]
         | Reference _ _ \<Rightarrow> Err Panic
         | EmptyExpr \<Rightarrow> Err Panic
         | _ \<Rightarrow> map_res concat (res_map (referenced_columns X only_column_ref) (children e))))"
  by auto
termination
  by (relation "measure (\<lambda>(X, only, e). size e)")
    (auto simp del: children.simps scalar_expression.size intro: children_size)

declare output_column.simps [simp del] referenced_columns.simps [simp del]

section \<open>Rewriting expressions\<close>

text \<open>\<open>TryReference\<close>: an expression that a plan below already computes becomes a reference to its position.\<close>

fun find_output ::
  "('d, 't, 'n) env \<Rightarrow> column_summary \<Rightarrow> 'd scalar_expression list \<Rightarrow> nat \<Rightarrow> nat option res" where
  "find_output X s [] pos = Ok None"
| "find_output X s (e # es) pos =
    res_bind (output_column X e) (\<lambda>c. if s = summary c then Ok (Some pos) else find_output X s es (Suc pos))"

function try_reference ::
  "('d, 't, 'n) env \<Rightarrow> 'd scalar_expression list \<Rightarrow> 'd scalar_expression \<Rightarrow> 'd scalar_expression res" where
  "try_reference X output_exprs e =
    res_bind (walk_mut_expr (try_reference X output_exprs) e) (\<lambda>e'.
      res_bind (output_column X e') (\<lambda>self_column.
        res_bind (find_output X (summary self_column) output_exprs 0) (\<lambda>pos.
          Ok (case pos of Some p \<Rightarrow> Reference e' p | None \<Rightarrow> e'))))"
  by auto
termination
  by (relation "measure (\<lambda>(X, es, e). size e)") (auto intro: children_size)

text \<open>\<open>BindEvaluator\<close>: the operands are cast to a common type, and the evaluator of that type is chosen.\<close>

definition signed_counterpart :: "logical_type \<Rightarrow> logical_type" where
  "signed_counterpart ty = (case ty of
     UTinyint \<Rightarrow> Tinyint | USmallint \<Rightarrow> Smallint | UInteger \<Rightarrow> Integer | UBigint \<Rightarrow> Bigint | _ \<Rightarrow> ty)"

definition bind_unary :: "unary_operator \<Rightarrow> 'd scalar_expression \<Rightarrow> logical_type \<Rightarrow> 'd scalar_expression res" where
  "bind_unary op e result_ty =
    res_bind (return_type e) (\<lambda>ty.
      let e' = (if is_unsigned_numeric ty then TypeCast e (signed_counterpart ty) else e) in
      res_bind (unary_create ty op) (\<lambda>ev. Ok (Unary op e' (Some ev) result_ty)))"

definition fn_cast :: "'d scalar_expression \<Rightarrow> logical_type \<Rightarrow> logical_type \<Rightarrow> 'd scalar_expression" where
  "fn_cast e e_ty ty = (if e_ty \<noteq> ty then TypeCast e ty else e)"

definition bind_binary ::
  "binary_operator \<Rightarrow> 'd scalar_expression \<Rightarrow> 'd scalar_expression \<Rightarrow> logical_type \<Rightarrow> 'd scalar_expression res" where
  "bind_binary op l r result_ty =
    res_bind (return_type l) (\<lambda>l_ty.
      res_bind (return_type r) (\<lambda>r_ty.
        res_bind (max_logical_type l_ty r_ty) (\<lambda>ty.
          res_bind (binary_create ty op) (\<lambda>ev.
            Ok (Binary op (fn_cast l l_ty ty) (fn_cast r r_ty ty) (Some ev) result_ty)))))"

function bind_evaluator :: "'d scalar_expression \<Rightarrow> 'd scalar_expression res" where
  "bind_evaluator e = (case e of
     Unary op x _ ty \<Rightarrow> res_bind (bind_evaluator x) (\<lambda>x. bind_unary op x ty)
   | Binary op l r _ ty \<Rightarrow>
       res_bind (bind_evaluator l) (\<lambda>l. res_bind (bind_evaluator r) (\<lambda>r. bind_binary op l r ty))
   | _ \<Rightarrow> walk_mut_expr bind_evaluator e)"
  by auto
termination
  by (relation "measure size") (auto simp del: children.simps scalar_expression.size intro: children_size, auto)

declare try_reference.simps [simp del] bind_evaluator.simps [simp del]

end
