(* ===== verification/Table_Catalog.thy ===== *)
theory Table_Catalog
  imports Expression Table_Codec "HOL-Library.Mapping"
begin

text \<open>
  The catalogue of a table (\<open>src/src/catalog/table.rs\<close>): its columns by name and by id, its primary key and
  its indexes. Column ids come from the generator of the \<open>ulid\<close> crate; an operation takes the ids that the
  generator returns, and panics where the code unwraps its error. The invariant \<open>catalog_wf\<close> says that the
  two maps and the primary key are functions of the schema.
\<close>

section \<open>Indexes and catalogues\<close>

record index_meta =
  im_id :: "32 word"
  im_column_ids :: "column_id list"
  im_table_name :: rstring
  im_pk_ty :: logical_type
  im_value_ty :: logical_type
  im_name :: rstring
  im_ty :: index_type

record 'd table_catalog =
  tc_name :: rstring
  column_idxs :: "(rstring, column_id \<times> nat) mapping"
  column_positions :: "(column_id, nat) mapping"
  indexes :: "index_meta list"
  schema_ref :: "'d column_catalog list"
  primary_keys :: "(nat \<times> 'd column_catalog) list"
  primary_key_indices :: "nat list"
  primary_key_type :: "logical_type option"

section \<open>Lookups\<close>

definition column_at :: "'d table_catalog \<Rightarrow> nat \<Rightarrow> 'd column_catalog res" where
  "column_at t i = (if i < length (schema_ref t) then Ok (schema_ref t ! i) else Err Panic)"

definition get_column_by_id :: "'d table_catalog \<Rightarrow> column_id \<Rightarrow> 'd column_catalog option res" where
  "get_column_by_id t id' = (case Mapping.lookup (column_positions t) id' of
     None \<Rightarrow> Ok None | Some i \<Rightarrow> map_res Some (column_at t i))"

definition get_column_by_name :: "'d table_catalog \<Rightarrow> rstring \<Rightarrow> 'd column_catalog option res" where
  "get_column_by_name t name = (case Mapping.lookup (column_idxs t) name of
     None \<Rightarrow> Ok None | Some (_, i) \<Rightarrow> map_res Some (column_at t i))"

definition contains_column :: "'d table_catalog \<Rightarrow> rstring \<Rightarrow> bool" where
  "contains_column t name \<longleftrightarrow> Mapping.lookup (column_idxs t) name \<noteq> None"

definition columns_len :: "'d table_catalog \<Rightarrow> nat" where
  "columns_len t = Mapping.size (column_positions t)"

definition types_of :: "'d table_catalog \<Rightarrow> logical_type list" where
  "types_of t = map datatype_of (schema_ref t)"

text \<open>The search for a unique index looks at the first column of every unique index on its way.\<close>

fun find_unique :: "column_id \<Rightarrow> index_meta list \<Rightarrow> index_meta option res" where
  "find_unique col_id [] = Ok None"
| "find_unique col_id (m # ms) =
    (if im_ty m = Unique then
       (case im_column_ids m of
          [] \<Rightarrow> Err Panic
        | c # _ \<Rightarrow> if c = col_id then Ok (Some m) else find_unique col_id ms)
     else find_unique col_id ms)"

definition get_unique_index :: "'d table_catalog \<Rightarrow> column_id \<Rightarrow> index_meta option res" where
  "get_unique_index t col_id = find_unique col_id (indexes t)"

section \<open>Construction\<close>

definition with_relation :: "'d column_catalog \<Rightarrow> column_id \<Rightarrow> rstring \<Rightarrow> 'd column_catalog" where
  "with_relation col col_id table_name =
    ColumnCatalog ((summary col)\<lparr> relation := TableRelation col_id table_name False \<rparr>) (nullable col) (desc col) (in_join col)"

text \<open>The generator returns \<open>None\<close> when it cannot make an id greater than the last.\<close>

definition add_column ::
  "'d table_catalog \<Rightarrow> 'd column_catalog \<Rightarrow> column_id option \<Rightarrow> ('d table_catalog \<times> column_id) res" where
  "add_column t col generated =
    (let name = column_name (summary col) in
     if contains_column t name then Err (DuplicateColumn name)
     else case generated of
       None \<Rightarrow> Err Panic
     | Some col_id \<Rightarrow>
         Ok (t\<lparr> column_idxs := Mapping.update name (col_id, length (schema_ref t)) (column_idxs t),
               column_positions := Mapping.update col_id (length (schema_ref t)) (column_positions t),
               schema_ref := schema_ref t @ [with_relation col col_id (tc_name t)] \<rparr>, col_id))"

fun primary_positions :: "nat \<Rightarrow> 'd column_catalog list \<Rightarrow> (nat \<times> nat \<times> 'd column_catalog) list" where
  "primary_positions i [] = []"
| "primary_positions i (col # cols) =
    (case primary (desc col) of
       Some p_i \<Rightarrow> (p_i, i, col) # primary_positions (Suc i) cols
     | None \<Rightarrow> primary_positions (Suc i) cols)"

definition build_primary_keys :: "'d column_catalog list \<Rightarrow> (nat \<times> 'd column_catalog) list \<times> nat list" where
  "build_primary_keys schema =
    (let keys = map snd (sort_key fst (primary_positions 0 schema)) in (keys, map fst keys))"

definition empty_catalog :: "rstring \<Rightarrow> 'd table_catalog" where
  "empty_catalog name = \<lparr> tc_name = name, column_idxs = Mapping.empty, column_positions = Mapping.empty, indexes = [],
     schema_ref = [], primary_keys = [], primary_key_indices = [], primary_key_type = None \<rparr>"

text \<open>The loop of \<open>new\<close>, which unwraps the result of \<open>add_column\<close>.\<close>

fun add_columns ::
  "'d table_catalog \<Rightarrow> 'd column_catalog list \<Rightarrow> column_id option list \<Rightarrow> 'd table_catalog res" where
  "add_columns t [] ids = Ok t"
| "add_columns t (col # cols) ids =
    (case add_column t col (case ids of [] \<Rightarrow> None | i # _ \<Rightarrow> i) of
       Inl _ \<Rightarrow> Err Panic
     | Inr (t', _) \<Rightarrow> add_columns t' cols (tl ids))"

definition set_primary_keys :: "'d table_catalog \<Rightarrow> 'd table_catalog" where
  "set_primary_keys t = (case build_primary_keys (schema_ref t) of
     (keys, positions) \<Rightarrow> t\<lparr> primary_keys := keys, primary_key_indices := positions \<rparr>)"

definition table_new ::
  "rstring \<Rightarrow> 'd column_catalog list \<Rightarrow> column_id option list \<Rightarrow> 'd table_catalog res" where
  "table_new name cols ids =
    (if cols = [] then Err ColumnsEmpty
     else map_res set_primary_keys (add_columns (empty_catalog name) cols ids))"

fun reload_columns ::
  "nat \<Rightarrow> 'd column_catalog list \<Rightarrow> (rstring, column_id \<times> nat) mapping \<Rightarrow> (column_id, nat) mapping \<Rightarrow>
   ((rstring, column_id \<times> nat) mapping \<times> (column_id, nat) mapping) res" where
  "reload_columns i [] idxs cols = Ok (idxs, cols)"
| "reload_columns i (c # cs) idxs cols = (case column_id_of c of
     None \<Rightarrow> Err (InvalidColumn (ascii ''column does not belong to table''))
   | Some col_id \<Rightarrow>
       reload_columns (Suc i) cs (Mapping.update (column_name (summary c)) (col_id, i) idxs)
         (Mapping.update col_id i cols))"

definition table_reload ::
  "rstring \<Rightarrow> 'd column_catalog list \<Rightarrow> index_meta list \<Rightarrow> 'd table_catalog res" where
  "table_reload name cols metas =
    res_bind (reload_columns 0 cols Mapping.empty Mapping.empty) (\<lambda>(idxs, positions).
      case build_primary_keys cols of
        (keys, key_positions) \<Rightarrow>
          Ok \<lparr> tc_name = name, column_idxs = idxs, column_positions = positions, indexes = metas, schema_ref = cols,
               primary_keys = keys, primary_key_indices = key_positions, primary_key_type = None \<rparr>)"

section \<open>Index metadata\<close>

definition primary_type :: "'d table_catalog \<Rightarrow> logical_type" where
  "primary_type t = (case primary_key_type t of
     Some ty \<Rightarrow> ty
   | None \<Rightarrow>
       (case primary_keys t of
          [(_, col)] \<Rightarrow> datatype_of col
        | keys \<Rightarrow> TupleT (map (\<lambda>(_, col). datatype_of col) keys)))"

definition index_column_type :: "'d table_catalog \<Rightarrow> (column_id \<Rightarrow> rstring) \<Rightarrow> column_id \<Rightarrow> logical_type res" where
  "index_column_type t ulid_text col_id =
    res_bind (get_column_by_id t col_id) (\<lambda>col.
      case col of None \<Rightarrow> Err (ColumnNotFound (ulid_text col_id)) | Some c \<Rightarrow> Ok (datatype_of c))"

definition next_index_id :: "index_meta list \<Rightarrow> 32 word res" where
  "next_index_id metas =
    (if metas = [] then Ok 0
     else if im_id (last metas) = - 1 then Err Panic else Ok (im_id (last metas) + 1))"

definition add_index_meta ::
  "'d table_catalog \<Rightarrow> (column_id \<Rightarrow> rstring) \<Rightarrow> rstring \<Rightarrow> column_id list \<Rightarrow> index_type \<Rightarrow>
   ('d table_catalog \<times> index_meta) res" where
  "add_index_meta t ulid_text name column_ids ty =
    (if name \<in> set (map im_name (indexes t)) then Err (DuplicateIndex name)
     else res_bind (next_index_id (indexes t)) (\<lambda>index_id.
       let pk_ty = primary_type t in
       res_bind (res_map (index_column_type t ulid_text) column_ids) (\<lambda>val_tys.
         let value_ty = (case val_tys of [val_ty] \<Rightarrow> val_ty | _ \<Rightarrow> TupleT val_tys);
             index = \<lparr> im_id = index_id, im_column_ids = column_ids, im_table_name = tc_name t, im_pk_ty = pk_ty,
                       im_value_ty = value_ty, im_name = name, im_ty = ty \<rparr> in
         Ok (t\<lparr> primary_key_type := Some pk_ty, indexes := indexes t @ [index] \<rparr>, index))))"

section \<open>The invariant\<close>

definition covers ::
  "(rstring, column_id \<times> nat) mapping \<Rightarrow> (column_id, nat) mapping \<Rightarrow> 'd column_catalog list \<Rightarrow> bool" where
  "covers idxs positions cols \<longleftrightarrow>
    (\<forall>name c i. Mapping.lookup idxs name = Some (c, i) \<longleftrightarrow>
       i < length cols \<and> column_name (summary (cols ! i)) = name \<and> column_id_of (cols ! i) = Some c) \<and>
    (\<forall>c i. Mapping.lookup positions c = Some i \<longleftrightarrow> i < length cols \<and> column_id_of (cols ! i) = Some c) \<and>
    (\<forall>col\<in>set cols. column_id_of col \<noteq> None)"

definition catalog_wf :: "'d table_catalog \<Rightarrow> bool" where
  "catalog_wf t \<longleftrightarrow>
    covers (column_idxs t) (column_positions t) (schema_ref t) \<and>
    build_primary_keys (schema_ref t) = (primary_keys t, primary_key_indices t)"

text \<open>The ids of one generator increase.\<close>

definition ulid_monotonic :: "column_id option list \<Rightarrow> bool" where
  "ulid_monotonic ids \<longleftrightarrow> sorted_wrt (\<lambda>x y. \<forall>a b. x = Some a \<longrightarrow> y = Some b \<longrightarrow> a < b) ids"

lemma covers_empty: "covers Mapping.empty Mapping.empty []"
  by (simp add: covers_def)

lemma covers_ids: "covers idxs positions cols \<Longrightarrow> i < length cols \<Longrightarrow> \<exists>c. column_id_of (cols ! i) = Some c"
  using nth_mem [of i cols] by (auto simp: covers_def)

lemma covers_names:
  assumes "covers idxs positions cols" "Mapping.lookup idxs name = None"
  shows "name \<notin> (column_name \<circ> summary) ` set cols"
proof
  assume "name \<in> (column_name \<circ> summary) ` set cols"
  then obtain i where i: "i < length cols" "column_name (summary (cols ! i)) = name" by (auto simp: in_set_conv_nth)
  then obtain c where "column_id_of (cols ! i) = Some c" using covers_ids [OF assms(1)] by blast
  with i have "Mapping.lookup idxs name = Some (c, i)" using assms(1) by (auto simp: covers_def)
  with assms(2) show False by simp
qed

lemma covers_snoc:
  assumes "covers idxs positions cols" "column_id_of col = Some c"
    and "column_name (summary col) \<notin> (column_name \<circ> summary) ` set cols" "Some c \<notin> column_id_of ` set cols"
  shows "covers (Mapping.update (column_name (summary col)) (c, length cols) idxs) (Mapping.update c (length cols) positions)
    (cols @ [col])"
proof -
  have "column_name (summary (cols ! i)) \<noteq> column_name (summary col)" "column_id_of (cols ! i) \<noteq> Some c" if "i < length cols" for i
    using assms(3,4) that nth_mem by (metis comp_apply image_eqI)+
  with assms(1,2) show ?thesis
    by (auto simp: covers_def lookup_update' nth_append less_Suc_eq)
qed

lemma covers_unique:
  assumes "covers idxs positions cols" "covers idxs' positions' cols"
  shows "idxs = idxs' \<and> positions = positions'"
proof -
  have "Mapping.lookup idxs n = Some p \<longleftrightarrow> Mapping.lookup idxs' n = Some p" for n p
    using assms by (cases p) (simp add: covers_def)
  moreover have "Mapping.lookup positions n = Some p \<longleftrightarrow> Mapping.lookup positions' n = Some p" for n p
    using assms by (simp add: covers_def)
  ultimately show ?thesis
    by (intro conjI mapping_eqI) (metis not_None_eq)+
qed

lemma covers_distinct:
  assumes "covers idxs positions cols"
  shows "distinct (map (column_name \<circ> summary) cols)" "distinct (map column_id_of cols)"
proof -
  have "i = j" if ij: "i < length cols" "j < length cols" "column_name (summary (cols ! i)) = column_name (summary (cols ! j))" for i j
  proof -
    obtain c d where "column_id_of (cols ! i) = Some c" "column_id_of (cols ! j) = Some d"
      using covers_ids [OF assms] ij(1,2) by blast
    then have "Mapping.lookup idxs (column_name (summary (cols ! i))) = Some (c, i)"
      "Mapping.lookup idxs (column_name (summary (cols ! i))) = Some (d, j)" using assms ij by (auto simp: covers_def)
    then show ?thesis by simp
  qed
  moreover have "i = j" if ij: "i < length cols" "j < length cols" "column_id_of (cols ! i) = column_id_of (cols ! j)" for i j
  proof -
    obtain c where "column_id_of (cols ! i) = Some c" using covers_ids [OF assms ij(1)] by blast
    then have "Mapping.lookup positions c = Some i" "Mapping.lookup positions c = Some j" using assms ij by (auto simp: covers_def)
    then show ?thesis by simp
  qed
  ultimately show "distinct (map (column_name \<circ> summary) cols)" "distinct (map column_id_of cols)"
    by (auto simp: distinct_conv_nth)
qed

lemma with_relation_simps [simp]:
  "column_name (summary (with_relation col c t)) = column_name (summary col)" "column_id_of (with_relation col c t) = Some c"
  "desc (with_relation col c t) = desc col" "nullable (with_relation col c t) = nullable col"
  by (simp_all add: with_relation_def column_id_of_def)

section \<open>Creation and reload\<close>

lemma add_column_Ok:
  assumes "add_column t col g = Ok (t', c)"
  shows "g = Some c" "Mapping.lookup (column_idxs t) (column_name (summary col)) = None"
    "t' = t\<lparr> column_idxs := Mapping.update (column_name (summary col)) (c, length (schema_ref t)) (column_idxs t),
            column_positions := Mapping.update c (length (schema_ref t)) (column_positions t),
            schema_ref := schema_ref t @ [with_relation col c (tc_name t)] \<rparr>"
  using assms by (auto simp: add_column_def Let_def contains_column_def simp del: not_None_eq split: if_splits option.splits)

lemma add_column_covers:
  assumes "add_column t col g = Ok (t', c)" "covers (column_idxs t) (column_positions t) (schema_ref t)"
    and "Some c \<notin> column_id_of ` set (schema_ref t)"
  shows "covers (column_idxs t') (column_positions t') (schema_ref t')"
  using covers_snoc [OF assms(2), of "with_relation col c (tc_name t)" c] assms(3)
    covers_names [OF assms(2) add_column_Ok(2) [OF assms(1)]]
  by (simp add: add_column_Ok(3) [OF assms(1)])

lemma add_columns_covers:
  assumes "add_columns t cols ids = Ok t'" "covers (column_idxs t) (column_positions t) (schema_ref t)"
    and "ulid_monotonic ids" "\<forall>col\<in>set (schema_ref t). \<forall>a b. column_id_of col = Some a \<longrightarrow> Some b \<in> set ids \<longrightarrow> a < b"
  shows "covers (column_idxs t') (column_positions t') (schema_ref t') \<and> tc_name t' = tc_name t \<and> indexes t' = indexes t \<and>
    primary_key_type t' = primary_key_type t \<and>
    (\<exists>new. schema_ref t' = schema_ref t @ new \<and> list_all2 (\<lambda>col old. \<exists>c. col = with_relation old c (tc_name t)) new cols)"
  using assms
proof (induction t cols ids rule: add_columns.induct)
  case (2 t col cols ids)
  then obtain t1 c where t1: "add_column t col (case ids of [] \<Rightarrow> None | i # _ \<Rightarrow> i) = Ok (t1, c)" "add_columns t1 cols (tl ids) = Ok t'"
    by (auto split: sum.splits)
  note step = add_column_Ok [OF t1(1)]
  obtain ids' where ids: "ids = Some c # ids'" using step(1) by (cases ids) auto
  have "Some c \<notin> column_id_of ` set (schema_ref t)"
  proof
    assume "Some c \<in> column_id_of ` set (schema_ref t)"
    then obtain x where "x \<in> set (schema_ref t)" "column_id_of x = Some c" by auto
    with 2(5) ids have "c < c" by auto
    then show False by simp
  qed
  note cov = add_column_covers [OF t1(1) 2(3) this]
  have "\<forall>col\<in>set (schema_ref t1). \<forall>a b. column_id_of col = Some a \<longrightarrow> Some b \<in> set (tl ids) \<longrightarrow> a < b"
    using 2(4,5) step(3) ids by (auto simp: ulid_monotonic_def)
  moreover have "ulid_monotonic (tl ids)" using 2(4) ids by (simp add: ulid_monotonic_def)
  ultimately obtain new where "covers (column_idxs t') (column_positions t') (schema_ref t')" "tc_name t' = tc_name t1"
    "indexes t' = indexes t1" "primary_key_type t' = primary_key_type t1"
    and new: "schema_ref t' = schema_ref t1 @ new" "list_all2 (\<lambda>col old. \<exists>c. col = with_relation old c (tc_name t1)) new cols"
    using 2(1) [OF t1(1) refl t1(2) cov] by blast
  then show ?case using step(3) by (auto intro!: exI [of _ "with_relation col c (tc_name t) # new"])
qed auto

lemma reload_columns_covers:
  assumes "covers idxs positions done_cols" "\<forall>col\<in>set cols. column_id_of col \<noteq> None"
    and "distinct (map (column_name \<circ> summary) (done_cols @ cols))" "distinct (map column_id_of (done_cols @ cols))"
  shows "\<exists>idxs' positions'. reload_columns (length done_cols) cols idxs positions = Ok (idxs', positions') \<and>
    covers idxs' positions' (done_cols @ cols)"
  using assms
proof (induction cols arbitrary: done_cols idxs positions)
  case (Cons col cols)
  then obtain c where c: "column_id_of col = Some c" by auto
  have "covers (Mapping.update (column_name (summary col)) (c, length done_cols) idxs) (Mapping.update c (length done_cols) positions)
      (done_cols @ [col])"
    using Cons.prems c by (intro covers_snoc) (auto simp: image_iff)
  from Cons.IH [OF this] Cons.prems c show ?case by simp
qed simp

lemma reload_wf:
  assumes "catalog_wf t"
  shows "table_reload (tc_name t) (schema_ref t) (indexes t) = Ok (t\<lparr> primary_key_type := None \<rparr>)"
proof -
  have cov: "covers (column_idxs t) (column_positions t) (schema_ref t)" using assms by (simp add: catalog_wf_def)
  then have "\<forall>col\<in>set (schema_ref t). column_id_of col \<noteq> None" by (simp add: covers_def)
  with reload_columns_covers [OF covers_empty, of "schema_ref t"] covers_distinct [OF cov]
  obtain idxs positions where "reload_columns 0 (schema_ref t) Mapping.empty Mapping.empty = Ok (idxs, positions)"
    "covers idxs positions (schema_ref t)" by auto
  with covers_unique [OF cov] assms show ?thesis by (simp add: table_reload_def catalog_wf_def)
qed

lemma table_new_wf:
  assumes "table_new name cols ids = Ok t" "ulid_monotonic ids"
  shows "catalog_wf t \<and> tc_name t = name \<and> indexes t = [] \<and> primary_key_type t = None \<and>
    list_all2 (\<lambda>col old. \<exists>c. col = with_relation old c name) (schema_ref t) cols"
proof -
  obtain t0 where t0: "add_columns (empty_catalog name) cols ids = Ok t0" "t = set_primary_keys t0"
    using assms(1) by (auto simp: table_new_def map_res_Ok_iff split: if_splits)
  have "covers (column_idxs t0) (column_positions t0) (schema_ref t0) \<and> tc_name t0 = name \<and> indexes t0 = [] \<and>
      primary_key_type t0 = None \<and> list_all2 (\<lambda>col old. \<exists>c. col = with_relation old c name) (schema_ref t0) cols"
    using add_columns_covers [OF t0(1) _ assms(2)] covers_empty by (simp add: empty_catalog_def)
  then show ?thesis using t0(2) by (simp add: set_primary_keys_def catalog_wf_def split: prod.split)
qed

text \<open>
  C10: A table that is created and reloaded from its stored columns has the same catalogue: the maps from names
  and ids to positions describe the schema, whose columns are the given ones with fresh ids, and the primary
  key is the same.
\<close>

theorem table_reload_new:
  assumes "table_new name cols ids = Ok t" "ulid_monotonic ids"
  shows "catalog_wf t \<and> list_all2 (\<lambda>col old. \<exists>c. col = with_relation old c name) (schema_ref t) cols \<and>
    table_reload name (schema_ref t) [] = Ok t"
  using table_new_wf [OF assms] reload_wf [of t] by auto

definition id_column :: "64 word column_catalog" where
  "id_column = ColumnCatalog \<lparr> column_name = ascii ''id'', relation = NoRelation \<rparr> False (ColumnDesc Integer (Some 0) False None) False"

definition name_column :: "64 word column_catalog" where
  "name_column = ColumnCatalog \<lparr> column_name = ascii ''name'', relation = NoRelation \<rparr> True
     (ColumnDesc (Varchar None Characters) None True None) False"

lemma sample_table_new:
  "\<exists>t. table_new (ascii ''t'') [id_column, name_column] [Some 1, Some 2] = Ok t"
  by (simp add: table_new_def id_column_def name_column_def add_column_def Let_def contains_column_def empty_catalog_def
      lookup_update' ascii_def)

theorem table_reload_new_witness:
  "\<exists>t. table_new (ascii ''t'') [id_column, name_column] [Some 1, Some 2] = Ok t \<and> catalog_wf t \<and>
    table_reload (ascii ''t'') (schema_ref t) [] = Ok t"
  using sample_table_new table_reload_new [of "ascii ''t''" "[id_column, name_column]" "[Some 1, Some 2]"]
  by (auto simp: ulid_monotonic_def)

section \<open>Indexes\<close>

definition indexes_wf :: "'d table_catalog \<Rightarrow> bool" where
  "indexes_wf t \<longleftrightarrow> sorted_wrt (<) (map im_id (indexes t)) \<and> distinct (map im_name (indexes t)) \<and>
    (\<forall>m\<in>set (indexes t). im_table_name m = tc_name t)"

lemma word_less_plus_1: "(w :: 'a::len word) \<noteq> - 1 \<Longrightarrow> w < w + 1"
proof -
  assume w: "w \<noteq> - 1"
  have "Suc (unat w) \<noteq> 2 ^ LENGTH('a)"
  proof
    assume "Suc (unat w) = 2 ^ LENGTH('a)"
    then have "word_of_nat (Suc (unat w)) = (0 :: 'a word)" by (metis word_exp_length_eq_0 of_nat_numeral of_nat_power)
    then have "w + 1 = 0" by (simp add: add.commute)
    with w show False by (metis add_eq_0_iff2)
  qed
  then have "Suc (unat w) < 2 ^ LENGTH('a)" by (intro Suc_lessI) simp_all
  then have "unat (w + 1) = Suc (unat w)" by (simp add: unat_word_ariths(1))
  then show ?thesis by (simp add: word_less_nat_alt)
qed

lemma next_index_id_greater:
  assumes "next_index_id ms = Ok i" "sorted_wrt (<) (map im_id ms)" "m \<in> set ms"
  shows "im_id m < i"
proof -
  have ne: "ms \<noteq> []" using assms(3) by auto
  then have i: "i = im_id (last ms) + 1" "im_id (last ms) \<noteq> - 1" using assms(1) by (auto simp: next_index_id_def split: if_splits)
  have "im_id m \<le> im_id (last ms)"
  proof -
    have "ms = butlast ms @ [last ms]" using ne by simp
    then have "sorted_wrt (<) (map im_id (butlast ms @ [last ms]))" "m \<in> set (butlast ms @ [last ms])"
      using assms(2,3) by simp_all
    then show ?thesis by (auto simp: sorted_wrt_append)
  qed
  also have "im_id (last ms) < i" unfolding i(1) using word_less_plus_1 [OF i(2)] .
  finally show ?thesis .
qed



section \<open>Lookups by name and id\<close>

lemma find_distinct:
  "distinct (map f xs) \<Longrightarrow> i < length xs \<Longrightarrow> f (xs ! i) = v \<Longrightarrow> find (\<lambda>x. f x = v) xs = Some (xs ! i)"
proof (induction xs arbitrary: i)
  case (Cons x xs)
  then show ?case by (cases i) (auto simp: image_iff)
qed simp

lemma covers_lookup_name:
  assumes "covers idxs positions cols"
  shows "Mapping.lookup idxs name = None \<Longrightarrow> find (\<lambda>c. column_name (summary c) = name) cols = None"
    and "Mapping.lookup idxs name = Some (c, i) \<Longrightarrow>
      i < length cols \<and> find (\<lambda>c. column_name (summary c) = name) cols = Some (cols ! i)"
proof -
  show "find (\<lambda>c. column_name (summary c) = name) cols = None" if "Mapping.lookup idxs name = None"
    using covers_names [OF assms that] by (auto simp: find_None_iff image_iff)
  show "i < length cols \<and> find (\<lambda>c. column_name (summary c) = name) cols = Some (cols ! i)"
    if "Mapping.lookup idxs name = Some (c, i)"
  proof -
    have "i < length cols" "(column_name \<circ> summary) (cols ! i) = name" using assms that by (auto simp: covers_def)
    from find_distinct [OF covers_distinct(1) [OF assms] this] this(1) show ?thesis by simp
  qed
qed

lemma covers_lookup_id:
  assumes "covers idxs positions cols"
  shows "Mapping.lookup positions c = None \<Longrightarrow> find (\<lambda>col. column_id_of col = Some c) cols = None"
    and "Mapping.lookup positions c = Some i \<Longrightarrow> i < length cols \<and> find (\<lambda>col. column_id_of col = Some c) cols = Some (cols ! i)"
proof -
  show "find (\<lambda>col. column_id_of col = Some c) cols = None" if "Mapping.lookup positions c = None"
  proof -
    have "column_id_of (cols ! i) \<noteq> Some c" if "i < length cols" for i
    proof
      assume "column_id_of (cols ! i) = Some c"
      with that assms have "Mapping.lookup positions c = Some i" by (simp add: covers_def)
      with \<open>Mapping.lookup positions c = None\<close> show False by simp
    qed
    then show ?thesis by (auto simp: find_None_iff in_set_conv_nth)
  qed
  show "i < length cols \<and> find (\<lambda>col. column_id_of col = Some c) cols = Some (cols ! i)"
    if "Mapping.lookup positions c = Some i"
  proof -
    have "i < length cols" "column_id_of (cols ! i) = Some c" using assms that by (auto simp: covers_def)
    from find_distinct [OF covers_distinct(2) [OF assms] this] this(1) show ?thesis by simp
  qed
qed

lemma covers_size:
  assumes "covers idxs positions cols"
  shows "Mapping.size positions = length cols"
proof -
  have "c \<in> Mapping.keys positions \<longleftrightarrow> Some c \<in> column_id_of ` set cols" for c
  proof -
    have "c \<in> Mapping.keys positions \<longleftrightarrow> (\<exists>i<length cols. column_id_of (cols ! i) = Some c)"
      using assms by (auto simp: keys_dom_lookup dom_def covers_def)
    also have "\<dots> \<longleftrightarrow> Some c \<in> column_id_of ` set cols" by (force simp: in_set_conv_nth image_iff)
    finally show ?thesis .
  qed
  moreover have "Some ` Mapping.keys positions = column_id_of ` set cols"
    using calculation covers_ids [OF assms] by (auto simp: in_set_conv_nth image_iff) (metis image_eqI nth_mem)
  ultimately have "card (Mapping.keys positions) = card (column_id_of ` set cols)" by (metis card_image inj_Some)
  also have "\<dots> = length cols" using covers_distinct(2) [OF assms] distinct_card by fastforce
  finally show ?thesis by (simp add: Mapping.size_def)
qed

text \<open>
  C26: On a well-formed catalogue a lookup by name or by id never panics and finds the column of the schema with
  that name or id, if there is one.
\<close>

theorem catalog_lookup:
  assumes "catalog_wf t"
  shows "get_column_by_name t name = Ok (find (\<lambda>c. column_name (summary c) = name) (schema_ref t)) \<and>
    get_column_by_id t c = Ok (find (\<lambda>col. column_id_of col = Some c) (schema_ref t)) \<and>
    columns_len t = length (schema_ref t)"
  using assms covers_lookup_name [of "column_idxs t" "column_positions t" "schema_ref t" name]
    covers_lookup_id [of "column_idxs t" "column_positions t" "schema_ref t" c]
  by (auto simp: catalog_wf_def get_column_by_name_def get_column_by_id_def column_at_def columns_len_def covers_size
      split: option.split)

theorem catalog_lookup_witness:
  "\<exists>t. table_new (ascii ''t'') [id_column, name_column] [Some 1, Some 2] = Ok t \<and>
     get_column_by_name t (ascii ''name'') = Ok (find (\<lambda>c. column_name (summary c) = ascii ''name'') (schema_ref t)) \<and>
     columns_len t = 2"
proof -
  obtain t where t: "table_new (ascii ''t'') [id_column, name_column] [Some 1, Some 2] = Ok t"
    using sample_table_new by blast
  then have "catalog_wf t" "length (schema_ref t) = 2"
    using table_new_wf [OF t] by (auto simp: ulid_monotonic_def dest: list_all2_lengthD)
  with t catalog_lookup [of t "ascii ''name''"] show ?thesis by auto
qed

end
