(* ===== verification/Lru_Cache.thy ===== *)
theory Lru_Cache
  imports Logical_Type "HOL-Library.AList" "HOL-Library.Monad_Syntax"
begin

text \<open>
  The LRU caches of \<open>src/src/utils/lru.rs\<close>, which hold table, view and statistics metadata. The nodes of
  the doubly linked list live on an explicit heap, so that the raw pointer operations of \<open>detach\<close> and
  \<open>attach\<close> are heap updates; an operation returns \<open>None\<close> when it follows a pointer to a node that is not
  allocated. The linked list refines the list of its entries, most recently used first, and
  \<open>SharedLruCache\<close> is a client of that contract through the locale \<open>cache\<close>.
\<close>

section \<open>Nodes, pointers and the heap\<close>

type_synonym addr = nat

record ('k, 'v) node =
  nkey :: 'k
  nvalue :: 'v
  nprev :: "addr option"
  nnext :: "addr option"

text \<open>
  \<open>inner\<close> is the \<open>HashMap\<close> from keys to nodes, an association list with distinct keys; \<open>lru_heap\<close> holds the
  nodes made with \<open>Box::leak\<close> and not yet taken back with \<open>Box::from_raw\<close>, and \<open>lru_fresh\<close> is the next
  address of the allocator.
\<close>

record ('k, 'v) lru_cache =
  lru_head :: "addr option"
  lru_tail :: "addr option"
  inner :: "('k \<times> addr) list"
  lru_cap :: nat
  lru_heap :: "addr \<rightharpoonup> ('k, 'v) node"
  lru_fresh :: addr

definition node_new :: "'k \<Rightarrow> 'v \<Rightarrow> ('k, 'v) node" where
  "node_new key val = \<lparr> nkey = key, nvalue = val, nprev = None, nnext = None \<rparr>"

definition update_node ::
  "(('k, 'v) node \<Rightarrow> ('k, 'v) node) \<Rightarrow> addr \<Rightarrow> ('k, 'v) lru_cache \<Rightarrow> ('k, 'v) lru_cache option" where
  "update_node f a s = map_option (\<lambda>nd. s \<lparr> lru_heap := (lru_heap s)(a \<mapsto> f nd) \<rparr>) (lru_heap s a)"

definition alloc_node :: "'k \<Rightarrow> 'v \<Rightarrow> ('k, 'v) lru_cache \<Rightarrow> addr \<times> ('k, 'v) lru_cache" where
  "alloc_node key val s =
    (lru_fresh s, s \<lparr> lru_heap := (lru_heap s)(lru_fresh s \<mapsto> node_new key val), lru_fresh := Suc (lru_fresh s) \<rparr>)"

text \<open>Taking a node back with \<open>Box::from_raw\<close> and reading its value.\<close>

definition free_node :: "addr \<Rightarrow> ('k, 'v) lru_cache \<Rightarrow> ('v \<times> ('k, 'v) lru_cache) option" where
  "free_node a s = map_option (\<lambda>nd. (nvalue nd, s \<lparr> lru_heap := (lru_heap s)(a := None) \<rparr>)) (lru_heap s a)"

section \<open>Operations of one cache\<close>

definition lru_new :: "nat \<Rightarrow> ('k, 'v) lru_cache res" where
  "lru_new cap =
    (if cap < 1 then Err CacheSizeOverFlow
     else Ok \<lparr> lru_head = None, lru_tail = None, inner = [], lru_cap = cap, lru_heap = Map.empty, lru_fresh = 0 \<rparr>)"

definition detach_node :: "addr \<Rightarrow> ('k, 'v) lru_cache \<Rightarrow> ('k, 'v) lru_cache option" where
  "detach_node node s = do {
     nd \<leftarrow> lru_heap s node;
     s \<leftarrow> (case nprev nd of
       Some prev \<Rightarrow> update_node (\<lambda>p. p \<lparr> nnext := nnext nd \<rparr>) prev s
     | None \<Rightarrow> Some (s \<lparr> lru_head := nnext nd \<rparr>));
     nd \<leftarrow> lru_heap s node;
     s \<leftarrow> (case nnext nd of
       Some nxt \<Rightarrow> update_node (\<lambda>p. p \<lparr> nprev := nprev nd \<rparr>) nxt s
     | None \<Rightarrow> Some (s \<lparr> lru_tail := nprev nd \<rparr>));
     update_node (\<lambda>n. n \<lparr> nprev := None, nnext := None \<rparr>) node s
   }"

definition attach_node :: "addr \<Rightarrow> ('k, 'v) lru_cache \<Rightarrow> ('k, 'v) lru_cache option" where
  "attach_node node s = (case lru_head s of
     Some head \<Rightarrow> do {
       s \<leftarrow> update_node (\<lambda>h. h \<lparr> nprev := Some node \<rparr>) head s;
       s \<leftarrow> update_node (\<lambda>n. n \<lparr> nnext := Some head, nprev := None \<rparr>) node s;
       Some (s \<lparr> lru_head := Some node \<rparr>)
     }
   | None \<Rightarrow> do {
       s \<leftarrow> update_node (\<lambda>n. n \<lparr> nprev := None, nnext := None \<rparr>) node s;
       Some (s \<lparr> lru_head := Some node, lru_tail := Some node \<rparr>)
     })"

definition expulsion :: "('k, 'v) lru_cache \<Rightarrow> ('k, 'v) lru_cache option" where
  "expulsion s = (case lru_tail s of
     Some tail \<Rightarrow>
       if lru_cap s \<le> length (inner s) then do {
         s \<leftarrow> detach_node tail s;
         nd \<leftarrow> lru_heap s tail;
         Some (s \<lparr> inner := AList.delete (nkey nd) (inner s) \<rparr>)
       } else Some s
   | None \<Rightarrow> Some s)"

text \<open>The steps shared by \<open>put\<close> and \<open>get_or_insert_node\<close>: a new node replaces the old one of its key.\<close>

definition insert_new ::
  "'k \<Rightarrow> 'v \<Rightarrow> ('k, 'v) lru_cache \<Rightarrow> (addr \<times> addr option \<times> ('k, 'v) lru_cache) option" where
  "insert_new key val s = do {
     let (node, s) = alloc_node key val s;
     let old_node = map_of (inner s) key;
     s \<leftarrow> (case old_node of
       Some old \<Rightarrow> detach_node old (s \<lparr> inner := AList.delete key (inner s) \<rparr>)
     | None \<Rightarrow> Some s);
     s \<leftarrow> expulsion s;
     s \<leftarrow> attach_node node s;
     Some (node, old_node, s \<lparr> inner := AList.update key node (inner s) \<rparr>)
   }"

definition lru_put :: "'k \<Rightarrow> 'v \<Rightarrow> ('k, 'v) lru_cache \<Rightarrow> ('v option \<times> ('k, 'v) lru_cache) option" where
  "lru_put key val s = do {
     (_, old_node, s) \<leftarrow> insert_new key val s;
     (case old_node of
       Some node \<Rightarrow> map_option (\<lambda>(v, s). (Some v, s)) (free_node node s)
     | None \<Rightarrow> Some (None, s))
   }"

definition get_node :: "'k \<Rightarrow> ('k, 'v) lru_cache \<Rightarrow> (addr option \<times> ('k, 'v) lru_cache) option" where
  "get_node key s = (case map_of (inner s) key of
     Some node \<Rightarrow> do {
       s \<leftarrow> detach_node node s;
       s \<leftarrow> attach_node node s;
       Some (Some node, s)
     }
   | None \<Rightarrow> Some (None, s))"

definition lru_get :: "'k \<Rightarrow> ('k, 'v) lru_cache \<Rightarrow> ('v option \<times> ('k, 'v) lru_cache) option" where
  "lru_get key s = do {
     (node, s) \<leftarrow> get_node key s;
     (case node of
       Some a \<Rightarrow> map_option (\<lambda>nd. (Some (nvalue nd), s)) (lru_heap s a)
     | None \<Rightarrow> Some (None, s))
   }"

definition lru_remove :: "'k \<Rightarrow> ('k, 'v) lru_cache \<Rightarrow> ('v option \<times> ('k, 'v) lru_cache) option" where
  "lru_remove key s = (case map_of (inner s) key of
     Some node \<Rightarrow> do {
       s \<leftarrow> detach_node node (s \<lparr> inner := AList.delete key (inner s) \<rparr>);
       map_option (\<lambda>(v, s). (Some v, s)) (free_node node s)
     }
   | None \<Rightarrow> Some (None, s))"

definition get_or_insert_node ::
  "'k \<Rightarrow> ('k \<Rightarrow> 'v res) \<Rightarrow> ('k, 'v) lru_cache \<Rightarrow> (addr res \<times> ('k, 'v) lru_cache) option" where
  "get_or_insert_node key fn_once s = (case map_of (inner s) key of
     Some node \<Rightarrow> do {
       s \<leftarrow> detach_node node s;
       s \<leftarrow> attach_node node s;
       Some (Ok node, s)
     }
   | None \<Rightarrow>
       (case fn_once key of
          Inl e \<Rightarrow> Some (Err e, s)
        | Inr val \<Rightarrow> map_option (\<lambda>(node, _, s). (Ok node, s)) (insert_new key val s)))"

definition lru_get_or_insert ::
  "'k \<Rightarrow> ('k \<Rightarrow> 'v res) \<Rightarrow> ('k, 'v) lru_cache \<Rightarrow> ('v res \<times> ('k, 'v) lru_cache) option" where
  "lru_get_or_insert key fn_once s = do {
     (r, s) \<leftarrow> get_or_insert_node key fn_once s;
     (case r of
        Inl e \<Rightarrow> Some (Err e, s)
      | Inr a \<Rightarrow> map_option (\<lambda>nd. (Ok (nvalue nd), s)) (lru_heap s a))
   }"

definition lru_len :: "('k, 'v) lru_cache \<Rightarrow> nat" where
  "lru_len s = length (inner s)"

definition lru_is_empty :: "('k, 'v) lru_cache \<Rightarrow> bool" where
  "lru_is_empty s \<longleftrightarrow> inner s = []"

text \<open>The entries that the iterator yields, in the order of the \<open>HashMap\<close>.\<close>

definition lru_iter :: "('k, 'v) lru_cache \<Rightarrow> ('k \<times> 'v) list option" where
  "lru_iter s = those (map (\<lambda>(_, a). map_option (\<lambda>nd. (nkey nd, nvalue nd)) (lru_heap s a)) (inner s))"

text \<open>\<open>drop\<close> follows the list and frees each node; the fuel bounds the number of nodes.\<close>

fun lru_drop :: "nat \<Rightarrow> ('k, 'v) lru_cache \<Rightarrow> ('k, 'v) lru_cache option" where
  "lru_drop fuel s = (case lru_head s of
     None \<Rightarrow> Some s
   | Some node \<Rightarrow>
       (case fuel of
          0 \<Rightarrow> None
        | Suc n \<Rightarrow> do {
            nd \<leftarrow> lru_heap s node;
            lru_drop n (s \<lparr> lru_head := nnext nd, lru_heap := (lru_heap s)(node := None) \<rparr>)
          }))"

declare lru_drop.simps [simp del]

section \<open>The list on the heap\<close>

definition first_addr :: "addr list \<Rightarrow> addr option \<Rightarrow> addr option" where
  "first_addr ps n = (case ps of [] \<Rightarrow> n | a # _ \<Rightarrow> Some a)"

definition final_addr :: "addr option \<Rightarrow> addr list \<Rightarrow> addr option" where
  "final_addr p ps = (if ps = [] then p else Some (last ps))"

text \<open>A segment of the list: its addresses, its entries, and the pointers that enter and leave it.\<close>

fun chain ::
  "(addr \<rightharpoonup> ('k, 'v) node) \<Rightarrow> addr option \<Rightarrow> addr list \<Rightarrow> ('k \<times> 'v) list \<Rightarrow> addr option \<Rightarrow> bool" where
  "chain h p [] [] n = True"
| "chain h p (a # as) (e # es) n =
    (h a = Some \<lparr> nkey = fst e, nvalue = snd e, nprev = p, nnext = first_addr as n \<rparr> \<and>
     chain h (Some a) as es n)"
| "chain h p _ _ n = False"

lemma first_addr_simps [simp]:
  "first_addr [] n = n" "first_addr (a # as) n = Some a"
  "first_addr (xs @ ys) n = first_addr xs (first_addr ys n)"
  by (auto simp: first_addr_def split: list.split)

lemma final_addr_simps [simp]:
  "final_addr p [] = p" "final_addr p (a # as) = final_addr (Some a) as"
  "final_addr p (xs @ ys) = final_addr (final_addr p xs) ys"
  by (auto simp: final_addr_def)

lemma chain_length: "chain h p ps es n \<Longrightarrow> length ps = length es"
  by (induction h p ps es n rule: chain.induct) auto

lemma chain_append:
  "length xs = length es \<Longrightarrow>
   chain h p (xs @ ys) (es @ fs) n \<longleftrightarrow> chain h p xs es (first_addr ys n) \<and> chain h (final_addr p xs) ys fs n"
  by (induction xs es arbitrary: p rule: list_induct2) auto

lemma chain_frame: "a \<notin> set ps \<Longrightarrow> chain (h(a := x)) p ps es n \<longleftrightarrow> chain h p ps es n"
  by (induction h p ps es n rule: chain.induct) auto

lemma chain_alloc: "chain h p ps es n \<Longrightarrow> a \<in> set ps \<Longrightarrow> h a \<noteq> None"
  by (induction h p ps es n rule: chain.induct) auto

definition linked :: "('k, 'v) lru_cache \<Rightarrow> addr list \<Rightarrow> ('k \<times> 'v) list \<Rightarrow> bool" where
  "linked s ps es \<longleftrightarrow> chain (lru_heap s) None ps es None \<and> lru_head s = first_addr ps None \<and>
     lru_tail s = final_addr None ps \<and> distinct ps"

text \<open>What an operation on the links leaves alone: the other fields, and the nodes outside the list.\<close>

definition same_rest :: "addr set \<Rightarrow> ('k, 'v) lru_cache \<Rightarrow> ('k, 'v) lru_cache \<Rightarrow> bool" where
  "same_rest A s s' \<longleftrightarrow> inner s' = inner s \<and> lru_cap s' = lru_cap s \<and> lru_fresh s' = lru_fresh s \<and>
     (\<forall>a. a \<notin> A \<longrightarrow> lru_heap s' a = lru_heap s a)"

lemma detach_linked:
  assumes "linked s (xs @ a # ys) (es @ e # fs)" "length xs = length es"
  shows "\<exists>s'. detach_node a s = Some s' \<and> linked s' (xs @ ys) (es @ fs) \<and>
    same_rest (set (xs @ a # ys)) s s' \<and> lru_heap s' a = Some (node_new (fst e) (snd e))"
proof -
  note defs = linked_def chain_append chain_frame detach_node_def update_node_def same_rest_def node_new_def
  have len: "length ys = length fs"
    using assms chain_length [of "lru_heap s" None "xs @ a # ys" "es @ e # fs" None] by (simp add: linked_def)
  consider "xs = []" "ys = []" | b zs f gs where "xs = []" "ys = b # zs" "fs = f # gs"
    | ws l ds d where "xs = ws @ [l]" "es = ds @ [d]" "length ds = length ws" "ys = []"
    | ws l ds d b zs f gs where "xs = ws @ [l]" "es = ds @ [d]" "length ds = length ws" "ys = b # zs" "fs = f # gs"
    using assms(2) len by (cases xs rule: rev_cases; cases es rule: rev_cases; cases ys; cases fs) auto
  then show ?thesis
  proof cases
    case 1
    then show ?thesis using assms len by (auto simp: defs)
  next
    case 2
    then show ?thesis using assms len by (auto simp: defs)
  next
    case 3
    then show ?thesis using assms len by (auto simp: defs)
  next
    case 4
    then show ?thesis using assms len by (auto simp: defs)
  qed
qed

lemma attach_linked:
  assumes "linked s ps es" "lru_heap s a = Some nd" "a \<notin> set ps"
  shows "\<exists>s'. attach_node a s = Some s' \<and> linked s' (a # ps) ((nkey nd, nvalue nd) # es) \<and>
    same_rest (set (a # ps)) s s'"
proof (cases ps)
  case Nil
  then show ?thesis using assms by (cases es) (auto simp: linked_def attach_node_def update_node_def same_rest_def)
next
  case (Cons b qs)
  then show ?thesis using assms
    by (cases es) (auto simp: linked_def attach_node_def update_node_def same_rest_def chain_frame)
qed

section \<open>Refinement of the list of entries\<close>

definition spec_put :: "nat \<Rightarrow> 'k \<Rightarrow> 'v \<Rightarrow> ('k \<times> 'v) list \<Rightarrow> ('k \<times> 'v) list" where
  "spec_put cap k v es =
    (k, v) # (if cap \<le> length (AList.delete k es) then butlast (AList.delete k es) else AList.delete k es)"

definition spec_touch :: "'k \<Rightarrow> ('k \<times> 'v) list \<Rightarrow> ('k \<times> 'v) list" where
  "spec_touch k es = (case map_of es k of Some v \<Rightarrow> (k, v) # AList.delete k es | None \<Rightarrow> es)"

definition indexed :: "('k, 'v) lru_cache \<Rightarrow> addr list \<Rightarrow> ('k \<times> 'v) list \<Rightarrow> bool" where
  "indexed s ps es \<longleftrightarrow> distinct (map fst (inner s)) \<and> distinct (map fst es) \<and>
     set (inner s) = set (zip (map fst es) ps)"

definition fresh_above :: "('k, 'v) lru_cache \<Rightarrow> bool" where
  "fresh_above s \<longleftrightarrow> (\<forall>a. lru_fresh s \<le> a \<longrightarrow> lru_heap s a = None)"

definition lru_core :: "('k, 'v) lru_cache \<Rightarrow> addr list \<Rightarrow> ('k \<times> 'v) list \<Rightarrow> bool" where
  "lru_core s ps es \<longleftrightarrow> linked s ps es \<and> indexed s ps es \<and> fresh_above s"

definition lru_rep :: "('k, 'v) lru_cache \<Rightarrow> ('k \<times> 'v) list \<Rightarrow> bool" where
  "lru_rep s es \<longleftrightarrow> (\<exists>ps. lru_core s ps es) \<and> length es \<le> lru_cap s \<and> 0 < lru_cap s"

lemma linked_length: "linked s ps es \<Longrightarrow> length ps = length es"
  by (auto simp: linked_def dest: chain_length)

lemma indexed_length:
  assumes "linked s ps es" "indexed s ps es"
  shows "length (inner s) = length es"
proof -
  have len: "length ps = length es" by (rule linked_length [OF assms(1)])
  then have "distinct (map fst (zip (map fst es) ps))"
    using assms(2) by (simp add: indexed_def)
  then have "distinct (zip (map fst es) ps)" "distinct (inner s)"
    using assms(2) by (auto simp: indexed_def distinct_map)
  then have "length (inner s) = length (zip (map fst es) ps)"
    using assms(2) by (metis indexed_def distinct_card)
  then show ?thesis using len by simp
qed

lemma delete_split:
  assumes "distinct (map fst (es @ (k, v) # fs))"
  shows "AList.delete k (es @ (k, v) # fs) = es @ fs"
proof -
  have "AList.delete k es = es" "AList.delete k fs = fs"
    using assms by (simp_all add: AList.delete_idem)
  then show ?thesis by (simp add: AList.delete_eq)
qed

lemma lookup_split:
  assumes "linked s ps es" "indexed s ps es" "map_of (inner s) k = Some a"
  obtains xs ys ds v fs where "ps = xs @ a # ys" "es = ds @ (k, v) # fs" "length xs = length ds"
    "map_of es k = Some v" "AList.delete k es = ds @ fs"
proof -
  have len: "length ps = length es" by (rule linked_length [OF assms(1)])
  have dist: "distinct (map fst es)" using assms(2) by (simp add: indexed_def)
  have "(k, a) \<in> set (zip (map fst es) ps)"
    using assms(2,3) by (auto simp: indexed_def dest: map_of_SomeD)
  then obtain i where i: "i < length es" "fst (es ! i) = k" "ps ! i = a"
    using len by (auto simp: set_zip)
  define v where "v = snd (es ! i)"
  have kv: "es ! i = (k, v)" using i(2) by (auto simp: v_def)
  have split: "es = take i es @ (k, v) # drop (Suc i) es" "ps = take i ps @ a # drop (Suc i) ps"
    using i len kv id_take_nth_drop [of i es] id_take_nth_drop [of i ps] by simp_all
  show thesis
  proof (rule that)
    show "map_of es k = Some v"
      using dist i(1) kv by (metis map_of_eq_Some_iff nth_mem)
    show "AList.delete k es = take i es @ drop (Suc i) es"
      using delete_split [of "take i es" k v "drop (Suc i) es"] split dist by simp
  qed (use split i len in auto)
qed

lemma lookup_None:
  assumes "linked s ps es" "indexed s ps es" "map_of (inner s) k = None"
  shows "map_of es k = None" "AList.delete k es = es"
proof -
  have "fst ` set (inner s) = fst ` set (zip (map fst es) ps)"
    using assms(2) by (simp add: indexed_def)
  then have "k \<notin> fst ` set es"
    using assms(3) linked_length [OF assms(1)] by (auto simp: map_of_eq_None_iff simp flip: set_map)
  then show "map_of es k = None" "AList.delete k es = es"
    by (simp_all add: map_of_eq_None_iff AList.delete_idem)
qed

lemma core_allocated: "lru_core s ps es \<Longrightarrow> a \<in> set ps \<Longrightarrow> a < lru_fresh s"
  using chain_alloc unfolding lru_core_def linked_def fresh_above_def by (meson not_le)

lemma fresh_same_rest:
  "fresh_above s \<Longrightarrow> same_rest A s s' \<Longrightarrow> \<forall>a\<in>A. a < lru_fresh s \<Longrightarrow> fresh_above s'"
  unfolding fresh_above_def same_rest_def by (metis not_less)

lemma set_delete: "set (AList.delete k al) = {p \<in> set al. fst p \<noteq> k}"
  by (auto simp: AList.delete_eq)

lemma indexed_delete:
  assumes "indexed s (xs @ a # ys) (ds @ (k, v) # fs)" "length xs = length ds"
    and "inner s' = AList.delete k (inner s)"
  shows "indexed s' (xs @ ys) (ds @ fs)"
proof -
  have "k \<notin> set (map fst (ds @ fs))" using assms(1) by (auto simp: indexed_def)
  then have "{p \<in> set (zip (map fst (ds @ (k, v) # fs)) (xs @ a # ys)). fst p \<noteq> k} =
      set (zip (map fst (ds @ fs)) (xs @ ys))"
    using assms(2) by (auto dest: set_zip_leftD)
  then show ?thesis
    using assms(1,3) by (auto simp: indexed_def set_delete distinct_delete)
qed

lemma linked_inner [simp]: "linked (s\<lparr> inner := i \<rparr>) ps es \<longleftrightarrow> linked s ps es"
  by (simp add: linked_def)

lemma core_detach:
  assumes "lru_core s ps es" "map_of (inner s) k = Some a"
  shows "\<exists>s' qs v. detach_node a (s\<lparr> inner := AList.delete k (inner s) \<rparr>) = Some s' \<and>
    lru_core s' qs (AList.delete k es) \<and> lru_heap s' a = Some (node_new k v) \<and> map_of es k = Some v \<and>
    set ps = insert a (set qs) \<and> a \<notin> set qs \<and> same_rest (set ps) (s\<lparr> inner := AList.delete k (inner s) \<rparr>) s'"
proof -
  let ?s = "s\<lparr> inner := AList.delete k (inner s) \<rparr>"
  have core: "linked s ps es" "indexed s ps es" "fresh_above s" using assms(1) by (auto simp: lru_core_def)
  obtain xs ys ds v fs where sp: "ps = xs @ a # ys" "es = ds @ (k, v) # fs" "length xs = length ds"
    "map_of es k = Some v" "AList.delete k es = ds @ fs"
    using lookup_split [OF core(1,2) assms(2)] by blast
  have "linked ?s (xs @ a # ys) (ds @ (k, v) # fs)" using core(1) sp by simp
  from detach_linked [OF this sp(3)] obtain s' where s': "detach_node a ?s = Some s'"
    "linked s' (xs @ ys) (ds @ fs)" "same_rest (set ps) ?s s'" "lru_heap s' a = Some (node_new k v)"
    using sp(1) by auto
  have "fresh_above s'"
    by (rule fresh_same_rest [OF _ s'(3)]) (use core(3) core_allocated [OF assms(1)] in \<open>auto simp: fresh_above_def\<close>)
  moreover have "indexed s' (xs @ ys) (ds @ fs)"
    by (rule indexed_delete [of s xs a ys ds k v fs]) (use core(2) sp s'(3) in \<open>auto simp: same_rest_def\<close>)
  moreover have "set ps = insert a (set (xs @ ys)) \<and> a \<notin> set (xs @ ys)"
    using core(1) sp(1) by (auto simp: linked_def)
  ultimately show ?thesis using s' sp by (auto simp: lru_core_def)
qed

lemma set_update_absent: "k \<notin> fst ` set al \<Longrightarrow> AList.update k a al = al @ [(k, a)]"
  by (induction al) auto

lemma core_attach:
  assumes "lru_core s ps es" "lru_heap s a = Some nd" "a \<notin> set ps" "nkey nd \<notin> fst ` set es"
  shows "\<exists>s'. attach_node a s = Some s' \<and>
    lru_core (s'\<lparr> inner := AList.update (nkey nd) a (inner s') \<rparr>) (a # ps) ((nkey nd, nvalue nd) # es) \<and>
    same_rest (set (a # ps)) s s' \<and> map_option nvalue (lru_heap s' a) = Some (nvalue nd)"
proof -
  have core: "linked s ps es" "indexed s ps es" "fresh_above s" using assms(1) by (auto simp: lru_core_def)
  from attach_linked [OF core(1) assms(2,3)] obtain s' where s': "attach_node a s = Some s'"
    "linked s' (a # ps) ((nkey nd, nvalue nd) # es)" "same_rest (set (a # ps)) s s'" by blast
  have "a < lru_fresh s" using core(3) assms(2) by (auto simp: fresh_above_def not_le [symmetric])
  then have "fresh_above s'"
    using fresh_same_rest [OF core(3) s'(3)] core_allocated [OF assms(1)] by simp
  moreover have in': "inner s' = inner s" using s'(3) by (simp add: same_rest_def)
  moreover have "nkey nd \<notin> fst ` set (inner s)"
    using core(2) assms(4) by (auto simp: indexed_def dest: set_zip_leftD)
  ultimately show ?thesis
    using s' core(2) assms(4)
    by (auto simp: lru_core_def indexed_def fresh_above_def set_update_absent linked_def)
qed

lemma detach_node_inner:
  "detach_node a (s\<lparr> inner := i \<rparr>) = map_option (\<lambda>s'. s'\<lparr> inner := i \<rparr>) (detach_node a s)"
  by (auto simp: detach_node_def update_node_def split: option.splits Option.bind_splits)

lemma detach_node_fields:
  "detach_node a s = Some s' \<Longrightarrow> inner s' = inner s \<and> lru_cap s' = lru_cap s \<and> lru_fresh s' = lru_fresh s"
  by (auto simp: detach_node_def update_node_def split: option.splits Option.bind_splits)

lemma core_expulsion:
  assumes "lru_core s ps es" "0 < lru_cap s"
  shows "\<exists>s' qs. expulsion s = Some s' \<and>
    lru_core s' qs (if lru_cap s \<le> length es then butlast es else es) \<and> set qs \<subseteq> set ps \<and>
    lru_cap s' = lru_cap s \<and> lru_fresh s' = lru_fresh s \<and> (\<forall>b. b \<notin> set ps \<longrightarrow> lru_heap s' b = lru_heap s b)"
proof (cases "lru_cap s \<le> length es")
  case True
  have core: "linked s ps es" "indexed s ps es" using assms(1) by (auto simp: lru_core_def)
  have len: "length ps = length es" by (rule linked_length [OF core(1)])
  with True assms(2) obtain ds k v xs l where sp: "es = ds @ [(k, v)]" "ps = xs @ [l]" "length xs = length ds"
    by (cases es rule: rev_cases; cases ps rule: rev_cases) auto
  have "(k, l) \<in> set (inner s)" using core(2) sp by (simp add: indexed_def)
  then have "map_of (inner s) k = Some l" using core(2) by (simp add: indexed_def)
  from core_detach [OF assms(1) this] obtain s' qs w where s':
    "detach_node l (s\<lparr> inner := AList.delete k (inner s) \<rparr>) = Some s'" "lru_core s' qs (AList.delete k es)"
    "lru_heap s' l = Some (node_new k w)" "set qs \<subseteq> set ps"
    "same_rest (set ps) (s\<lparr> inner := AList.delete k (inner s) \<rparr>) s'" by blast
  from s'(1) obtain t where t: "detach_node l s = Some t" "s' = t\<lparr> inner := AList.delete k (inner s) \<rparr>"
    by (auto simp: detach_node_inner)
  have "AList.delete k es = butlast es"
    using delete_split [of ds k v "[]"] core(2) sp(1) by (simp add: indexed_def)
  moreover have "lru_tail s = Some l" using core(1) sp by (simp add: linked_def)
  moreover have "lru_heap t l = Some (node_new k w)" using s'(3) t(2) by simp
  ultimately show ?thesis
    using t s' True detach_node_fields [OF t(1)] indexed_length [OF core]
    by (auto simp: expulsion_def same_rest_def node_new_def)
next
  case False
  then show ?thesis using assms indexed_length [of s ps es]
    by (auto simp: expulsion_def lru_core_def split: option.split)
qed

text \<open>The node of a key, after \<open>alloc_node\<close> and the removal of the old node.\<close>

lemma core_alloc:
  assumes "lru_core s ps es" "alloc_node k v s = (a, t)"
  shows "lru_core t ps es" "a \<notin> set ps" "lru_heap t a = Some (node_new k v)" "lru_cap t = lru_cap s"
    "inner t = inner s" "\<And>b. b \<noteq> a \<Longrightarrow> lru_heap t b = lru_heap s b"
proof -
  have "a = lru_fresh s" using assms(2) by (simp add: alloc_node_def)
  then show "a \<notin> set ps" using core_allocated [OF assms(1)] by auto
  then show "lru_core t ps es"
    using assms by (auto simp: alloc_node_def lru_core_def linked_def indexed_def fresh_above_def chain_frame)
qed (use assms in \<open>auto simp: alloc_node_def\<close>)

lemma core_take_old:
  assumes "lru_core t ps es"
  shows "\<exists>u qs. (case map_of (inner t) k of
      Some old \<Rightarrow> detach_node old (t\<lparr> inner := AList.delete k (inner t) \<rparr>) | None \<Rightarrow> Some t) = Some u \<and>
    lru_core u qs (AList.delete k es) \<and> set qs \<subseteq> set ps \<and> lru_cap u = lru_cap t \<and>
    (\<forall>b. b \<notin> set ps \<longrightarrow> lru_heap u b = lru_heap t b) \<and>
    (\<forall>b. map_of (inner t) k = Some b \<longrightarrow>
       b \<in> set ps \<and> b \<notin> set qs \<and> map_option nvalue (lru_heap u b) = map_of es k) \<and>
    (map_of (inner t) k = None \<longleftrightarrow> map_of es k = None)"
proof (cases "map_of (inner t) k")
  case None
  then show ?thesis using assms lookup_None [of t ps es k] by (auto simp: lru_core_def)
next
  case (Some b)
  from core_detach [OF assms Some] obtain u qs v where
    "detach_node b (t\<lparr> inner := AList.delete k (inner t) \<rparr>) = Some u" "lru_core u qs (AList.delete k es)"
    "lru_heap u b = Some (node_new k v)" "map_of es k = Some v" "set ps = insert b (set qs)" "b \<notin> set qs"
    "same_rest (set ps) (t\<lparr> inner := AList.delete k (inner t) \<rparr>) u" by blast
  then show ?thesis using Some by (auto simp: same_rest_def node_new_def)
qed

lemma delete_key_absent: "k \<notin> fst ` set (AList.delete k es)"
  by (auto simp: AList.delete_eq)

lemma insert_new_rep:
  assumes "lru_rep s es"
  shows "\<exists>a s' ps. insert_new k v s = Some (a, map_of (inner s) k, s') \<and>
    lru_core s' ps (spec_put (lru_cap s) k v es) \<and> lru_cap s' = lru_cap s \<and>
    map_option nvalue (lru_heap s' a) = Some v \<and>
    (\<forall>b. map_of (inner s) k = Some b \<longrightarrow> b \<notin> set ps \<and> map_option nvalue (lru_heap s' b) = map_of es k) \<and>
    (map_of (inner s) k = None \<longleftrightarrow> map_of es k = None)"
proof -
  obtain ps where core: "lru_core s ps es" and cap: "0 < lru_cap s"
    using assms by (auto simp: lru_rep_def)
  obtain a t where al: "alloc_node k v s = (a, t)" by (cases "alloc_node k v s")
  note t = core_alloc [OF core al]
  obtain u qs where u: "(case map_of (inner t) k of
        Some old \<Rightarrow> detach_node old (t\<lparr> inner := AList.delete k (inner t) \<rparr>) | None \<Rightarrow> Some t) = Some u"
    "lru_core u qs (AList.delete k es)" "set qs \<subseteq> set ps" "lru_cap u = lru_cap t"
    "\<forall>b. b \<notin> set ps \<longrightarrow> lru_heap u b = lru_heap t b"
    "\<forall>b. map_of (inner t) k = Some b \<longrightarrow>
      b \<in> set ps \<and> b \<notin> set qs \<and> map_option nvalue (lru_heap u b) = map_of es k"
    "map_of (inner t) k = None \<longleftrightarrow> map_of es k = None"
    using core_take_old [OF t(1), of k] by metis
  obtain w rs where w: "expulsion u = Some w"
    "lru_core w rs (if lru_cap u \<le> length (AList.delete k es) then butlast (AList.delete k es) else AList.delete k es)"
    "set rs \<subseteq> set qs" "lru_cap w = lru_cap u" "\<And>b. b \<notin> set qs \<Longrightarrow> lru_heap w b = lru_heap u b"
    using core_expulsion [OF u(2)] cap u(4) t(4) by auto
  define fs where
    "fs = (if lru_cap u \<le> length (AList.delete k es) then butlast (AList.delete k es) else AList.delete k es)"
  have "a \<notin> set qs" using t(2) u(3) by blast
  then have "lru_heap w a = Some (node_new k v)" using w(5) [of a] u(5) t(2,3) by simp
  moreover have "lru_core w rs fs" "a \<notin> set rs" "k \<notin> fst ` set fs"
    using w(2,3) \<open>a \<notin> set qs\<close> delete_key_absent [of k es] by (auto simp: fs_def dest: in_set_butlastD)
  ultimately obtain x where x: "attach_node a w = Some x"
    "lru_core (x\<lparr> inner := AList.update k a (inner x) \<rparr>) (a # rs) ((k, v) # fs)"
    "same_rest (set (a # rs)) w x" "map_option nvalue (lru_heap x a) = Some v"
    using core_attach [of w rs fs a "node_new k v"] by (auto simp: node_new_def)
  have "insert_new k v s = Some (a, map_of (inner s) k, x\<lparr> inner := AList.update k a (inner x) \<rparr>)"
    using al u(1) w(1) x(1) t(5) by (simp add: insert_new_def)
  moreover have "spec_put (lru_cap s) k v es = (k, v) # fs"
    using u(4) t(4) by (simp add: spec_put_def fs_def)
  moreover have "b \<notin> set (a # rs) \<and> map_option nvalue (lru_heap x b) = map_of es k"
    if "map_of (inner s) k = Some b" for b
    using u(6) w(3) w(5) [of b] x(3) t(2,5) that by (auto simp: same_rest_def)
  moreover have "lru_cap x = lru_cap s" using x(3) u(4) w(4) t(4) by (simp add: same_rest_def)
  ultimately show ?thesis
    using x(2,4) u(7) t(5)
    by (intro exI [of _ a] exI [of _ "x\<lparr> inner := AList.update k a (inner x) \<rparr>"] exI [of _ "a # rs"]) simp
qed

lemma length_delete_le: "length (AList.delete k es) \<le> length es"
  by (simp add: AList.delete_eq)

lemma length_spec_put: "length es \<le> cap \<Longrightarrow> 0 < cap \<Longrightarrow> length (spec_put cap k v es) \<le> cap"
  using length_delete_le [of k es] by (auto simp: spec_put_def)

lemma core_free:
  assumes "lru_core s ps es" "a \<notin> set ps"
  shows "lru_core (s\<lparr> lru_heap := (lru_heap s)(a := None) \<rparr>) ps es"
  using assms by (auto simp: lru_core_def linked_def indexed_def fresh_above_def chain_frame)

lemma lru_put_rep:
  assumes "lru_rep s es"
  shows "\<exists>s'. lru_put k v s = Some (map_of es k, s') \<and> lru_rep s' (spec_put (lru_cap s) k v es) \<and>
    lru_cap s' = lru_cap s"
proof -
  from insert_new_rep [OF assms, of k v] obtain a s' ps where ins:
    "insert_new k v s = Some (a, map_of (inner s) k, s')" "lru_core s' ps (spec_put (lru_cap s) k v es)"
    "lru_cap s' = lru_cap s"
    "\<forall>b. map_of (inner s) k = Some b \<longrightarrow> b \<notin> set ps \<and> map_option nvalue (lru_heap s' b) = map_of es k"
    "map_of (inner s) k = None \<longleftrightarrow> map_of es k = None" by metis
  have len: "length (spec_put (lru_cap s) k v es) \<le> lru_cap s" "0 < lru_cap s"
    using assms by (auto simp: lru_rep_def intro: length_spec_put)
  show ?thesis
  proof (cases "map_of (inner s) k")
    case None
    then show ?thesis using ins len by (auto simp: lru_put_def lru_rep_def)
  next
    case (Some b)
    with ins(4,5) obtain nd where nd: "lru_heap s' b = Some nd" "map_of es k = Some (nvalue nd)" "b \<notin> set ps"
      by auto
    then show ?thesis
      using Some ins(1,3) len core_free [OF ins(2) nd(3)]
      by (auto simp: lru_put_def free_node_def lru_rep_def)
  qed
qed

lemma update_same: "distinct (map fst al) \<Longrightarrow> map_of al k = Some a \<Longrightarrow> AList.update k a al = al"
  by (induction al) auto

lemma core_touch:
  assumes "lru_core s ps es" "map_of (inner s) k = Some a"
  shows "\<exists>s' qs v. detach_node a s \<bind> attach_node a = Some s' \<and> lru_core s' qs (spec_touch k es) \<and>
    lru_cap s' = lru_cap s \<and> map_of es k = Some v \<and> map_option nvalue (lru_heap s' a) = Some v"
proof -
  have core: "linked s ps es" "indexed s ps es" "fresh_above s" using assms(1) by (auto simp: lru_core_def)
  obtain xs ys ds v fs where sp: "ps = xs @ a # ys" "es = ds @ (k, v) # fs" "length xs = length ds"
    "map_of es k = Some v" "AList.delete k es = ds @ fs"
    using lookup_split [OF core(1,2) assms(2)] by blast
  from detach_linked [of s xs a ys ds "(k, v)" fs] obtain t where t: "detach_node a s = Some t"
    "linked t (xs @ ys) (ds @ fs)" "same_rest (set ps) s t" "lru_heap t a = Some (node_new k v)"
    using core(1) sp by auto
  have "a \<notin> set (xs @ ys)" using core(1) sp(1) by (auto simp: linked_def)
  from attach_linked [OF t(2,4) this] obtain u where u: "attach_node a t = Some u"
    "linked u (a # xs @ ys) ((k, v) # ds @ fs)" "same_rest (set (a # xs @ ys)) t u"
    by (auto simp: node_new_def)
  have rest: "same_rest (set ps) s u" using t(3) u(3) sp(1) by (auto simp: same_rest_def)
  have "fresh_above u"
    using fresh_same_rest [OF core(3) rest] core_allocated [OF assms(1)] by simp
  moreover have "indexed u (a # xs @ ys) ((k, v) # ds @ fs)"
    using core(2) sp(1-3) rest by (auto simp: indexed_def same_rest_def)
  moreover have "spec_touch k es = (k, v) # ds @ fs"
    using sp(4,5) by (simp add: spec_touch_def)
  moreover have "map_option nvalue (lru_heap u a) = Some v" using u(2) by (simp add: linked_def)
  ultimately show ?thesis
    using t(1) u(1,2) rest sp(4) by (auto simp: lru_core_def same_rest_def)
qed

lemma length_delete_present:
  assumes "distinct (map fst es)" "map_of es k = Some v"
  shows "length es = Suc (length (AList.delete k es))"
proof -
  from assms(2) obtain ds fs where es: "es = ds @ (k, v) # fs" by (meson map_of_SomeD split_list)
  then show ?thesis using delete_split [of ds k v fs] assms(1) by simp
qed

lemma lru_get_rep:
  assumes "lru_rep s es"
  shows "\<exists>s'. lru_get k s = Some (map_of es k, s') \<and> lru_rep s' (spec_touch k es) \<and> lru_cap s' = lru_cap s"
proof -
  obtain ps where core: "lru_core s ps es" and cap: "0 < lru_cap s" "length es \<le> lru_cap s"
    using assms by (auto simp: lru_rep_def)
  show ?thesis
  proof (cases "map_of (inner s) k")
    case None
    then have "map_of es k = None" using core lookup_None [of s ps es k] by (auto simp: lru_core_def)
    then show ?thesis using None assms by (auto simp: lru_get_def get_node_def spec_touch_def)
  next
    case (Some a)
    from core_touch [OF core Some] obtain s' qs v where s': "detach_node a s \<bind> attach_node a = Some s'"
      "lru_core s' qs (spec_touch k es)" "lru_cap s' = lru_cap s" "map_of es k = Some v"
      "map_option nvalue (lru_heap s' a) = Some v" by blast
    have "length (spec_touch k es) = length es"
      using core s'(4) length_delete_present [of es k v] by (auto simp: spec_touch_def lru_core_def indexed_def)
    then show ?thesis
      using Some s' cap by (auto simp: lru_get_def get_node_def lru_rep_def split: Option.bind_splits)
  qed
qed

lemma lru_remove_rep:
  assumes "lru_rep s es"
  shows "\<exists>s'. lru_remove k s = Some (map_of es k, s') \<and> lru_rep s' (AList.delete k es) \<and> lru_cap s' = lru_cap s"
proof -
  obtain ps where core: "lru_core s ps es" and cap: "0 < lru_cap s" "length es \<le> lru_cap s"
    using assms by (auto simp: lru_rep_def)
  show ?thesis
  proof (cases "map_of (inner s) k")
    case None
    then have "map_of es k = None" "AList.delete k es = es"
      using core lookup_None [of s ps es k] by (auto simp: lru_core_def)
    then show ?thesis using None assms by (auto simp: lru_remove_def)
  next
    case (Some a)
    from core_detach [OF core Some] obtain t qs v where t:
      "detach_node a (s\<lparr> inner := AList.delete k (inner s) \<rparr>) = Some t" "lru_core t qs (AList.delete k es)"
      "lru_heap t a = Some (node_new k v)" "map_of es k = Some v" "a \<notin> set qs" "lru_cap t = lru_cap s"
      by (auto simp: same_rest_def)
    then show ?thesis
      using Some cap core_free [OF t(2,5)] length_delete_le [of k es]
      by (auto simp: lru_remove_def free_node_def lru_rep_def node_new_def)
  qed
qed

lemma lru_get_or_insert_rep:
  assumes "lru_rep s es"
  shows "\<exists>s'. lru_get_or_insert k f s =
      Some (case map_of es k of Some v \<Rightarrow> Ok v | None \<Rightarrow> f k, s') \<and> lru_cap s' = lru_cap s \<and>
    lru_rep s' (case map_of es k of
      Some v \<Rightarrow> spec_touch k es
    | None \<Rightarrow> (case f k of Inl e \<Rightarrow> es | Inr v \<Rightarrow> spec_put (lru_cap s) k v es))"
proof -
  obtain ps where core: "lru_core s ps es" and cap: "0 < lru_cap s" "length es \<le> lru_cap s"
    using assms by (auto simp: lru_rep_def)
  show ?thesis
  proof (cases "map_of (inner s) k")
    case None
    then have none: "map_of es k = None" using core lookup_None [of s ps es k] by (auto simp: lru_core_def)
    show ?thesis
    proof (cases "f k")
      case (Inl e)
      then show ?thesis using None none assms by (simp add: lru_get_or_insert_def get_or_insert_node_def)
    next
      case (Inr v)
      then show ?thesis
        using None none insert_new_rep [OF assms, of k v] cap length_spec_put [OF cap(2,1)]
        by (auto simp: lru_get_or_insert_def get_or_insert_node_def lru_rep_def)
    qed
  next
    case (Some a)
    from core_touch [OF core Some] obtain s' qs v where s': "detach_node a s \<bind> attach_node a = Some s'"
      "lru_core s' qs (spec_touch k es)" "lru_cap s' = lru_cap s" "map_of es k = Some v"
      "map_option nvalue (lru_heap s' a) = Some v" by blast
    have "length (spec_touch k es) = length es"
      using core s'(4) length_delete_present [of es k v] by (auto simp: spec_touch_def lru_core_def indexed_def)
    then show ?thesis
      using Some s' cap
      by (auto simp: lru_get_or_insert_def get_or_insert_node_def lru_rep_def split: Option.bind_splits)
  qed
qed

lemma lru_rep_new: "0 < cap \<Longrightarrow> \<exists>s. lru_new cap = Ok s \<and> lru_rep s [] \<and> lru_cap s = cap"
  by (auto simp: lru_new_def lru_rep_def lru_core_def linked_def indexed_def fresh_above_def
      intro!: exI [of _ "[]"])

lemma lru_rep_distinct: "lru_rep s es \<Longrightarrow> distinct (map fst es)"
  by (auto simp: lru_rep_def lru_core_def indexed_def)

lemma lru_rep_len: "lru_rep s es \<Longrightarrow> lru_len s = length es"
  by (auto simp: lru_rep_def lru_core_def lru_len_def indexed_length)

section \<open>The contract of a cache\<close>

datatype ('k, 'v) cache_op = CacheGet 'k | CachePut 'k 'v | CacheRemove 'k

text \<open>The entries after an operation and the value it returns.\<close>

fun spec_op :: "nat \<Rightarrow> ('k, 'v) cache_op \<Rightarrow> ('k \<times> 'v) list \<Rightarrow> 'v option \<times> ('k \<times> 'v) list" where
  "spec_op cap (CacheGet k) es = (map_of es k, spec_touch k es)"
| "spec_op cap (CachePut k v) es = (map_of es k, spec_put cap k v es)"
| "spec_op cap (CacheRemove k) es = (map_of es k, AList.delete k es)"

fun spec_run :: "nat \<Rightarrow> ('k, 'v) cache_op list \<Rightarrow> ('k \<times> 'v) list \<Rightarrow> 'v option list \<times> ('k \<times> 'v) list" where
  "spec_run cap [] es = ([], es)"
| "spec_run cap (c # cs) es =
    (let (r, es') = spec_op cap c es; (rs, es'') = spec_run cap cs es' in (r # rs, es''))"

fun run_op ::
  "('k \<Rightarrow> 's \<Rightarrow> ('v option \<times> 's) option) \<Rightarrow> ('k \<Rightarrow> 'v \<Rightarrow> 's \<Rightarrow> ('v option \<times> 's) option) \<Rightarrow>
   ('k \<Rightarrow> 's \<Rightarrow> ('v option \<times> 's) option) \<Rightarrow> ('k, 'v) cache_op \<Rightarrow> 's \<Rightarrow> ('v option \<times> 's) option" where
  "run_op get put rem (CacheGet k) s = get k s"
| "run_op get put rem (CachePut k v) s = put k v s"
| "run_op get put rem (CacheRemove k) s = rem k s"

fun run_ops ::
  "('k \<Rightarrow> 's \<Rightarrow> ('v option \<times> 's) option) \<Rightarrow> ('k \<Rightarrow> 'v \<Rightarrow> 's \<Rightarrow> ('v option \<times> 's) option) \<Rightarrow>
   ('k \<Rightarrow> 's \<Rightarrow> ('v option \<times> 's) option) \<Rightarrow> ('k, 'v) cache_op list \<Rightarrow> 's \<Rightarrow> ('v option list \<times> 's) option" where
  "run_ops get put rem [] s = Some ([], s)"
| "run_ops get put rem (c # cs) s = do {
     (r, s) \<leftarrow> run_op get put rem c s;
     (rs, s) \<leftarrow> run_ops get put rem cs s;
     Some (r # rs, s)
   }"

locale cache =
  fixes get :: "'k \<Rightarrow> 's \<Rightarrow> ('v option \<times> 's) option"
    and put :: "'k \<Rightarrow> 'v \<Rightarrow> 's \<Rightarrow> ('v option \<times> 's) option"
    and rem :: "'k \<Rightarrow> 's \<Rightarrow> ('v option \<times> 's) option"
    and rep :: "'s \<Rightarrow> ('k \<times> 'v) list \<Rightarrow> bool"
    and capacity :: "'s \<Rightarrow> nat"
  assumes get_rep: "rep s es \<Longrightarrow>
      \<exists>s'. get k s = Some (map_of es k, s') \<and> rep s' (spec_touch k es) \<and> capacity s' = capacity s"
    and put_rep: "rep s es \<Longrightarrow>
      \<exists>s'. put k v s = Some (map_of es k, s') \<and> rep s' (spec_put (capacity s) k v es) \<and> capacity s' = capacity s"
    and rem_rep: "rep s es \<Longrightarrow>
      \<exists>s'. rem k s = Some (map_of es k, s') \<and> rep s' (AList.delete k es) \<and> capacity s' = capacity s"
    and rep_distinct: "rep s es \<Longrightarrow> distinct (map fst es)"
    and rep_capacity: "rep s es \<Longrightarrow> length es \<le> capacity s"
begin

lemma op_refines:
  "rep s es \<Longrightarrow> \<exists>s'. run_op get put rem c s = Some (fst (spec_op (capacity s) c es), s') \<and>
     rep s' (snd (spec_op (capacity s) c es)) \<and> capacity s' = capacity s"
  by (cases c) (simp_all add: get_rep put_rep rem_rep)

lemma run_refines:
  "rep s es \<Longrightarrow> \<exists>s'. run_ops get put rem cs s = Some (fst (spec_run (capacity s) cs es), s') \<and>
     rep s' (snd (spec_run (capacity s) cs es)) \<and> capacity s' = capacity s"
proof (induction cs arbitrary: s es)
  case (Cons c cs)
  from op_refines [OF Cons.prems, of c] obtain s1 where s1:
    "run_op get put rem c s = Some (fst (spec_op (capacity s) c es), s1)"
    "rep s1 (snd (spec_op (capacity s) c es))" "capacity s1 = capacity s" by blast
  from Cons.IH [OF s1(2)] s1 show ?case by (auto simp: Let_def split: prod.splits)
qed simp

end

interpretation lru: cache lru_get lru_put lru_remove lru_rep lru_cap
  by unfold_locales
    (auto simp: lru_rep_distinct lru_get_rep lru_put_rep lru_remove_rep, simp add: lru_rep_def)

text \<open>
  C8: A new cache answers every sequence of operations as the list of its entries does, most recently
  used first, with the least recently used entry dropped when a new key arrives at a full cache. No
  operation follows a dangling pointer, and the cache never holds more entries than its capacity.
\<close>

theorem lru_refines:
  fixes cs :: "('k, 'v) cache_op list"
  assumes "0 < cap"
  shows "\<exists>s s'. lru_new cap = Ok s \<and>
    run_ops lru_get lru_put lru_remove cs s = Some (fst (spec_run cap cs []), s') \<and>
    lru_len s' = length (snd (spec_run cap cs [])) \<and> lru_len s' \<le> cap"
proof -
  from lru_rep_new [OF assms] obtain s :: "('k, 'v) lru_cache"
    where s: "lru_new cap = Ok s" "lru_rep s []" "lru_cap s = cap" by blast
  from lru.run_refines [OF s(2), of cs] obtain s' where
    "run_ops lru_get lru_put lru_remove cs s = Some (fst (spec_run cap cs []), s')"
    "lru_rep s' (snd (spec_run cap cs []))" "lru_cap s' = cap" using s(3) by auto
  then show ?thesis using s(1) lru_rep_len lru.rep_capacity by fastforce
qed

theorem lru_refines_witness:
  "\<exists>s s'. lru_new 3 = Ok s \<and>
    run_ops lru_get lru_put lru_remove
      [CachePut 1 10, CachePut 2 20, CachePut 3 30, CacheGet 1, CachePut 2 200, CachePut 4 40, CacheGet (2 :: nat),
       CacheGet 3] s = Some ([None, None, None, Some 10, Some (20 :: nat), None, Some 200, None], s') \<and> lru_len s' \<le> 3"
proof -
  let ?cs = "[CachePut 1 10, CachePut 2 20, CachePut 3 30, CacheGet 1, CachePut 2 200, CachePut 4 40,
    CacheGet (2 :: nat), CacheGet 3] :: (nat, nat) cache_op list"
  have spec: "fst (spec_run 3 ?cs []) = [None, None, None, Some 10, Some 20, None, Some 200, None]"
    by code_simp
  have "0 < (3 :: nat)" by simp
  from lru_refines [OF this, of ?cs] show ?thesis unfolding spec by blast
qed

text \<open>
  C24: \<open>get_or_insert\<close> returns the cached value and makes it the most recent one; otherwise it computes the
  value, stores it and returns it; and when the computation fails it returns the error and leaves the
  entries as they were.
\<close>

theorem lru_get_or_insert_spec:
  assumes "lru_rep s es"
  shows "\<exists>s'. lru_get_or_insert k f s =
      Some (case map_of es k of Some v \<Rightarrow> Ok v | None \<Rightarrow> f k, s') \<and> lru_cap s' = lru_cap s \<and>
    lru_rep s' (case map_of es k of
      Some v \<Rightarrow> spec_touch k es
    | None \<Rightarrow> (case f k of Inl e \<Rightarrow> es | Inr v \<Rightarrow> spec_put (lru_cap s) k v es))"
  by (rule lru_get_or_insert_rep [OF assms])

lemma lru_rep_single:
  "lru_rep \<lparr> lru_head = Some 0, lru_tail = Some 0, inner = [(k, 0)], lru_cap = 1,
     lru_heap = [0 \<mapsto> node_new k v], lru_fresh = 1 \<rparr> [(k, v)]"
  by (auto simp: lru_rep_def lru_core_def linked_def indexed_def fresh_above_def node_new_def
      intro!: exI [of _ "[0]"])

theorem lru_get_or_insert_spec_witness:
  "\<exists>s'. lru_get_or_insert (2 :: nat) (\<lambda>_. Err TableNotFound)
      \<lparr> lru_head = Some 0, lru_tail = Some 0, inner = [(1, 0)], lru_cap = 1,
        lru_heap = [0 \<mapsto> node_new 1 (10 :: nat)], lru_fresh = 1 \<rparr> = Some (Err TableNotFound, s') \<and>
    lru_rep s' [(1, 10)]"
  using lru_get_or_insert_spec [OF lru_rep_single [of "1 :: nat" "10 :: nat"], of 2 "\<lambda>_. Err TableNotFound"] by auto

lemma lru_drop_chain:
  "chain (lru_heap s) p ps es None \<Longrightarrow> distinct ps \<Longrightarrow> lru_head s = first_addr ps None \<Longrightarrow>
   \<exists>s'. lru_drop (length ps) s = Some s' \<and> lru_heap s' = lru_heap s |` (- set ps)"
proof (induction ps arbitrary: s p es)
  case Nil
  then show ?case by (simp add: lru_drop.simps)
next
  case (Cons a ps)
  then obtain e fs where es: "es = e # fs" by (cases es) auto
  let ?t = "s\<lparr> lru_head := first_addr ps None, lru_heap := (lru_heap s)(a := None) \<rparr>"
  have "chain (lru_heap ?t) (Some a) ps fs None" using Cons.prems es by (simp add: chain_frame)
  from Cons.IH [OF this] obtain s' where
    "lru_drop (length ps) ?t = Some s'" "lru_heap s' = lru_heap ?t |` (- set ps)"
    using Cons.prems(2) by fastforce
  moreover have "lru_heap ?t |` (- set ps) = lru_heap s |` (- set (a # ps))"
    by (auto simp: restrict_map_def)
  ultimately show ?case using Cons.prems es by (subst lru_drop.simps) simp
qed

text \<open>
  C25: \<open>drop\<close> ends after as many steps as there are entries and frees exactly the nodes on the list; an
  evicted node is not on it and stays allocated.
\<close>

theorem lru_drop_frees:
  assumes "lru_core s ps es"
  shows "\<exists>s'. lru_drop (length es) s = Some s' \<and> lru_heap s' = lru_heap s |` (- set ps)"
  using assms lru_drop_chain [of s None ps es] linked_length [of s ps es]
  by (auto simp: lru_core_def linked_def)

theorem lru_drop_frees_witness:
  "\<exists>s'. lru_drop (length [(7 :: nat, 70 :: nat)])
     \<lparr> lru_head = Some 0, lru_tail = Some 0, inner = [(7 :: nat, 0)], lru_cap = 1,
       lru_heap = [0 \<mapsto> node_new 7 (70 :: nat)], lru_fresh = 1 \<rparr> = Some s' \<and>
   lru_heap s' = [0 \<mapsto> node_new (7 :: nat) (70 :: nat)] |` (- set [0])"
proof -
  have "lru_core \<lparr> lru_head = Some 0, lru_tail = Some 0, inner = [(7 :: nat, 0)], lru_cap = 1,
      lru_heap = [0 \<mapsto> node_new 7 (70 :: nat)], lru_fresh = 1 \<rparr> [0] [(7, 70)]"
    by (auto simp: lru_core_def linked_def indexed_def fresh_above_def node_new_def)
  from lru_drop_frees [OF this] show ?thesis by simp
qed

text \<open>
  Eviction leaks the node: after two keys are put into a cache of capacity one, the node of the first
  is unreachable from the list and the index and still allocated, and \<open>drop\<close> does not free it.
\<close>

theorem lru_eviction_leaks:
  "\<exists>s s' s''. lru_new 1 = Ok s \<and>
    run_ops lru_get lru_put lru_remove [CachePut (1 :: nat) (10 :: nat), CachePut 2 20] s = Some ([None, None], s') \<and>
    inner s' = [(2, 1)] \<and> lru_drop 1 s' = Some s'' \<and> lru_heap s'' 0 = Some (node_new 1 10)"
  by (simp add: lru_new_def lru_put_def insert_new_def alloc_node_def expulsion_def attach_node_def
      detach_node_def update_node_def node_new_def lru_drop.simps)

section \<open>The shared cache\<close>

text \<open>
  \<open>shared_hash\<close> is the hash of a key under the hasher of the cache. A lock is held for the whole
  operation on a shard, so operations on the shared cache are the steps of one sequence.
\<close>

record ('k, 'v) shared_lru =
  shared_vec :: "('k, 'v) lru_cache list"
  shared_hash :: "'k \<Rightarrow> 64 word"

definition shared_new :: "nat \<Rightarrow> nat \<Rightarrow> ('k \<Rightarrow> 64 word) \<Rightarrow> ('k, 'v) shared_lru res" where
  "shared_new cap shared_size hasher =
    (if shared_size = 0 then Err Panic
     else if cap mod shared_size \<noteq> 0 then Err SharedNotAlign
     else res_bind (lru_new (cap div shared_size))
       (\<lambda>c. Ok \<lparr> shared_vec = replicate shared_size c, shared_hash = hasher \<rparr>))"

definition shard :: "('k, 'v) shared_lru \<Rightarrow> 'k \<Rightarrow> nat" where
  "shard s key = unat (shared_hash s key) mod length (shared_vec s)"

definition on_shard ::
  "'k \<Rightarrow> (('k, 'v) lru_cache \<Rightarrow> ('r \<times> ('k, 'v) lru_cache) option) \<Rightarrow> ('k, 'v) shared_lru \<Rightarrow>
   ('r \<times> ('k, 'v) shared_lru) option" where
  "on_shard key f s = map_option (\<lambda>(r, c). (r, s \<lparr> shared_vec := (shared_vec s)[shard s key := c] \<rparr>))
     (f (shared_vec s ! shard s key))"

definition shared_get :: "'k \<Rightarrow> ('k, 'v) shared_lru \<Rightarrow> ('v option \<times> ('k, 'v) shared_lru) option" where
  "shared_get key s = on_shard key (lru_get key) s"

definition shared_put :: "'k \<Rightarrow> 'v \<Rightarrow> ('k, 'v) shared_lru \<Rightarrow> ('v option \<times> ('k, 'v) shared_lru) option" where
  "shared_put key val s = on_shard key (lru_put key val) s"

definition shared_remove :: "'k \<Rightarrow> ('k, 'v) shared_lru \<Rightarrow> ('v option \<times> ('k, 'v) shared_lru) option" where
  "shared_remove key s = on_shard key (lru_remove key) s"

definition shared_get_or_insert ::
  "'k \<Rightarrow> ('k \<Rightarrow> 'v res) \<Rightarrow> ('k, 'v) shared_lru \<Rightarrow> ('v res \<times> ('k, 'v) shared_lru) option" where
  "shared_get_or_insert key fn_once s = on_shard key (lru_get_or_insert key fn_once) s"

definition shared_is_empty :: "('k, 'v) shared_lru \<Rightarrow> bool" where
  "shared_is_empty s = list_all lru_is_empty (shared_vec s)"

primrec op_key :: "('k, 'v) cache_op \<Rightarrow> 'k" where
  "op_key (CacheGet k) = k"
| "op_key (CachePut k v) = k"
| "op_key (CacheRemove k) = k"

definition shared_rep :: "nat \<Rightarrow> ('k, 'v) shared_lru \<Rightarrow> ('k \<times> 'v) list list \<Rightarrow> bool" where
  "shared_rep cap s ess \<longleftrightarrow> shared_vec s \<noteq> [] \<and> list_all2 (\<lambda>c es. lru_rep c es \<and> lru_cap c = cap) (shared_vec s) ess"

lemma shared_op:
  fixes c :: "('k, 'v) cache_op"
  assumes "shared_rep cap s ess"
  defines "i \<equiv> shard s (op_key c)"
  shows "\<exists>s'. run_op shared_get shared_put shared_remove c s = Some (fst (spec_op cap c (ess ! i)), s') \<and>
    shared_rep cap s' (ess[i := snd (spec_op cap c (ess ! i))]) \<and> shared_hash s' = shared_hash s \<and>
    length (shared_vec s') = length (shared_vec s)"
proof -
  have i: "i < length (shared_vec s)" using assms by (simp add: shared_rep_def shard_def)
  then have rep: "lru_rep (shared_vec s ! i) (ess ! i)" "lru_cap (shared_vec s ! i) = cap"
    using assms(1) by (auto simp: shared_rep_def dest: list_all2_nthD)
  from lru.op_refines [OF rep(1), of c] rep(2) obtain t where t:
    "run_op lru_get lru_put lru_remove c (shared_vec s ! i) = Some (fst (spec_op cap c (ess ! i)), t)"
    "lru_rep t (snd (spec_op cap c (ess ! i)))" "lru_cap t = cap" by auto
  have "run_op shared_get shared_put shared_remove c s =
      on_shard (op_key c) (run_op lru_get lru_put lru_remove c) s"
    by (cases c) (simp_all add: shared_get_def shared_put_def shared_remove_def fun_eq_iff [symmetric] on_shard_def)
  moreover have "shared_rep cap (s\<lparr> shared_vec := (shared_vec s)[i := t] \<rparr>) (ess[i := snd (spec_op cap c (ess ! i))])"
    using assms(1) t(2,3) by (auto simp: shared_rep_def list_all2_update_cong)
  ultimately show ?thesis using t(1) by (simp add: on_shard_def flip: i_def)
qed

text \<open>The operations of one shard among those of the shared cache, with their results.\<close>

definition shard_ops :: "('k, 'v) shared_lru \<Rightarrow> nat \<Rightarrow> ('k, 'v) cache_op list \<Rightarrow> ('k, 'v) cache_op list" where
  "shard_ops s i cs = filter (\<lambda>c. shard s (op_key c) = i) cs"

definition shard_results ::
  "('k, 'v) shared_lru \<Rightarrow> nat \<Rightarrow> ('k, 'v) cache_op list \<Rightarrow> 'r list \<Rightarrow> 'r list" where
  "shard_results s i cs rs = map snd (filter (\<lambda>(c, _). shard s (op_key c) = i) (zip cs rs))"

lemma shard_cong:
  "shared_hash s' = shared_hash s \<Longrightarrow> length (shared_vec s') = length (shared_vec s) \<Longrightarrow> shard s' = shard s"
  by (rule ext) (simp add: shard_def)

lemma shared_run:
  "shared_rep cap s ess \<Longrightarrow>
   \<exists>rs s'. run_ops shared_get shared_put shared_remove cs s = Some (rs, s') \<and>
     (\<forall>i < length ess. shard_results s i cs rs = fst (spec_run cap (shard_ops s i cs) (ess ! i)))"
proof (induction cs arbitrary: s ess)
  case (Cons c cs)
  define i where "i = shard s (op_key c)"
  from shared_op [OF Cons.prems, of c] obtain t where t:
    "run_op shared_get shared_put shared_remove c s = Some (fst (spec_op cap c (ess ! i)), t)"
    "shared_rep cap t (ess[i := snd (spec_op cap c (ess ! i))])" "shard t = shard s"
    unfolding i_def by (metis shard_cong)
  from Cons.IH [OF t(2)] obtain rs s' where rs: "run_ops shared_get shared_put shared_remove cs t = Some (rs, s')"
    "\<And>j. j < length ess \<Longrightarrow> shard_results s j cs rs =
      fst (spec_run cap (shard_ops s j cs) (ess[i := snd (spec_op cap c (ess ! i))] ! j))"
    using t(3) by (auto simp: shard_results_def shard_ops_def)
  have "shard_results s j (c # cs) (fst (spec_op cap c (ess ! i)) # rs) =
      fst (spec_run cap (shard_ops s j (c # cs)) (ess ! j))" if "j < length ess" for j
    using rs(2) [OF that] that
    by (cases "j = i") (auto simp: shard_results_def shard_ops_def i_def Let_def split: prod.split)
  then show ?case using t(1) rs(1) by auto
qed (simp add: shard_results_def shard_ops_def)

text \<open>
  C23: A new shared cache, whose capacity is a multiple of the number of shards, answers the operations of
  each shard as that shard alone would, whatever the interleaving with the other shards, and none of its
  operations follows a dangling pointer.
\<close>

theorem shared_lru_refines:
  fixes cs :: "('k, 'v) cache_op list"
  assumes "0 < n" "0 < cap" "cap mod n = 0"
  shows "\<exists>s rs s'. shared_new cap n h = Ok s \<and> length (shared_vec s) = n \<and>
    run_ops shared_get shared_put shared_remove cs s = Some (rs, s') \<and>
    (\<forall>i<n. shard_results s i cs rs = fst (spec_run (cap div n) (shard_ops s i cs) []))"
proof -
  have "0 < cap div n" using assms by (simp add: mod_eq_0_iff_dvd div_greater_zero_iff dvd_imp_le)
  from lru_rep_new [OF this] obtain c :: "('k, 'v) lru_cache"
    where c: "lru_new (cap div n) = Ok c" "lru_rep c []" "lru_cap c = cap div n" by blast
  define s where "s = \<lparr> shared_vec = replicate n c, shared_hash = h \<rparr>"
  have "shared_rep (cap div n) s (replicate n [])"
    using c assms(1) by (simp add: shared_rep_def s_def list_all2_conv_all_nth)
  from shared_run [OF this, of cs] show ?thesis
    using assms c(1) by (auto simp: shared_new_def s_def)
qed

theorem shared_lru_refines_witness:
  "\<exists>s rs s'. shared_new 4 2 (\<lambda>k :: 64 word. k) = Ok s \<and> length (shared_vec s) = 2 \<and>
    run_ops shared_get shared_put shared_remove [CachePut 1 (10 :: nat), CachePut 2 20, CacheGet 1] s = Some (rs, s') \<and>
    shard_results s 1 [CachePut 1 (10 :: nat), CachePut 2 20, CacheGet 1] rs = [None, Some 10]"
proof -
  let ?cs = "[CachePut 1 10, CachePut 2 20, CacheGet 1] :: (64 word, nat) cache_op list"
  from shared_lru_refines [of 2 4 "\<lambda>k. k" ?cs] obtain s rs s' where s: "shared_new 4 2 (\<lambda>k :: 64 word. k) = Ok s"
    "length (shared_vec s) = 2" "run_ops shared_get shared_put shared_remove ?cs s = Some (rs, s')"
    "\<forall>i<2. shard_results s i ?cs rs = fst (spec_run (4 div 2) (shard_ops s i ?cs) [])" by auto
  have "shard s k = unat k mod 2" for k
    using s(1,2) by (auto simp: shared_new_def shard_def lru_new_def)
  then have "shard_ops s 1 ?cs = [CachePut 1 10, CacheGet 1]" by (simp add: shard_ops_def)
  then have "shard_results s 1 ?cs rs = [None, Some 10]"
    using s(4) by (simp add: spec_put_def spec_touch_def)
  then show ?thesis using s(1-3) by blast
qed

end
