(* ===== verification/Expression_Eval.thy ===== *)
theory Expression_Eval
  imports Expression
begin

text \<open>
  The evaluation of scalar expressions, \<open>ScalarExpression::eval\<close> of \<open>src/src/expression/evaluator.rs\<close>, with the
  built-in functions of \<open>src/src/function\<close>. A row is the list of its values with the columns of its schema;
  \<open>None\<close> stands for an evaluation without a row.
\<close>

type_synonym 'd row = "('d data_value list \<times> 'd column_catalog list) option"

section \<open>Strings\<close>

definition utf8_of :: "'d data_value \<Rightarrow> rstring option" where
  "utf8_of v = (case v of Utf8 s _ _ \<Rightarrow> Some s | _ \<Rightarrow> None)"

definition varchar :: "rstring \<Rightarrow> 'd data_value" where
  "varchar s = Utf8 s (Variable None) Characters"

text \<open>\<open>str::is_char_boundary\<close>, and the two halves of \<open>String::split_off\<close>, which panics elsewhere.\<close>

definition is_char_boundary :: "rstring \<Rightarrow> nat \<Rightarrow> bool" where
  "is_char_boundary s i \<longleftrightarrow> i = 0 \<or> i = length s \<or> i < length s \<and> \<not> is_utf8_cont (s ! i)"

definition split_tail :: "rstring \<Rightarrow> nat \<Rightarrow> rstring res" where
  "split_tail s i = (if is_char_boundary s i then Ok (drop i s) else Err Panic)"

definition split_head :: "rstring \<Rightarrow> nat \<Rightarrow> rstring res" where
  "split_head s i = (if is_char_boundary s i then Ok (take i s) else Err Panic)"

text \<open>\<open>str::find\<close>: the byte position of the first occurrence.\<close>

fun find_sub :: "rstring \<Rightarrow> rstring \<Rightarrow> nat \<Rightarrow> nat option" where
  "find_sub pattern [] pos = (if pattern = [] then Some pos else None)"
| "find_sub pattern (c # cs) pos =
    (if take (length pattern) (c # cs) = pattern then Some pos else find_sub pattern cs (Suc pos))"

text \<open>
  The loop that makes a negative start of \<open>SUBSTRING\<close> positive. The length of a string below 2 GiB - 1 is not
  negative as an \<open>i32\<close> and can be incremented; for a longer one the loop overflows or does not end, and the model panics.
\<close>

function from_loop :: "int \<Rightarrow> int \<Rightarrow> int res" where
  "from_loop from len_i =
    (if 0 \<le> from then Ok from else if len_i < 0 \<or> len_i = 2 ^ 31 - 1 then Err Panic else from_loop (from + len_i + 1) len_i)"
  by auto
termination by (relation "measure (\<lambda>(from, len_i). nat (- from))") auto

declare from_loop.simps [simp del]

definition i32_of_len :: "nat \<Rightarrow> int" where
  "i32_of_len n = sint (of_nat n :: 32 word)"

definition substring_from :: "rstring \<Rightarrow> int \<Rightarrow> rstring option res" where
  "substring_from s num =
    (let len_i = i32_of_len (length s) in
     res_bind (from_loop (max (num - 1) (- (2 ^ 31))) len_i) (\<lambda>from.
       if from > len_i then Ok None else map_res Some (split_tail s (nat from))))"

definition substring_for :: "rstring \<Rightarrow> int \<Rightarrow> rstring res" where
  "substring_for s num = split_head s (if num < 0 then length s else min (nat num) (length s))"

definition trim_pattern :: "('d, 't, 'n) env \<Rightarrow> trim_where_field option \<Rightarrow> rstring \<Rightarrow> rstring" where
  "trim_pattern X where_f what =
    (let group = ascii ''(?:'' @ regex_escape X what @ ascii '')*''; any = ascii ''(['' @ [92] @ ascii ''w'' @ [92] @ ascii ''W]*?)'' in
     case where_f of
       Some Leading \<Rightarrow> ascii ''^'' @ group @ any
     | Some Trailing \<Rightarrow> any @ group @ ascii ''$''
     | _ \<Rightarrow> ascii ''^'' @ group @ any @ group @ ascii ''$'')"

section \<open>Built-in functions\<close>

definition varchar_argument :: "('d, 't, 'n) env \<Rightarrow> 'd data_value res list \<Rightarrow> 'd data_value res" where
  "varchar_argument X args = (case args of
     [] \<Rightarrow> Err Panic
   | r # _ \<Rightarrow>
       res_bind r (\<lambda>v. case logical_type v of Varchar _ _ \<Rightarrow> Ok v | _ \<Rightarrow> cast_in X v (Varchar None Characters)))"

definition map_utf8 :: "(rstring \<Rightarrow> rstring) \<Rightarrow> 'd data_value \<Rightarrow> 'd data_value" where
  "map_utf8 f v = (case v of Utf8 s ty unit \<Rightarrow> Utf8 (f s) ty unit | _ \<Rightarrow> v)"

definition length_of :: "(rstring \<Rightarrow> nat) \<Rightarrow> 'd data_value \<Rightarrow> 'd data_value" where
  "length_of f v = UInt64 (case v of Utf8 s _ _ \<Rightarrow> of_nat (f s) | _ \<Rightarrow> 0)"

definition char_length_eval :: "('d, 't, 'n) env \<Rightarrow> 'd data_value res list \<Rightarrow> 'd data_value res" where
  "char_length_eval X args = map_res (length_of char_count) (varchar_argument X args)"

definition octet_length_eval :: "('d, 't, 'n) env \<Rightarrow> 'd data_value res list \<Rightarrow> 'd data_value res" where
  "octet_length_eval X args = map_res (length_of length) (varchar_argument X args)"

definition lower_eval :: "('d, 't, 'n) env \<Rightarrow> 'd data_value res list \<Rightarrow> 'd data_value res" where
  "lower_eval X args = map_res (map_utf8 (to_lowercase X)) (varchar_argument X args)"

definition upper_eval :: "('d, 't, 'n) env \<Rightarrow> 'd data_value res list \<Rightarrow> 'd data_value res" where
  "upper_eval X args = map_res (map_utf8 (to_uppercase X)) (varchar_argument X args)"

definition current_date_eval :: "('d, 't, 'n) env \<Rightarrow> 'd data_value res" where
  "current_date_eval X = Ok (Date32 (word_of_int (today X)))"

definition current_timestamp_eval :: "('d, 't, 'n) env \<Rightarrow> 'd data_value res" where
  "current_timestamp_eval X = Ok (Time64 (word_of_int (now X)) 0 False)"

definition function_eval ::
  "('d, 't, 'n) env \<Rightarrow> scalar_function_impl \<Rightarrow> 'd data_value res list \<Rightarrow> 'd data_value res" where
  "function_eval X f args = (case f of
     CharLength _ \<Rightarrow> char_length_eval X args
   | OctetLength _ \<Rightarrow> octet_length_eval X args
   | Lower _ \<Rightarrow> lower_eval X args
   | Upper _ \<Rightarrow> upper_eval X args
   | CurrentDate _ \<Rightarrow> current_date_eval X
   | CurrentTimeStamp _ \<Rightarrow> current_timestamp_eval X
   | OtherFunction s _ \<Rightarrow> other_function X s args)"

lemmas function_eval_defs = function_eval_def char_length_eval_def octet_length_eval_def lower_eval_def
  upper_eval_def current_date_eval_def current_timestamp_eval_def

section \<open>Evaluation\<close>

definition check_cast :: "('d, 't, 'n) env \<Rightarrow> 'd data_value \<Rightarrow> logical_type \<Rightarrow> 'd data_value res" where
  "check_cast X v ty = (if logical_type v \<noteq> ty then cast_in X v ty else Ok v)"

text \<open>The value at the position of the first column that satisfies a test.\<close>

fun find_position :: "('a \<Rightarrow> bool) \<Rightarrow> 'a list \<Rightarrow> nat option" where
  "find_position p [] = None"
| "find_position p (x # xs) = (if p x then Some 0 else map_option Suc (find_position p xs))"

definition value_at :: "'d data_value list \<Rightarrow> nat \<Rightarrow> 'd data_value res" where
  "value_at vals i = (if i < length vals then Ok (vals ! i) else Err Panic)"

definition column_value :: "column_summary \<Rightarrow> 'd row \<Rightarrow> 'd data_value res" where
  "column_value s row = (case row of
     None \<Rightarrow> Ok Null
   | Some (vals, schema) \<Rightarrow>
       (case find_position (\<lambda>c. summary c = s) schema of Some i \<Rightarrow> value_at vals i | None \<Rightarrow> Ok Null))"

definition alias_position ::
  "('d, 't, 'n) env \<Rightarrow> 'd alias_type \<Rightarrow> 'd column_catalog list \<Rightarrow> nat option res" where
  "alias_position X alias schema = (case alias of
     AliasName n \<Rightarrow> Ok (find_position (\<lambda>c. table_name_of c = None \<and> column_name (summary c) = n) schema)
   | AliasExpr e \<Rightarrow>
       if schema = [] then Ok None
       else map_res (\<lambda>col. find_position (\<lambda>c. summary col = summary c) schema) (output_column X e))"

text \<open>The loop over the list of an IN: \<open>None\<close> when it meets a NULL before a match.\<close>

fun in_loop :: "'d crates \<Rightarrow> ('a \<Rightarrow> 'd data_value res) \<Rightarrow> 'd data_value \<Rightarrow> 'a list \<Rightarrow> bool option res" where
  "in_loop K f v [] = Ok (Some False)"
| "in_loop K f v (a # args) =
    res_bind (f a) (\<lambda>w. if is_null w then Ok None else if value_eq K w v then Ok (Some True) else in_loop K f v args)"

fun coalesce_loop :: "('a \<Rightarrow> 'd data_value res) \<Rightarrow> 'a list \<Rightarrow> 'd data_value option res" where
  "coalesce_loop f [] = Ok None"
| "coalesce_loop f (e # es) = res_bind (f e) (\<lambda>v. if is_null v then coalesce_loop f es else Ok (Some v))"

text \<open>Whether a WHEN applies: equality with the operand, in the operand's type, or a true condition.\<close>

definition when_true :: "('d, 't, 'n) env \<Rightarrow> 'd data_value option \<Rightarrow> 'd data_value \<Rightarrow> bool res" where
  "when_true X operand when_value = (case operand of
     None \<Rightarrow> is_true when_value
   | Some v \<Rightarrow>
       res_bind (binary_create (logical_type v) OpEq) (\<lambda>ev.
         res_bind (check_cast X when_value (logical_type v)) (\<lambda>w.
           res_bind (binary_eval (base X) (evals X) ev v w) is_true)))"

fun case_loop ::
  "('d, 't, 'n) env \<Rightarrow> ('a \<Rightarrow> 'd data_value res) \<Rightarrow> 'd data_value option \<Rightarrow> ('a \<times> 'a) list \<Rightarrow>
   'd data_value option res" where
  "case_loop X f operand [] = Ok None"
| "case_loop X f operand ((w, r) # pairs) =
    res_bind (f w) (\<lambda>when_value.
      res_bind (when_true X operand when_value) (\<lambda>b.
        if b then map_res Some (f r) else case_loop X f operand pairs))"

definition between_value :: "'d crates \<Rightarrow> 'd data_value \<Rightarrow> 'd data_value \<Rightarrow> 'd data_value \<Rightarrow> bool option" where
  "between_value K v left right = (case (partial_cmp K v left, partial_cmp K v right) of
     (Some c, Some d) \<Rightarrow> Some (c \<noteq> Less \<and> d \<noteq> Greater)
   | _ \<Rightarrow> None)"

definition eval_to_num :: "('d, 't, 'n) env \<Rightarrow> 'd data_value \<Rightarrow> int option res" where
  "eval_to_num X v = map_res (\<lambda>w. map_option sint (get_i32 w)) (cast_in X v Integer)"

definition eval_to_text :: "('d, 't, 'n) env \<Rightarrow> 'd data_value \<Rightarrow> rstring option res" where
  "eval_to_text X v = map_res utf8_of (cast_in X v (Varchar None Characters))"

lemma in_loop_cong [fundef_cong]:
  "xs = ys \<Longrightarrow> (\<And>x. x \<in> set ys \<Longrightarrow> f x = g x) \<Longrightarrow> in_loop K f v xs = in_loop K g v ys"
  by (induction xs arbitrary: ys) (auto intro!: res_bind_cong)

lemma coalesce_loop_cong [fundef_cong]:
  "xs = ys \<Longrightarrow> (\<And>x. x \<in> set ys \<Longrightarrow> f x = g x) \<Longrightarrow> coalesce_loop f xs = coalesce_loop g ys"
  by (induction xs arbitrary: ys) (auto intro!: res_bind_cong)

lemma case_loop_cong [fundef_cong]:
  "xs = ys \<Longrightarrow> (\<And>x. x \<in> set (concat (map (\<lambda>(a, b). [a, b]) ys)) \<Longrightarrow> f x = g x) \<Longrightarrow>
   case_loop X f v xs = case_loop X g v ys"
  by (induction xs arbitrary: ys) (auto intro!: res_bind_cong)

function eval :: "('d, 't, 'n) env \<Rightarrow> 'd scalar_expression \<Rightarrow> 'd row \<Rightarrow> 'd data_value res" where
  "eval X (Constant v) row = Ok v"
| "eval X (ColumnRef col) row = column_value (summary col) row"
| "eval X (Alias e alias) row = (case row of
     None \<Rightarrow> Ok Null
   | Some (vals, schema) \<Rightarrow>
       res_bind (alias_position X alias schema) (\<lambda>pos.
         case pos of Some i \<Rightarrow> value_at vals i | None \<Rightarrow> eval X e row))"
| "eval X (TypeCast e ty) row = res_bind (eval X e row) (\<lambda>v. cast_in X v ty)"
| "eval X (Binary op l r evaluator ty) row =
     res_bind (eval X l row) (\<lambda>left.
       res_bind (eval X r row) (\<lambda>right.
         res_bind (of_option EvaluatorNotFound evaluator) (\<lambda>ev. binary_eval (base X) (evals X) ev left right)))"
| "eval X (IsNull negated e) row = map_res (\<lambda>v. Boolean (is_null v \<noteq> negated)) (eval X e row)"
| "eval X (In negated e args) row =
     res_bind (eval X e row) (\<lambda>v.
       if is_null v then Ok Null
       else map_res (\<lambda>r. case r of None \<Rightarrow> Null | Some is_in \<Rightarrow> Boolean (is_in \<noteq> negated))
         (in_loop (base X) (\<lambda>a. eval X a row) v args))"
| "eval X (Unary op e evaluator ty) row =
     res_bind (eval X e row) (\<lambda>v. res_bind (of_option EvaluatorNotFound evaluator) (\<lambda>ev. unary_eval ev v))"
| "eval X (AggCall _ _ _ _) row = Err Panic"
| "eval X (Between negated e l r) row =
     res_bind (eval X e row) (\<lambda>v.
       res_bind (eval X l row) (\<lambda>left.
         res_bind (eval X r row) (\<lambda>right.
           Ok (case between_value (base X) v left right of
                 None \<Rightarrow> Null | Some is_between \<Rightarrow> Boolean (is_between \<noteq> negated)))))"
| "eval X (SubString e for_e from_e) row =
     res_bind (res_bind (eval X e row) (eval_to_text X)) (\<lambda>text.
       case text of
         None \<Rightarrow> Ok Null
       | Some s \<Rightarrow>
           res_bind
             (case from_e of
                None \<Rightarrow> Ok (Some s)
              | Some x \<Rightarrow>
                  res_bind (res_bind (eval X x row) (eval_to_num X)) (\<lambda>num.
                    case num of None \<Rightarrow> Ok None | Some i \<Rightarrow> substring_from s i))
             (\<lambda>tail. case tail of
                None \<Rightarrow> Ok Null
              | Some s' \<Rightarrow>
                  (case for_e of
                     None \<Rightarrow> Ok (varchar s')
                   | Some x \<Rightarrow>
                       res_bind (res_bind (eval X x row) (eval_to_num X)) (\<lambda>num.
                         case num of None \<Rightarrow> Ok Null | Some i \<Rightarrow> map_res varchar (substring_for s' i)))))"
| "eval X (Position e in_e) row =
     res_bind (res_bind (eval X e row) (eval_to_text X)) (\<lambda>pattern.
       res_bind (res_bind (eval X in_e row) (eval_to_text X)) (\<lambda>str.
         case find_sub (case pattern of Some s \<Rightarrow> s | None \<Rightarrow> []) (case str of Some s \<Rightarrow> s | None \<Rightarrow> []) 0 of
           None \<Rightarrow> Ok (Int32 0)
         | Some pos \<Rightarrow> if i32_of_len pos = 2 ^ 31 - 1 then Err Panic else Ok (Int32 (of_nat pos + 1))))"
| "eval X (Trim e what where_f) row =
     res_bind (res_bind (eval X e row) (eval_to_text X)) (\<lambda>text.
       case text of
         None \<Rightarrow> Ok Null
       | Some s \<Rightarrow>
           res_bind
             (case what of
                None \<Rightarrow> lit '' ''
              | Some x \<Rightarrow>
                  map_res (\<lambda>t. case t of Some w \<Rightarrow> w | None \<Rightarrow> []) (res_bind (eval X x row) (eval_to_text X)))
             (\<lambda>trim_what. map_res varchar (of_option Panic (regex_replace_all X (trim_pattern X where_f trim_what) s))))"
| "eval X (Reference e pos) row = (case row of
     None \<Rightarrow> Ok Null
   | Some (vals, _) \<Rightarrow> Ok (if pos < length vals then vals ! pos else Null))"
| "eval X (TupleExpr es) row = map_res (\<lambda>vs. Tuple vs False) (res_map (\<lambda>e. eval X e row) es)"
| "eval X (ScalaFunction f args) row =
     res_bind (function_eval X f (map (\<lambda>e. eval X e row) args)) (\<lambda>v. cast_in X v (function_return_type f))"
| "eval X EmptyExpr row = Err Panic"
| "eval X (IfExpr c l r ty) row =
     res_bind (res_bind (eval X c row) is_true) (\<lambda>b.
       res_bind (if b then eval X l row else eval X r row) (\<lambda>v. check_cast X v ty))"
| "eval X (IfNull l r ty) row =
     res_bind (eval X l row) (\<lambda>v. res_bind (if is_null v then eval X r row else Ok v) (\<lambda>w. check_cast X w ty))"
| "eval X (NullIf l r ty) row =
     res_bind (eval X l row) (\<lambda>v.
       res_bind (eval X r row) (\<lambda>w. check_cast X (if value_eq (base X) w v then Null else v) ty))"
| "eval X (Coalesce es ty) row =
     res_bind (coalesce_loop (\<lambda>e. eval X e row) es) (\<lambda>v.
       check_cast X (case v of Some w \<Rightarrow> w | None \<Rightarrow> Null) ty)"
| "eval X (CaseWhen operand pairs else_e ty) row =
     res_bind (opt_res (\<lambda>e. eval X e row) operand) (\<lambda>operand_value.
       res_bind (case_loop X (\<lambda>e. eval X e row) operand_value pairs) (\<lambda>result.
         res_bind (if result = None then opt_res (\<lambda>e. eval X e row) else_e else Ok result) (\<lambda>v.
           check_cast X (case v of Some w \<Rightarrow> w | None \<Rightarrow> Null) ty)))"
| "eval X (TableFunction _ _) row = Err Panic"
  by pat_completeness auto
termination
  by (relation "measure (\<lambda>(X, e, row). size e)")
    (auto dest: member_size member_size_pair)

section \<open>Expressions evaluated without a row\<close>

text \<open>The default value of a column, and the table function \<open>numbers\<close>, whose rows are counted by its argument.\<close>

definition default_value :: "('d, 't, 'n) env \<Rightarrow> 'd column_catalog \<Rightarrow> 'd data_value option res" where
  "default_value X col = (case default (desc col) of
     None \<Rightarrow> Ok None
   | Some e \<Rightarrow> map_res Some (eval X e None))"

definition numbers_eval :: "('d, 't, 'n) env \<Rightarrow> 'd scalar_expression list \<Rightarrow> 'd data_value list list res" where
  "numbers_eval X args = (case args of
     [] \<Rightarrow> Err Panic
   | e # _ \<Rightarrow>
       res_bind (eval X e None) (\<lambda>v.
         res_bind (check_cast X v Integer) (\<lambda>w.
           res_bind (of_option NotNull (get_i32 w)) (\<lambda>num.
             Ok (map (\<lambda>i. [Int32 (word_of_int i)]) [0..sint num - 1])))))"

end
