(* ===== verification/Storage.thy ===== *)
theory Storage
  imports Rocks_Store Table_Catalog Lru_Cache Expression_Eval
begin

text \<open>
  The storage layer of \<open>src/src/storage/mod.rs\<close>: rows, index entries and the catalogue of tables, as
  operations on a transaction and the caches that all transactions share. An operation returns its result
  together with the state it leaves, also when it fails: the writes it made before the error stay in the
  transaction until it is rolled back.

  Parameters, besides those of the expressions and RocksDB: the SipHash of table names, bincode, the text of a
  ULID, and the serializers that the derive macro of \<open>kite_sql_serde_macros\<close> generates for catalogue entries,
  views and statistics. Views and statistics are type parameters.
\<close>

section \<open>Operations on the state\<close>

record ('d, 's, 'v, 'm) tx_state =
  tx :: 's
  table_cache :: "(rstring, 'd table_catalog) shared_lru"
  view_cache :: "(rstring, 'v) shared_lru"
  meta_cache :: "(rstring \<times> 32 word, 'm) shared_lru"

type_synonym ('a, 'st) op = "'st \<Rightarrow> 'a res \<times> 'st"

definition op_return :: "'a \<Rightarrow> ('a, 'st) op" where
  "op_return x st = (Ok x, st)"

definition op_fail :: "database_error \<Rightarrow> ('a, 'st) op" where
  "op_fail e st = (Err e, st)"

definition op_res :: "'a res \<Rightarrow> ('a, 'st) op" where
  "op_res r st = (r, st)"

definition op_bind :: "('a, 'st) op \<Rightarrow> ('a \<Rightarrow> ('b, 'st) op) \<Rightarrow> ('b, 'st) op" where
  "op_bind m f st = (case m st of (Inl e, st') \<Rightarrow> (Err e, st') | (Inr x, st') \<Rightarrow> f x st')"

abbreviation op_seq :: "(unit, 'st) op \<Rightarrow> ('b, 'st) op \<Rightarrow> ('b, 'st) op" where
  "op_seq m n \<equiv> op_bind m (\<lambda>_. n)"

fun op_each :: "('a \<Rightarrow> (unit, 'st) op) \<Rightarrow> 'a list \<Rightarrow> (unit, 'st) op" where
  "op_each f [] = op_return ()"
| "op_each f (x # xs) = op_seq (f x) (op_each f xs)"

definition op_when :: "bool \<Rightarrow> (unit, 'st) op \<Rightarrow> (unit, 'st) op" where
  "op_when b m = (if b then m else op_return ())"

named_theorems op_simps

declare op_return_def [op_simps] op_fail_def [op_simps] op_res_def [op_simps] op_when_def [op_simps]

lemma op_bind_simp [op_simps]:
  "op_bind m f st = (case m st of (Inl e, st') \<Rightarrow> (Err e, st') | (Inr x, st') \<Rightarrow> f x st')"
  by (rule op_bind_def)

lemma op_bind_Ok: "op_bind m f st = (Ok y, st'') \<longleftrightarrow> (\<exists>x st'. m st = (Ok x, st') \<and> f x st' = (Ok y, st''))"
  by (auto simp: op_bind_def split: prod.splits sum.splits)

section \<open>The environment\<close>

record ('d, 't, 'n, 's, 'v, 'm) store_env =
  expr_env :: "('d, 't, 'n) env"
  rocks :: "'s rocks"
  sip :: "bytes \<Rightarrow> 64 word"
  bincode_value :: "'d data_value \<Rightarrow> bytes res"
  bincode_value_from :: "bytes \<Rightarrow> 'd data_value res"
  ulid_text :: "column_id \<Rightarrow> rstring"
  serialize_column :: "'d column_catalog \<Rightarrow> bytes res"
  deserialize_column :: "rstring \<Rightarrow> bytes \<Rightarrow> 'd column_catalog res"
  serialize_index_meta :: "index_meta \<Rightarrow> bytes res"
  deserialize_index_meta :: "bytes \<Rightarrow> index_meta res"
  serialize_table_meta :: "rstring \<Rightarrow> bytes res"
  deserialize_table_meta :: "bytes \<Rightarrow> rstring res"
  name_of_view :: "'v \<Rightarrow> rstring"
  serialize_view :: "'v \<Rightarrow> bytes res"
  deserialize_view :: "bytes \<Rightarrow> ('v, ('d, 's, 'v, 'm) tx_state) op"
  index_of_meta :: "'m \<Rightarrow> 32 word"

abbreviation crates_of :: "('d, 't, 'n, 's, 'v, 'm) store_env \<Rightarrow> 'd crates" where
  "crates_of D \<equiv> base (expr_env D)"

section \<open>The calls of a transaction\<close>

definition tx_get :: "('d, 't, 'n, 's, 'v, 'm) store_env \<Rightarrow> bytes \<Rightarrow> (bytes option, ('d, 's, 'v, 'm) tx_state) op" where
  "tx_get D k st = (db_get (rocks D) (tx st) k, st)"

definition tx_set :: "('d, 't, 'n, 's, 'v, 'm) store_env \<Rightarrow> bytes \<Rightarrow> bytes \<Rightarrow> (unit, ('d, 's, 'v, 'm) tx_state) op" where
  "tx_set D k v st = (case db_put (rocks D) (tx st) k v of
     Inl e \<Rightarrow> (Err e, st) | Inr s' \<Rightarrow> (Ok (), st\<lparr> tx := s' \<rparr>))"

definition tx_remove :: "('d, 't, 'n, 's, 'v, 'm) store_env \<Rightarrow> bytes \<Rightarrow> (unit, ('d, 's, 'v, 'm) tx_state) op" where
  "tx_remove D k st = (case db_delete (rocks D) (tx st) k of
     Inl e \<Rightarrow> (Err e, st) | Inr s' \<Rightarrow> (Ok (), st\<lparr> tx := s' \<rparr>))"

definition tx_range ::
  "('d, 't, 'n, 's, 'v, 'm) store_env \<Rightarrow> bytes bound \<Rightarrow> bytes bound \<Rightarrow> (rocks_iter, ('d, 's, 'v, 'm) tx_state) op" where
  "tx_range D lo hi st = (rocks_range (rocks D) (tx st) lo hi, st)"

text \<open>The caches; a step of a cache that follows a dangling pointer is undefined.\<close>

definition cache_op :: "('c \<Rightarrow> ('a \<times> 'c) option) \<Rightarrow> ('st \<Rightarrow> 'c) \<Rightarrow> ('c \<Rightarrow> 'st \<Rightarrow> 'st) \<Rightarrow> ('a, 'st) op" where
  "cache_op f proj upd st = (case f (proj st) of
     None \<Rightarrow> (Err Undefined, st) | Some (x, c) \<Rightarrow> (Ok x, upd c st))"

abbreviation on_tables where "on_tables f \<equiv> cache_op f table_cache (\<lambda>c. table_cache_update (\<lambda>_. c))"

abbreviation on_views where "on_views f \<equiv> cache_op f view_cache (\<lambda>c. view_cache_update (\<lambda>_. c))"

abbreviation on_metas where "on_metas f \<equiv> cache_op f meta_cache (\<lambda>c. meta_cache_update (\<lambda>_. c))"

abbreviation forget_table where "forget_table name \<equiv> op_bind (on_tables (shared_remove name)) (\<lambda>_. op_return ())"

section \<open>Catalogue entries\<close>

definition encode_column ::
  "('d, 't, 'n, 's, 'v, 'm) store_env \<Rightarrow> 'd column_catalog \<Rightarrow> (bytes \<times> bytes) res" where
  "encode_column D col = (case relation (summary col) of
     TableRelation col_id table_name False \<Rightarrow>
       map_res (Pair (encode_column_key (sip D) table_name (be_bytes 16 (unat col_id)))) (serialize_column D col)
   | _ \<Rightarrow> Err (InvalidColumn (ascii ''column does not belong to table'')))"

definition encode_index_meta ::
  "('d, 't, 'n, 's, 'v, 'm) store_env \<Rightarrow> rstring \<Rightarrow> index_meta \<Rightarrow> (bytes \<times> bytes) res" where
  "encode_index_meta D table_name m =
    map_res (Pair (encode_index_meta_key (sip D) table_name (im_id m))) (serialize_index_meta D m)"

definition encode_root_table ::
  "('d, 't, 'n, 's, 'v, 'm) store_env \<Rightarrow> rstring \<Rightarrow> (bytes \<times> bytes) res" where
  "encode_root_table D table_name = map_res (Pair (encode_root_table_key (sip D) table_name)) (serialize_table_meta D table_name)"

definition encode_view ::
  "('d, 't, 'n, 's, 'v, 'm) store_env \<Rightarrow> 'v \<Rightarrow> (bytes \<times> bytes) res" where
  "encode_view D view = map_res (Pair (encode_view_key (sip D) (name_of_view D view))) (serialize_view D view)"

text \<open>
  \<open>table_collect\<close>: the scan of the columns and index descriptions of a table. The loop of the code ends
  at the first error of the iterator without reporting it.
\<close>

function drain_ok :: "rocks_iter \<Rightarrow> (bytes \<times> bytes) list" where
  "drain_ok it = (case try_next it of
     Inr (Some entry, it') \<Rightarrow> entry # drain_ok it'
   | _ \<Rightarrow> [])"
  by auto
termination
  by (relation "measure (length \<circ> iter_rest)")
    (auto simp: try_next_def res_bind_Ok_iff split: list.splits if_splits)

declare drain_ok.simps [simp del]

definition starts_with :: "bytes \<Rightarrow> bytes \<Rightarrow> bool" where
  "starts_with key p \<longleftrightarrow> take (length p) key = p"

fun collect_loop ::
  "('d, 't, 'n, 's, 'v, 'm) store_env \<Rightarrow> rstring \<Rightarrow> bytes \<Rightarrow> (bytes \<times> bytes) list \<Rightarrow>
   'd column_catalog list \<Rightarrow> index_meta list \<Rightarrow> ('d column_catalog list \<times> index_meta list) res" where
  "collect_loop D name table_min [] cols metas = Ok (cols, metas)"
| "collect_loop D name table_min ((key, val) # es) cols metas =
    (if starts_with key table_min
     then res_bind (deserialize_column D name val) (\<lambda>col. collect_loop D name table_min es (cols @ [col]) metas)
     else res_bind (deserialize_index_meta D val) (\<lambda>m. collect_loop D name table_min es cols (metas @ [m])))"

definition table_collect ::
  "('d, 't, 'n, 's, 'v, 'm) store_env \<Rightarrow> rstring \<Rightarrow>
   (('d column_catalog list \<times> index_meta list) option, ('d, 's, 'v, 'm) tx_state) op" where
  "table_collect D name =
    (let (table_min, table_max) = table_bound (sip D) name in
     op_bind (tx_range D (Included table_min) (Included table_max)) (\<lambda>it.
       op_bind (op_res (collect_loop D name table_min (drain_ok it) [] [])) (\<lambda>(cols, metas).
         op_return (if cols = [] then None else Some (cols, metas)))))"

definition table ::
  "('d, 't, 'n, 's, 'v, 'm) store_env \<Rightarrow> rstring \<Rightarrow> ('d table_catalog option, ('d, 's, 'v, 'm) tx_state) op" where
  "table D name =
    op_bind (on_tables (shared_get name)) (\<lambda>hit.
      case hit of
        Some t \<Rightarrow> op_return (Some t)
      | None \<Rightarrow>
          op_bind (table_collect D name) (\<lambda>collected.
            case collected of
              None \<Rightarrow> op_return None
            | Some (cols, metas) \<Rightarrow>
                op_bind (on_tables (shared_get_or_insert name (\<lambda>_. table_reload name cols metas))) (\<lambda>r.
                  op_res (map_res Some r))))"

section \<open>Rows\<close>

definition append_tuple ::
  "('d, 't, 'n, 's, 'v, 'm) store_env \<Rightarrow> rstring \<Rightarrow> 'd tuple \<Rightarrow> logical_type list \<Rightarrow> bool \<Rightarrow>
   (unit, ('d, 's, 'v, 'm) tx_state) op" where
  "append_tuple D table_name t types is_overwrite =
    op_bind (op_res (encode_tuple (sip D) (crates_of D) table_name t types)) (\<lambda>(key, val).
      op_bind (if is_overwrite then op_return None else tx_get D key) (\<lambda>old.
        if old \<noteq> None then op_fail DuplicatePrimaryKey else tx_set D key val))"

definition remove_tuple ::
  "('d, 't, 'n, 's, 'v, 'm) store_env \<Rightarrow> rstring \<Rightarrow> 'd data_value \<Rightarrow> (unit, ('d, 's, 'v, 'm) tx_state) op" where
  "remove_tuple D table_name tuple_id =
    op_bind (op_res (encode_tuple_key (sip D) (crates_of D) table_name tuple_id)) (tx_remove D)"

definition decode_tuple ::
  "('d, 't, 'n, 's, 'v, 'm) store_env \<Rightarrow> logical_type list \<Rightarrow> nat list \<Rightarrow> nat list \<Rightarrow> 'd column_catalog list \<Rightarrow>
   bytes \<Rightarrow> bool \<Rightarrow> 'd tuple res" where
  "decode_tuple D table_types pk_indices projections schema b with_pk =
    deserialize_from (crates_of D) table_types pk_indices projections (length schema) b with_pk"

section \<open>Index entries\<close>

definition is_primary_index :: "index_type \<Rightarrow> bool" where
  "is_primary_index ty = (case ty of PrimaryKey _ \<Rightarrow> True | _ \<Rightarrow> False)"

definition add_index ::
  "('d, 't, 'n, 's, 'v, 'm) store_env \<Rightarrow> rstring \<Rightarrow> 'd index \<Rightarrow> 'd data_value \<Rightarrow> (unit, ('d, 's, 'v, 'm) tx_state) op" where
  "add_index D table_name ix tuple_id =
    (if is_primary_index (ix_ty ix) then op_return ()
     else op_bind (op_res (encode_index (sip D) (crates_of D) (bincode_value D) table_name ix tuple_id)) (\<lambda>(key, val).
       op_bind (if ix_ty ix = Unique then tx_get D key else op_return None) (\<lambda>old.
         case old of
           Some b \<Rightarrow> if b \<noteq> val then op_fail DuplicateUniqueValue else op_return ()
         | None \<Rightarrow> tx_set D key val)))"

definition del_index ::
  "('d, 't, 'n, 's, 'v, 'm) store_env \<Rightarrow> rstring \<Rightarrow> 'd index \<Rightarrow> 'd data_value \<Rightarrow> (unit, ('d, 's, 'v, 'm) tx_state) op" where
  "del_index D table_name ix tuple_id =
    (if is_primary_index (ix_ty ix) then op_return ()
     else op_bind (op_res (encode_index_key (sip D) (crates_of D) table_name ix (Some tuple_id))) (tx_remove D))"

section \<open>Dropping data\<close>

definition drop_range ::
  "('d, 't, 'n, 's, 'v, 'm) store_env \<Rightarrow> bytes \<times> bytes \<Rightarrow> (unit, ('d, 's, 'v, 'm) tx_state) op" where
  "drop_range D bnds =
    op_bind (tx_range D (Included (fst bnds)) (Included (snd bnds))) (\<lambda>it.
      op_bind (op_res (drain it)) (\<lambda>data. op_each (\<lambda>entry. tx_remove D (fst entry)) data))"

definition drop_data :: "('d, 't, 'n, 's, 'v, 'm) store_env \<Rightarrow> rstring \<Rightarrow> (unit, ('d, 's, 'v, 'm) tx_state) op" where
  "drop_data D table_name =
    op_seq (drop_range D (tuple_bound (sip D) table_name))
      (op_seq (drop_range D (all_index_bound (sip D) table_name))
        (drop_range D (statistics_bound (sip D) table_name)))"

section \<open>Lemmas\<close>

text \<open>What a transaction holds, and two states with the same caches.\<close>

abbreviation held :: "('s \<Rightarrow> bytes \<rightharpoonup> bytes) \<Rightarrow> ('d, 's, 'v, 'm) tx_state \<Rightarrow> bytes \<rightharpoonup> bytes" where
  "held c st \<equiv> c (tx st)"

definition same_caches :: "('d, 's, 'v, 'm) tx_state \<Rightarrow> ('d, 's, 'v, 'm) tx_state \<Rightarrow> bool" where
  "same_caches st st' \<longleftrightarrow> table_cache st' = table_cache st \<and> view_cache st' = view_cache st \<and> meta_cache st' = meta_cache st"

lemma same_caches_refl [simp]: "same_caches st st"
  by (simp add: same_caches_def)

lemma same_caches_trans: "same_caches a b \<Longrightarrow> same_caches b d \<Longrightarrow> same_caches a d"
  by (simp add: same_caches_def)

lemma tx_get_held: "rocks_laws (rocks D) c \<Longrightarrow> tx_get D k st = (Ok (held c st k), st)"
  by (simp add: tx_get_def rocks_get)

lemma tx_set_held:
  assumes "rocks_laws (rocks D) c"
  shows "\<exists>st'. tx_set D k v st = (Ok (), st') \<and> held c st' = (held c st)(k \<mapsto> v) \<and> same_caches st st'"
  using rocks_put [OF assms, of "tx st" k v] by (auto simp: tx_set_def same_caches_def)

lemma tx_remove_held:
  assumes "rocks_laws (rocks D) c"
  shows "\<exists>st'. tx_remove D k st = (Ok (), st') \<and> held c st' = (held c st)(k := None) \<and> same_caches st st'"
  using rocks_delete [OF assms, of "tx st" k] by (auto simp: tx_remove_def same_caches_def)

lemma remove_each_held:
  assumes "rocks_laws (rocks D) c"
  shows "\<exists>st'. op_each (\<lambda>entry. tx_remove D (fst entry)) data st = (Ok (), st') \<and>
    held c st' = held c st |` (- fst ` set data) \<and> same_caches st st'"
proof (induction data arbitrary: st)
  case (Cons e es)
  obtain st1 where st1: "tx_remove D (fst e) st = (Ok (), st1)" "held c st1 = (held c st)(fst e := None)" "same_caches st st1"
    using tx_remove_held [OF assms] by blast
  obtain st2 where "op_each (\<lambda>entry. tx_remove D (fst entry)) es st1 = (Ok (), st2)"
    "held c st2 = held c st1 |` (- fst ` set es)" "same_caches st1 st2"
    using Cons by blast
  with st1 show ?case
    by (auto simp: op_simps restrict_map_def fun_eq_iff intro: same_caches_trans)
qed (simp add: op_simps restrict_map_def)

lemma drop_range_held:
  assumes "rocks_laws (rocks D) c" "4 \<le> length p"
  shows "\<exists>st'. drop_range D (both_bounds (\<lambda>t. p @ [t])) st = (Ok (), st') \<and>
    held c st' = held c st |` {k. \<not> within k (both_bounds (\<lambda>t. p @ [t]))} \<and> same_caches st st'"
proof -
  let ?b = "both_bounds (\<lambda>t. p @ [t])"
  obtain it where it: "rocks_range (rocks D) (tx st) (Included (fst ?b)) (Included (snd ?b)) = Ok it"
    "drain it = Ok (entries (held c st) (\<lambda>k. lower_bound_check (Included (fst ?b)) k \<and> upper_bound_check (Included (snd ?b)) k))"
    using drain_range [OF assms(1), of "Included (fst ?b)" p "Included (snd ?b)" "tx st"] assms(2)
    by (auto simp: bounded_by_def both_bounds_def)
  let ?data = "entries (held c st) (\<lambda>k. within k ?b)"
  have data: "drain it = Ok ?data" using it(2) by (simp add: lower_bound_check_def upper_bound_check_def within_def)
  have "fst ` set ?data = {k \<in> dom (held c st). within k ?b}"
    using rocks_finite [OF assms(1)] by (force simp: set_entries image_iff)
  then have "held c st |` (- fst ` set ?data) = held c st |` {k. \<not> within k ?b}"
    by (auto simp: restrict_map_def fun_eq_iff)
  with remove_each_held [OF assms(1), of ?data st] it(1) data show ?thesis
    by (auto simp: drop_range_def op_simps tx_range_def)
qed

lemma length_key_prefix: "ty \<notin> {CView, CRoot, CHash} \<Longrightarrow> length (key_prefix sp ty name) = 9"
  by (cases ty) (simp_all add: key_prefix_def Let_def)

lemma drop_bound_held:
  assumes "rocks_laws (rocks D) c" "bnd = both_bounds (\<lambda>t. key_prefix sp ty name @ [t])" "ty \<notin> {CView, CRoot, CHash}"
  shows "\<exists>st'. drop_range D bnd st = (Ok (), st') \<and> held c st' = held c st |` {k. \<not> within k bnd} \<and> same_caches st st'"
  unfolding assms(2) using length_key_prefix [OF assms(3), of sp name] by (intro drop_range_held [OF assms(1)]) simp

lemma drop_data_held:
  assumes "rocks_laws (rocks D) c"
  shows "\<exists>st'. drop_data D name st = (Ok (), st') \<and> same_caches st st' \<and>
    held c st' = held c st |` {k. \<not> within k (tuple_bound (sip D) name) \<and> \<not> within k (all_index_bound (sip D) name) \<and>
      \<not> within k (statistics_bound (sip D) name)}"
proof -
  obtain a where a: "drop_range D (tuple_bound (sip D) name) st = (Ok (), a)" "same_caches st a"
    "held c a = held c st |` {k. \<not> within k (tuple_bound (sip D) name)}"
    using drop_bound_held [OF assms tuple_bound_def] by blast
  obtain b where b: "drop_range D (all_index_bound (sip D) name) a = (Ok (), b)" "same_caches a b"
    "held c b = held c a |` {k. \<not> within k (all_index_bound (sip D) name)}"
    using drop_bound_held [OF assms all_index_bound_def] by blast
  obtain d where d: "drop_range D (statistics_bound (sip D) name) b = (Ok (), d)" "same_caches b d"
    "held c d = held c b |` {k. \<not> within k (statistics_bound (sip D) name)}"
    using drop_bound_held [OF assms statistics_bound_def] by blast
  show ?thesis
    using a b d
    by (auto simp: drop_data_def op_simps restrict_map_def fun_eq_iff intro: same_caches_trans)
qed

end
