(* ===== verification/Expression_Typing.thy ===== *)
theory Expression_Typing
  imports Expression_Eval
begin

text \<open>
  Type soundness of expressions. A typing judgement for bound expressions says which type the value of an
  expression has; evaluation respects it and never reaches \<open>unreachable_unchecked\<close>; and the evaluators that
  \<open>BindEvaluator\<close> chooses, on the types the binder of \<open>src/src/binder/expr.rs\<close> writes, satisfy it.
\<close>

section \<open>Types of values and rows\<close>

definition has_type :: "'d data_value \<Rightarrow> logical_type \<Rightarrow> bool" where
  "has_type v ty \<longleftrightarrow> value_tag v = 0 \<or> value_tag v = type_tag ty"

definition sound :: "'d data_value res \<Rightarrow> logical_type \<Rightarrow> bool" where
  "sound r ty \<longleftrightarrow> defined r \<and> (\<forall>v. r = Ok v \<longrightarrow> has_type v ty)"

definition row_typed :: "'d column_catalog list \<Rightarrow> 'd row \<Rightarrow> bool" where
  "row_typed schema row = (case row of
     None \<Rightarrow> True
   | Some (vals, cols) \<Rightarrow> cols = schema \<and> list_all2 (\<lambda>v c. has_type v (datatype_of c)) vals schema)"

text \<open>Functions that users register do not reach undefined behaviour on arguments that did not.\<close>

definition functions_defined :: "('d, 't, 'n) env \<Rightarrow> bool" where
  "functions_defined X \<longleftrightarrow> (\<forall>s args. list_all defined args \<longrightarrow> defined (other_function X s args))"

section \<open>The typing judgement\<close>

inductive typed :: "('d, 't, 'n) env \<Rightarrow> 'd column_catalog list \<Rightarrow> 'd scalar_expression \<Rightarrow> logical_type \<Rightarrow> bool"
  for X S where
  typed_Constant: "typed X S (Constant v) (logical_type v)"
| typed_ColumnRef: "typed X S (ColumnRef col) (datatype_of col)"
    if "\<forall>c\<in>set S. summary c = summary col \<longrightarrow> type_tag (datatype_of c) = type_tag (datatype_of col)"
| typed_Alias: "typed X S (Alias e alias) ty"
    if "typed X S e ty" "\<forall>i. alias_position X alias S = Ok (Some i) \<longrightarrow> type_tag (datatype_of (S ! i)) = type_tag ty"
| typed_TypeCast: "typed X S (TypeCast e ty) ty" if "typed X S e t"
| typed_IsNull: "typed X S (IsNull negated e) BooleanT" if "typed X S e t"
| typed_Unary: "typed X S (Unary op e (Some ev) ty) ty"
    if "typed X S e t" "unary_create t op = Ok ev" "type_tag ty = type_tag t"
| typed_Binary: "typed X S (Binary op l r (Some ev) ty) ty"
    if "typed X S l t" "typed X S r t" "binary_create t op = Ok ev" "type_tag t \<noteq> 18"
      "type_tag ty = result_tag op (type_tag t)"
| typed_AggCall: "typed X S (AggCall dist kind args ty) ty"
| typed_In: "typed X S (In negated e args) BooleanT" if "typed X S e t" "\<forall>a\<in>set args. \<exists>t. typed X S a t"
| typed_Between: "typed X S (Between negated e l r) BooleanT"
    if "typed X S e t" "typed X S l t1" "typed X S r t2"
| typed_SubString: "typed X S (SubString e for_e from_e) (Varchar None Characters)"
    if "typed X S e t" "\<forall>x\<in>set_option for_e. \<exists>t. typed X S x t" "\<forall>x\<in>set_option from_e. \<exists>t. typed X S x t"
| typed_Position: "typed X S (Position e in_e) Integer" if "typed X S e t" "typed X S in_e t1"
| typed_Trim: "typed X S (Trim e what where_f) (Varchar None Characters)"
    if "typed X S e t" "\<forall>x\<in>set_option what. \<exists>t. typed X S x t"
| typed_Empty: "typed X S EmptyExpr ty"
| typed_Reference: "typed X S (Reference e pos) ty"
    if "pos < length S \<longrightarrow> type_tag (datatype_of (S ! pos)) = type_tag ty"
| typed_Tuple: "typed X S (TupleExpr es) (TupleT tys)" if "list_all2 (typed X S) es tys"
| typed_ScalaFunction: "typed X S (ScalaFunction f args) (function_return_type f)"
    if "\<forall>a\<in>set args. \<exists>t. typed X S a t"
| typed_TableFunction: "typed X S (TableFunction f args) ty"
| typed_If: "typed X S (IfExpr c l r ty) ty" if "typed X S c t" "typed X S l t1" "typed X S r t2"
| typed_IfNull: "typed X S (IfNull l r ty) ty" if "typed X S l t1" "typed X S r t2"
| typed_NullIf: "typed X S (NullIf l r ty) ty" if "typed X S l t1" "typed X S r t2"
| typed_Coalesce: "typed X S (Coalesce es ty) ty" if "\<forall>e\<in>set es. \<exists>t. typed X S e t"
| typed_CaseWhen: "typed X S (CaseWhen operand pairs else_e ty) ty"
    if "\<forall>x\<in>set_option operand. \<exists>t. typed X S x t \<and> type_tag t \<noteq> 18"
      "\<forall>(a, b)\<in>set pairs. (\<exists>t. typed X S a t) \<and> (\<exists>t. typed X S b t)"
      "\<forall>x\<in>set_option else_e. \<exists>t. typed X S x t"

section \<open>Soundness of the parts\<close>

lemma has_type_simps [simp]: "has_type Null ty" "has_type (Boolean b) BooleanT" "has_type (Int32 w) Integer"
  "has_type (varchar s) (Varchar None Characters)" "has_type (Tuple vs u) (TupleT tys)"
  by (simp_all add: has_type_def varchar_def type_tag_def)

lemma has_type_logical_type: "has_type v (logical_type v)"
  by (simp add: has_type_def logical_type_tag)

lemma has_type_cong: "has_type v t \<Longrightarrow> type_tag t = type_tag ty \<Longrightarrow> has_type v ty"
  by (simp add: has_type_def)

lemma sound_simps [simp]: "sound (Ok v) ty \<longleftrightarrow> has_type v ty" "sound (Err e) ty \<longleftrightarrow> e \<noteq> Undefined"
  by (simp_all add: sound_def)

lemma sound_defined: "sound r ty \<Longrightarrow> defined r"
  by (simp add: sound_def)

lemma sound_has_type: "sound r ty \<Longrightarrow> r = Ok v \<Longrightarrow> has_type v ty"
  by (simp add: sound_def)

lemma sound_bind: "defined r \<Longrightarrow> (\<And>v. r = Ok v \<Longrightarrow> sound (f v) ty) \<Longrightarrow> sound (res_bind r f) ty"
  by (cases r) auto

lemma sound_map: "defined r \<Longrightarrow> (\<And>v. r = Ok v \<Longrightarrow> has_type (g v) ty) \<Longrightarrow> sound (map_res g r) ty"
  by (cases r) auto

lemma sound_cast: "sound (cast K E C v ty) ty"
  using cast_result [of K E C v ty] cast_defined(1) [of K E C v ty] by (auto simp: sound_def has_type_def)

lemma sound_check_cast: "sound (check_cast X v ty) ty"
  by (simp add: check_cast_def sound_cast) (metis has_type_logical_type)

lemma defined_res_map: "(\<And>x. x \<in> set xs \<Longrightarrow> defined (f x)) \<Longrightarrow> defined (res_map f xs)"
  by (induction xs) (auto intro!: defined_bind)

lemma defined_is_true: "defined (is_true v)"
  by (simp add: is_true_def split: data_value.split)

lemma defined_loops:
  "(\<And>x. x \<in> set xs \<Longrightarrow> defined (f x)) \<Longrightarrow> defined (in_loop K f v xs)"
  "(\<And>x. x \<in> set xs \<Longrightarrow> defined (f x)) \<Longrightarrow> defined (coalesce_loop f xs)"
  by (induction xs) (auto intro!: defined_bind)

lemma defined_opt_res: "(\<And>y. x = Some y \<Longrightarrow> defined (f y)) \<Longrightarrow> defined (opt_res f x)"
  by (cases x) (auto simp: opt_res_def)

lemma defined_text: "defined (eval_to_text X v)" "defined (eval_to_num X v)"
  by (simp_all add: eval_to_text_def eval_to_num_def cast_defined)

lemma defined_from_loop: "defined (from_loop from len_i)"
proof (induction "from" len_i rule: from_loop.induct)
  case (1 "from" len_i)
  then show ?case by (subst from_loop.simps) auto
qed

lemma defined_substring: "defined (substring_from s i)" "defined (substring_for s i)"
  by (auto simp: substring_from_def substring_for_def Let_def split_tail_def split_head_def defined_from_loop
      intro!: defined_bind)

lemma binary_create_OpEq: "type_tag ty \<noteq> 18 \<Longrightarrow> defined (binary_create ty OpEq)"
  by (cases ty) (auto simp: binary_create_def numeric_binary_evaluator_def only_ops_def utf8_supported_def)

lemma defined_when_true:
  assumes "\<And>v. operand = Some v \<Longrightarrow> value_tag v \<noteq> 18"
  shows "defined (when_true X operand w)"
proof (cases operand)
  case (Some v)
  then have t: "type_tag (logical_type v) \<noteq> 18" using assms by (simp add: logical_type_tag)
  have "defined (binary_eval (base X) (evals X) ev v u)"
    if "binary_create (logical_type v) OpEq = Ok ev" "check_cast X w (logical_type v) = Ok u" for ev u
    using binary_eval_is_defined [OF that(1) t] sound_has_type [OF sound_check_cast that(2)]
    by (auto simp: has_type_def logical_type_tag)
  then show ?thesis using Some binary_create_OpEq [OF t] sound_defined [OF sound_check_cast]
    by (auto simp: when_true_def defined_is_true intro!: defined_bind)
qed (simp add: when_true_def defined_is_true)

lemma defined_case_loop:
  assumes "\<And>v. operand = Some v \<Longrightarrow> value_tag v \<noteq> 18"
    and "\<And>a b. (a, b) \<in> set pairs \<Longrightarrow> defined (f a) \<and> defined (f b)"
  shows "defined (case_loop X f operand pairs)"
  using assms(2)
proof (induction pairs)
  case (Cons p pairs)
  obtain a b where p: "p = (a, b)" by force
  have "defined (f a)" "defined (f b)" "defined (case_loop X f operand pairs)" using Cons p by auto
  then show ?case using defined_when_true [of operand X] assms(1) p by (auto intro!: defined_bind)
qed simp

lemma defined_function_eval:
  assumes "functions_defined X" "list_all defined args"
  shows "defined (function_eval X f args)"
proof -
  have "defined (varchar_argument X args)"
    using assms(2) by (auto simp: varchar_argument_def cast_defined intro!: defined_bind split: list.split logical_type.split)
  then show ?thesis using assms by (auto simp: function_eval_defs functions_defined_def split: scalar_function_impl.split)
qed

lemma defined_fmt: "list_all defined pieces \<Longrightarrow> defined (fmt pieces)"
  by (auto simp: fmt_def list_all_iff intro!: defined_res_map)

lemma defined_display_value: "defined (display_value X v)"
proof (induction X v rule: display_value.induct)
  case (19 X vs u)
  then show ?case by (auto intro!: defined_bind defined_res_map defined_fmt)
qed (auto simp: format_date_def defined_formats intro!: defined_bind)

lemma defined_output_name: "defined (output_name X e)"
  by (induction X e rule: output_name.induct)
    (auto simp: defined_display_value join_res_def intro!: defined_fmt defined_bind defined_res_map split: option.split)

lemma defined_return_type: "defined (return_type e)"
  by (induction e rule: return_type.induct) (auto intro!: defined_res_map)

lemma defined_output_column: "defined (output_column X e)"
proof (induction X e rule: output_column.induct)
  case (1 X e)
  have "defined (named_column X e)"
    by (auto simp: named_column_def column_desc_new_def defined_output_name defined_return_type intro!: defined_bind)
  then show ?case using 1 by (subst output_column.simps) (auto split: scalar_expression.split alias_type.split)
qed

lemma defined_alias_position: "defined (alias_position X alias S)"
  by (auto simp: alias_position_def defined_output_column split: alias_type.split)

lemma find_position_Some:
  "find_position p xs = Some i \<longleftrightarrow> i < length xs \<and> p (xs ! i) \<and> (\<forall>j<i. \<not> p (xs ! j))"
proof (induction xs arbitrary: i)
  case (Cons x xs)
  then show ?case by (cases i) (auto simp: less_Suc_eq_0_disj)
qed simp

lemma find_position_None: "find_position p xs = None \<longleftrightarrow> (\<forall>x\<in>set xs. \<not> p x)"
  by (induction xs) auto

lemma sound_value_at:
  assumes "list_all2 (\<lambda>v c. has_type v (datatype_of c)) vals S" "type_tag (datatype_of (S ! i)) = type_tag ty"
  shows "sound (value_at vals i) ty"
  using assms list_all2_nthD [OF assms(1), of i] by (auto simp: value_at_def intro: has_type_cong)

lemma sound_column_value:
  assumes "row_typed S row" "\<forall>c\<in>set S. summary c = s \<longrightarrow> type_tag (datatype_of c) = type_tag ty"
  shows "sound (column_value s row) ty"
  using assms
  by (auto simp: row_typed_def column_value_def find_position_Some intro!: sound_value_at split: option.splits)

section \<open>Soundness of evaluation\<close>

lemma typed_eval_sound:
  assumes "typed X S e ty" "row_typed S row" "functions_defined X"
  shows "sound (eval X e row) ty"
  using assms(1)
proof induction
  case (typed_Constant v)
  then show ?case by (simp add: has_type_logical_type)
next
  case (typed_ColumnRef col)
  then show ?case using sound_column_value [OF assms(2)] by simp
next
  case (typed_Alias e ty a)
  have "sound (value_at vals i) ty" if "row = Some (vals, S)" "alias_position X a S = Ok (Some i)" for vals i
    using assms(2) typed_Alias(2) that sound_value_at [of vals S i ty] by (simp add: row_typed_def)
  then show ?case using typed_Alias assms(2) defined_alias_position
    by (auto simp: row_typed_def intro!: sound_bind split: option.split)
next
  case (typed_TypeCast e t ty)
  then show ?case by (auto intro!: sound_bind sound_cast intro: sound_defined)
next
  case (typed_Unary e t op ev ty)
  have "sound (unary_eval ev v) ty" if "eval X e row = Ok v" for v
    using unary_eval_typed [OF typed_Unary(2)] sound_has_type [OF typed_Unary(4) that] typed_Unary(3)
    by (auto simp: sound_def has_type_def)
  then show ?case using typed_Unary by (auto simp: of_option_def intro!: sound_bind intro: sound_defined)
next
  case (typed_Binary l t r op ev ty)
  have "sound (binary_eval (base X) (evals X) ev u v) ty" if "eval X l row = Ok u" "eval X r row = Ok v" for u v
    using typed_Binary sound_has_type [OF _ that(1)] sound_has_type [OF _ that(2)]
      binary_eval_is_defined [of t op ev u v "base X" "evals X"] binary_eval_tag [of t op ev "base X" "evals X" u v]
    by (auto simp: sound_def has_type_def)
  then show ?case using typed_Binary by (auto simp: of_option_def intro!: sound_bind intro: sound_defined)
next
  case (typed_CaseWhen operand pairs else_e ty)
  have "value_tag v \<noteq> 18" if "opt_res (\<lambda>e. eval X e row) operand = Ok (Some v)" for v
    using typed_CaseWhen(1) that by (fastforce simp: opt_res_def result_simps has_type_def sound_def split: option.splits)
  then show ?case using typed_CaseWhen
    by (fastforce intro!: sound_bind sound_check_cast defined_case_loop defined_opt_res intro: sound_defined)
next
  case (typed_ScalaFunction args f)
  then have "\<forall>a\<in>set args. defined (eval X a row)" using sound_defined by blast
  then show ?case by (auto simp: list_all_iff intro!: sound_bind sound_cast defined_function_eval [OF assms(3)])
next
  case (typed_Reference pos ty e)
  then have "has_type (vals ! pos) ty" if "row = Some (vals, S)" "pos < length vals" for vals
    using assms(2) that sound_value_at [of vals S pos ty]
    by (auto simp: row_typed_def value_at_def dest: list_all2_lengthD)
  then show ?case using assms(2) by (auto simp: row_typed_def split: option.split)
next
  case (typed_Tuple es tys)
  then have "\<forall>e\<in>set es. defined (eval X e row)"
    using sound_defined by (fastforce simp: list_all2_conv_all_nth in_set_conv_nth)
  then show ?case by (auto intro!: sound_map defined_res_map)
next
  case (typed_SubString e t for_e from_e)
  then have d: "defined (eval X e row)" "\<forall>x\<in>set_option for_e \<union> set_option from_e. defined (eval X x row)"
    using sound_defined by blast+
  then show ?case
    by (auto intro!: sound_bind defined_bind defined_text defined_substring sound_map split: option.split)
next
  case (typed_Position e t in_e t1)
  then have "defined (eval X e row)" "defined (eval X in_e row)" using sound_defined by blast+
  then show ?case by (auto intro!: sound_bind defined_bind defined_text split: option.split)
next
  case (typed_Trim e t what where_f)
  then have d: "defined (eval X e row)" "\<forall>x\<in>set_option what. defined (eval X x row)"
    using sound_defined by blast+
  then show ?case by (auto intro!: sound_bind defined_bind defined_text sound_map split: option.split)
next
  case (typed_In e t args negated)
  then have d: "defined (eval X e row)" "\<forall>x\<in>set args. defined (eval X x row)" using sound_defined by blast+
  then show ?case by (auto intro!: sound_bind sound_map defined_loops split: option.split)
next
  case (typed_Coalesce es ty)
  then have "\<forall>x\<in>set es. defined (eval X x row)" using sound_defined by blast
  then show ?case by (auto intro!: sound_bind sound_check_cast defined_loops)
qed (auto intro!: sound_bind sound_map sound_check_cast defined_loops defined_bind defined_is_true intro: sound_defined
    split: option.split)

section \<open>Binding evaluators\<close>

text \<open>The type that the binder writes into an operator expression.\<close>

definition binary_result_type :: "binary_operator \<Rightarrow> logical_type \<Rightarrow> logical_type \<Rightarrow> logical_type res" where
  "binary_result_type op l_ty r_ty = (case op of
     Plus \<Rightarrow> max_logical_type l_ty r_ty
   | Minus \<Rightarrow> max_logical_type l_ty r_ty
   | Multiply \<Rightarrow> max_logical_type l_ty r_ty
   | Modulo \<Rightarrow> max_logical_type l_ty r_ty
   | Divide \<Rightarrow>
       map_res (\<lambda>t. case t of DecimalT precision scale \<Rightarrow> DecimalT precision scale | _ \<Rightarrow> DoubleT)
         (max_logical_type l_ty r_ty)
   | StringConcat \<Rightarrow> Ok (Varchar None Characters)
   | Spaceship \<Rightarrow> Err (UnsupportedStmt (display_binary_operator op))
   | _ \<Rightarrow> Ok BooleanT)"

definition unary_result_type :: "unary_operator \<Rightarrow> logical_type \<Rightarrow> logical_type" where
  "unary_result_type op ty = (if op = UNot then BooleanT else ty)"

text \<open>
  Expressions as the binder builds them over a schema: operators carry the types above, no operand is a
  tuple, and a column has the type of the schema's column of that name.
\<close>

definition type_is :: "'d scalar_expression \<Rightarrow> (logical_type \<Rightarrow> bool) \<Rightarrow> bool" where
  "type_is e P \<longleftrightarrow> (case return_type e of Inl _ \<Rightarrow> False | Inr ty \<Rightarrow> P ty)"

definition annotated_here ::
  "('d, 't, 'n) env \<Rightarrow> 'd column_catalog list \<Rightarrow> 'd scalar_expression \<Rightarrow> bool" where
  "annotated_here X S e = (case e of
     ColumnRef col \<Rightarrow> \<forall>c\<in>set S. summary c = summary col \<longrightarrow> type_tag (datatype_of c) = type_tag (datatype_of col)
   | Alias x a \<Rightarrow>
       (\<forall>i. alias_position X a S = Ok (Some i) \<longrightarrow> type_is x (\<lambda>ty. type_tag (datatype_of (S ! i)) = type_tag ty))
   | Unary op x _ ty \<Rightarrow> type_is x (\<lambda>t. ty = unary_result_type op t)
   | Binary op l r _ ty \<Rightarrow>
       type_is l (\<lambda>lt. type_tag lt \<noteq> 18 \<and> type_is r (\<lambda>rt. type_tag rt \<noteq> 18 \<and> binary_result_type op lt rt = Ok ty))
   | Reference x pos \<Rightarrow> pos < length S \<longrightarrow> type_is x (\<lambda>ty. type_tag (datatype_of (S ! pos)) = type_tag ty)
   | CaseWhen operand _ _ _ \<Rightarrow> (case operand of None \<Rightarrow> True | Some x \<Rightarrow> type_is x (\<lambda>ty. type_tag ty \<noteq> 18))
   | EmptyExpr \<Rightarrow> False
   | TableFunction _ _ \<Rightarrow> False
   | _ \<Rightarrow> True)"

function annotated :: "('d, 't, 'n) env \<Rightarrow> 'd column_catalog list \<Rightarrow> 'd scalar_expression \<Rightarrow> bool" where
  "annotated X S e \<longleftrightarrow> annotated_here X S e \<and> list_all (annotated X S) (children e)"
  by auto
termination by (relation "measure (\<lambda>(X, S, e). size e)") (auto intro: children_size)

declare annotated.simps [simp del]

lemma max_logical_type_tag:
  "max_logical_type l r = Ok t \<Longrightarrow> type_tag l \<noteq> 18 \<Longrightarrow> type_tag r \<noteq> 18 \<Longrightarrow> type_tag t \<noteq> 18"
  by (cases l; cases r) (auto simp: max_logical_type_def combine_defs type_tag_def split: if_splits)

lemma binary_result_tag:
  assumes "binary_result_type op l r = Ok ty" "max_logical_type l r = Ok t" "binary_create t op = Ok ev"
  shows "type_tag ty = result_tag op (type_tag t)"
  using assms
  by (cases op) (auto simp: binary_result_type_def result_tag_def type_tag_def split: logical_type.splits)

lemma unary_result_tag:
  assumes "unary_create t op = Ok ev"
  shows "type_tag (unary_result_type op t) = type_tag t"
  using assms by (cases t) (auto simp: unary_result_type_def unary_create_def numeric_unary_evaluator_def type_tag_def split: if_splits)

text \<open>What binding gives: an expression of the same type that satisfies the typing judgement.\<close>

definition bound_to :: "('d, 't, 'n) env \<Rightarrow> 'd column_catalog list \<Rightarrow> 'd scalar_expression \<Rightarrow> 'd scalar_expression \<Rightarrow> bool" where
  "bound_to X S e e' \<longleftrightarrow> (\<exists>ty. return_type e = Ok ty \<and> return_type e' = Ok ty \<and> typed X S e' ty)"

lemma type_is_bound: "bound_to X S e e' \<Longrightarrow> type_is e P \<Longrightarrow> \<exists>ty. return_type e' = Ok ty \<and> typed X S e' ty \<and> P ty"
  by (auto simp: bound_to_def type_is_def)

lemma bound_to_typed: "bound_to X S e e' \<Longrightarrow> \<exists>ty. typed X S e' ty"
  by (auto simp: bound_to_def)

lemma typed_fn_cast: "typed X S e e_ty \<Longrightarrow> typed X S (fn_cast e e_ty ty) ty"
  by (auto simp: fn_cast_def intro: typed_TypeCast)

lemma bind_binary_bound:
  assumes "bind_binary op l r ty = Ok e'" "return_type l = Ok lt" "return_type r = Ok rt" "typed X S l lt" "typed X S r rt"
    and "type_tag lt \<noteq> 18" "type_tag rt \<noteq> 18" "binary_result_type op lt rt = Ok ty"
  shows "return_type e' = Ok ty \<and> typed X S e' ty"
  using assms
  by (auto simp: bind_binary_def result_simps max_logical_type_tag intro!: typed_Binary typed_fn_cast binary_result_tag)

lemma bind_unary_bound:
  assumes "bind_unary op x ty = Ok e'" "return_type x = Ok t" "typed X S x t" "ty = unary_result_type op t"
  shows "return_type e' = Ok ty \<and> typed X S e' ty"
proof -
  from assms obtain ev where ev: "unary_create t op = Ok ev" by (auto simp: bind_unary_def Let_def result_simps)
  then have "\<not> is_unsigned_numeric t"
    by (cases t) (auto simp: unary_create_def is_unsigned_numeric_def)
  then show ?thesis using assms ev unary_result_tag [OF ev]
    by (auto simp: bind_unary_def intro!: typed_Unary)
qed

text \<open>The traversal below an expression whose children are bound.\<close>

definition binds :: "('d, 't, 'n) env \<Rightarrow> 'd column_catalog list \<Rightarrow> ('d scalar_expression \<Rightarrow> 'd scalar_expression res) \<Rightarrow>
    'd scalar_expression set \<Rightarrow> bool" where
  "binds X S f es \<longleftrightarrow> (\<forall>e\<in>es. \<forall>e'. f e = Ok e' \<longrightarrow> bound_to X S e e')"

lemma binds_list:
  assumes "list_all2 (\<lambda>x y. f x = Ok y) xs ys" "binds X S f (set xs)"
  shows "(\<forall>y\<in>set ys. \<exists>t. typed X S y t) \<and>
    (\<exists>tys. res_map return_type xs = Ok tys \<and> res_map return_type ys = Ok tys \<and> list_all2 (typed X S) ys tys)"
  using assms by (induction rule: list_all2_induct) (auto simp: binds_def bound_to_def)

lemma binds_opt:
  assumes "opt_res f x = Ok y" "binds X S f (set_option x)"
  shows "\<forall>z\<in>set_option y. \<exists>t. typed X S z t"
  using assms by (cases x) (auto simp: opt_res_def result_simps binds_def bound_to_def)

lemma binds_pairs:
  assumes "res_map (\<lambda>(a, b). res_bind (f a) (\<lambda>a. map_res (Pair a) (f b))) ps = Ok qs"
    and "binds X S f (set (concat (map (\<lambda>(a, b). [a, b]) ps)))"
  shows "\<forall>(a, b)\<in>set qs. (\<exists>t. typed X S a t) \<and> (\<exists>t. typed X S b t)"
  using assms
proof (induction ps arbitrary: qs)
  case (Cons p ps)
  then show ?case by (cases p) (fastforce simp: result_simps binds_def bound_to_def)
qed simp

lemma binds_one: "binds X S f es \<Longrightarrow> e \<in> es \<Longrightarrow> f e = Ok e' \<Longrightarrow> bound_to X S e e'"
  by (simp add: binds_def)

lemma binds_subset: "binds X S f es \<Longrightarrow> es' \<subseteq> es \<Longrightarrow> binds X S f es'"
  by (auto simp: binds_def)

lemma set_option_list: "set (option_list x) = set_option x"
  by (cases x) (simp_all add: option_list_def)

lemma walk_bound_simple:
  assumes "walk_mut_expr f e = Ok e'" "binds X S f (set (children e))" "annotated_here X S e"
    and "e \<in> range Constant \<union> range ColumnRef \<union> {Alias x a, TypeCast x ty, IsNull n x, Reference x pos}"
  shows "bound_to X S e e'"
proof -
  have one: "\<exists>t. return_type c = Ok t \<and> return_type c' = Ok t \<and> typed X S c' t" if "c \<in> set (children e)" "f c = Ok c'" for c c'
    using assms(2) that by (auto simp: binds_def bound_to_def)
  consider v where "e = Constant v" | col where "e = ColumnRef col" | "e = Alias x a" | "e = TypeCast x ty"
    | "e = IsNull n x" | "e = Reference x pos"
    using assms(4) by blast
  then show ?thesis
  proof cases
    case 3
    with assms(1) obtain x' where "f x = Ok x'" "e' = Alias x' a" by (auto simp: result_simps)
    then show ?thesis using 3 one [of x x'] assms(3)
      by (auto simp: bound_to_def annotated_here_def type_is_def intro: typed_Alias)
  next
    case 6
    with assms(1) obtain x' where "f x = Ok x'" "e' = Reference x' pos" by (auto simp: result_simps)
    then show ?thesis using 6 one [of x x'] assms(3)
      by (auto simp: bound_to_def annotated_here_def type_is_def intro: typed_Reference)
  next
    case 4
    with assms(1) obtain x' where "f x = Ok x'" "e' = TypeCast x' ty" by (auto simp: result_simps)
    then show ?thesis using 4 one [of x x'] by (auto simp: bound_to_def intro: typed_TypeCast)
  next
    case 5
    with assms(1) obtain x' where "f x = Ok x'" "e' = IsNull n x'" by (auto simp: result_simps)
    then show ?thesis using 5 one [of x x'] by (auto simp: bound_to_def intro: typed_IsNull)
  qed (use assms(1,3) in \<open>auto simp: bound_to_def annotated_here_def intro: typed_Constant typed_ColumnRef\<close>)
qed

lemma walk_bound_pair:
  assumes "walk_mut_expr f e = Ok e'" "binds X S f (set (children e))"
    and "e \<in> {Position x y, IfNull x y ty, NullIf x y ty, IfExpr x y z ty, Between n x y z}"
  shows "bound_to X S e e'"
proof -
  have one: "\<exists>t. typed X S c' t" if "c \<in> set (children e)" "f c = Ok c'" for c c'
    using assms(2) that by (auto simp: binds_def bound_to_def)
  from assms(3) consider "e = Position x y" | "e = IfNull x y ty" | "e = NullIf x y ty" | "e = IfExpr x y z ty" | "e = Between n x y z"
    by blast
  then show ?thesis
  proof cases
    case 1
    with assms(1) obtain x' y' where "f x = Ok x'" "f y = Ok y'" "e' = Position x' y'"
      by (auto simp: result_simps)
    then show ?thesis using 1 one [of x x'] one [of y y'] by (auto simp: bound_to_def intro: typed_Position)
  next
    case 2
    with assms(1) obtain x' y' where "f x = Ok x'" "f y = Ok y'" "e' = IfNull x' y' ty"
      by (auto simp: result_simps)
    then show ?thesis using 2 one [of x x'] one [of y y'] by (auto simp: bound_to_def intro: typed_IfNull)
  next
    case 3
    with assms(1) obtain x' y' where "f x = Ok x'" "f y = Ok y'" "e' = NullIf x' y' ty"
      by (auto simp: result_simps)
    then show ?thesis using 3 one [of x x'] one [of y y'] by (auto simp: bound_to_def intro: typed_NullIf)
  next
    case 4
    with assms(1) obtain x' y' z' where "f x = Ok x'" "f y = Ok y'" "f z = Ok z'" "e' = IfExpr x' y' z' ty"
      by (auto simp: result_simps)
    then show ?thesis using 4 one [of x x'] one [of y y'] one [of z z'] by (auto simp: bound_to_def intro: typed_If)
  next
    case 5
    with assms(1) obtain x' y' z' where "f x = Ok x'" "f y = Ok y'" "f z = Ok z'" "e' = Between n x' y' z'"
      by (auto simp: result_simps)
    then show ?thesis using 5 one [of x x'] one [of y y'] one [of z z'] by (auto simp: bound_to_def intro: typed_Between)
  qed
qed

lemma walk_bound_list:
  assumes "walk_mut_expr f e = Ok e'" "binds X S f (set (children e))"
    and "e \<in> {AggCall dist kind es ty, TupleExpr es, ScalaFunction g es, Coalesce es ty, In n x es}"
  shows "bound_to X S e e'"
proof -
  have lst: "(\<forall>y\<in>set es'. \<exists>t. typed X S y t) \<and>
      (\<exists>tys. res_map return_type es = Ok tys \<and> res_map return_type es' = Ok tys \<and> list_all2 (typed X S) es' tys)"
    if "res_map f es = Ok es'" for es'
  proof -
    have "set es \<subseteq> set (children e)" using assms(3) by auto
    then have "binds X S f (set es)" by (rule binds_subset [OF assms(2)])
    then show ?thesis using binds_list [of f es es' X S] that by (auto simp: res_map_Ok_iff)
  qed
  from assms(3) consider "e = AggCall dist kind es ty" | "e = TupleExpr es" | "e = ScalaFunction g es" | "e = Coalesce es ty"
    | "e = In n x es" by blast
  then show ?thesis
  proof cases
    case 5
    with assms(1) obtain x' es' where "f x = Ok x'" "res_map f es = Ok es'" "e' = In n x' es'" by (auto simp: result_simps)
    then show ?thesis using 5 lst [of es'] assms(2) by (auto simp: bound_to_def binds_def intro: typed_In)
  qed (use assms(1) lst in \<open>auto simp: map_res_Ok_iff bound_to_def intro!: typed_AggCall typed_Tuple typed_ScalaFunction typed_Coalesce\<close>)
qed

lemma walk_bound_optional:
  assumes "walk_mut_expr f e = Ok e'" "binds X S f (set (children e))" "annotated_here X S e"
    and "e \<in> {SubString x a b, Trim x a wh, CaseWhen a ps b ty}"
  shows "bound_to X S e e'"
proof -
  have opt: "\<forall>z\<in>set_option o'. \<exists>t. typed X S z t" if "opt_res f opt = Ok o'" "set_option opt \<subseteq> set (children e)" for opt o'
    by (rule binds_opt [OF that(1) binds_subset [OF assms(2) that(2)]])
  have one: "\<exists>t. typed X S c' t" if "c \<in> set (children e)" "f c = Ok c'" for c c'
    using assms(2) that by (auto simp: binds_def bound_to_def)
  from assms(4) consider "e = SubString x a b" | "e = Trim x a wh" | "e = CaseWhen a ps b ty" by blast
  then show ?thesis
  proof cases
    case 1
    with assms(1) obtain x' a' b' where w: "f x = Ok x'" "opt_res f a = Ok a'" "opt_res f b = Ok b'" "e' = SubString x' a' b'"
      by (auto simp: result_simps)
    obtain t where "typed X S x' t" using one [of x x'] 1 w(1) by auto
    moreover have "\<forall>z\<in>set_option a'. \<exists>t. typed X S z t" "\<forall>z\<in>set_option b'. \<exists>t. typed X S z t"
      using opt [OF w(2)] opt [OF w(3)] 1 by (auto simp: set_option_list)
    ultimately show ?thesis using 1 w(4) by (auto simp: bound_to_def intro!: typed_SubString)
  next
    case 2
    with assms(1) obtain x' a' where w: "f x = Ok x'" "opt_res f a = Ok a'" "e' = Trim x' a' wh"
      by (auto simp: result_simps)
    obtain t where "typed X S x' t" using one [of x x'] 2 w(1) by auto
    moreover have "\<forall>z\<in>set_option a'. \<exists>t. typed X S z t" using opt [OF w(2)] 2 by (auto simp: set_option_list)
    ultimately show ?thesis using 2 w(3) by (auto simp: bound_to_def intro!: typed_Trim)
  next
    case 3
    with assms(1) obtain a' ps' b' where w: "opt_res f a = Ok a'" "opt_res f b = Ok b'" "e' = CaseWhen a' ps' b' ty"
      and ps: "res_map (\<lambda>(a, b). res_bind (f a) (\<lambda>a. map_res (Pair a) (f b))) ps = Ok ps'"
      by (auto simp: result_simps)
    have "\<forall>(a, b)\<in>set ps'. (\<exists>t. typed X S a t) \<and> (\<exists>t. typed X S b t)"
      using 3 by (intro binds_pairs [OF ps] binds_subset [OF assms(2)]) auto
    moreover have "\<forall>z\<in>set_option b'. \<exists>t. typed X S z t" using opt [OF w(2)] 3 by (auto simp: set_option_list)
    moreover have "\<forall>z\<in>set_option a'. \<exists>t. typed X S z t \<and> type_tag t \<noteq> 18"
    proof (cases a)
      case (Some y)
      with w(1) obtain y' where "f y = Ok y'" "a' = Some y'" by (auto simp: opt_res_def result_simps)
      moreover have "bound_to X S y y'" using Some 3 by (intro binds_one [OF assms(2) _ \<open>f y = Ok y'\<close>]) (simp add: set_option_list)
      ultimately show ?thesis using assms(3) 3 Some by (auto simp: annotated_here_def dest: type_is_bound)
    qed (use w(1) in \<open>simp add: opt_res_def\<close>)
    ultimately show ?thesis using 3 w(3) by (auto simp: bound_to_def intro!: typed_CaseWhen)
  qed
qed

definition is_operator :: "'d scalar_expression \<Rightarrow> bool" where
  "is_operator e = (case e of Unary _ _ _ _ \<Rightarrow> True | Binary _ _ _ _ _ \<Rightarrow> True | _ \<Rightarrow> False)"

lemma walk_bound:
  assumes "walk_mut_expr f e = Ok e'" "binds X S f (set (children e))" "annotated_here X S e" "\<not> is_operator e"
  shows "bound_to X S e e'"
  using walk_bound_simple [OF assms(1-3)] walk_bound_pair [OF assms(1,2)] walk_bound_list [OF assms(1,2)]
    walk_bound_optional [OF assms(1-3)] assms(3,4)
  by (cases e) (simp_all add: is_operator_def annotated_here_def, blast+)

lemma bind_evaluator_other: "\<not> is_operator e \<Longrightarrow> bind_evaluator e = walk_mut_expr bind_evaluator e"
  by (cases e) (simp_all add: is_operator_def bind_evaluator.simps)

lemma bind_evaluator_bound:
  "annotated X S e \<Longrightarrow> bind_evaluator e = Ok e' \<Longrightarrow> bound_to X S e e'"
proof (induction e arbitrary: e' rule: measure_induct_rule [of size])
  case (less e)
  have here: "annotated_here X S e" and sub: "\<And>c. c \<in> set (children e) \<Longrightarrow> annotated X S c"
    using less.prems(1) by (auto simp: annotated.simps [of X S e] list_all_iff)
  have IH: "bound_to X S c c'" if "c \<in> set (children e)" "bind_evaluator c = Ok c'" for c c'
    using that by (intro less.IH children_size sub)
  show ?case
  proof (cases "is_operator e")
    case False
    then show ?thesis using less.prems(2) IH here
      by (intro walk_bound [of bind_evaluator]) (auto simp: bind_evaluator_other binds_def)
  next
    case True
    then consider op x ev ty where "e = Unary op x ev ty" | op l r ev ty where "e = Binary op l r ev ty"
      by (auto simp: is_operator_def split: scalar_expression.splits)
    then show ?thesis
    proof cases
      case 1
      with less.prems(2) obtain x' where x': "bind_evaluator x = Ok x'" "bind_unary op x' ty = Ok e'"
        by (auto simp: bind_evaluator.simps [of "Unary op x ev ty"] result_simps)
      then have "bound_to X S x x'" using IH [of x x'] 1 by simp
      from type_is_bound [OF this] here 1 obtain t where "return_type x' = Ok t" "typed X S x' t" "ty = unary_result_type op t"
        by (auto simp: annotated_here_def)
      from bind_unary_bound [OF x'(2) this] 1 show ?thesis by (auto simp: bound_to_def)
    next
      case 2
      with less.prems(2) obtain l' r' where b: "bind_evaluator l = Ok l'" "bind_evaluator r = Ok r'" "bind_binary op l' r' ty = Ok e'"
        by (auto simp: bind_evaluator.simps [of "Binary op l r ev ty"] result_simps)
      then have bl: "bound_to X S l l'" and br: "bound_to X S r r'" using IH [of l l'] IH [of r r'] 2 by simp_all
      from type_is_bound [OF bl] here 2 obtain lt where l: "return_type l' = Ok lt" "typed X S l' lt" "type_tag lt \<noteq> 18"
        "type_is r (\<lambda>rt. type_tag rt \<noteq> 18 \<and> binary_result_type op lt rt = Ok ty)"
        by (auto simp: annotated_here_def)
      from type_is_bound [OF br l(4)] obtain rt where r: "return_type r' = Ok rt" "typed X S r' rt" "type_tag rt \<noteq> 18"
        "binary_result_type op lt rt = Ok ty" by auto
      from bind_binary_bound [OF b(3) l(1) r(1) l(2) r(2) l(3) r(3) r(4)] 2 show ?thesis by (auto simp: bound_to_def)
    qed
  qed
qed

section \<open>Evaluation of bound expressions\<close>

text \<open>A concrete instance of the crates; no function is registered by users.\<close>

definition sample_env :: "(64 word, int, int) env" where
  "sample_env = \<lparr> base = sample_crates, evals = sample_eval, casts = sample_cast,
     regex_escape = id, regex_replace_all = (\<lambda>_ s. Some s), to_lowercase = id, to_uppercase = id,
     f32_debug = (\<lambda>_. []), f64_debug = (\<lambda>_. []), f32_fixed = (\<lambda>_ _. []), f64_fixed = (\<lambda>_ _. []),
     units_to_string = (\<lambda>_. []), today = 0, now = 0, other_function = (\<lambda>_ _. Ok Null) \<rparr>"

definition sample_column :: "string \<Rightarrow> logical_type \<Rightarrow> 64 word column_catalog" where
  "sample_column name ty = column_new (ascii name) True (ColumnDesc ty None False None)"

lemma functions_defined_sample: "functions_defined sample_env"
  by (simp add: functions_defined_def sample_env_def)



section \<open>Two rewrites that lose expressions\<close>

lemma bind_unary_unsigned:
  assumes "return_type x = Ok t" "is_unsigned_numeric t"
  shows "\<exists>err. bind_unary op x ty = Err err"
  using assms by (cases t) (auto simp: bind_unary_def unary_create_def is_unsigned_numeric_def)

text \<open>
  \<open>TryReference\<close> replaces an expression by a reference to an output of the same column; NULLIF and IFNULL of
  the same arguments have the same name, so that one is replaced by the other.
\<close>

lemma nullif_ifnull_name: "output_name X (NullIf a b ty) = output_name X (IfNull a b ty)"
  by simp

end
