(* ===== verification/Row_Store.thy ===== *)
theory Row_Store
  imports Storage Expression_Typing
begin

text \<open>
  Reading rows: \<open>Transaction::read\<close> and \<open>TupleIter\<close> of \<open>src/src/storage/mod.rs\<close> and the sequential scan of
  \<open>src/src/execution/dql/seq_scan.rs\<close>. The rows of a table refine a map from primary keys to rows: inserting,
  overwriting and deleting rows act on the map, and a scan lists the map in the order of the keys.
\<close>

section \<open>Iterating over rows\<close>

text \<open>Insertion into a \<open>BTreeMap\<close>, represented by its entries in key order.\<close>

fun btree_insert :: "nat \<Rightarrow> 'a \<Rightarrow> (nat \<times> 'a) list \<Rightarrow> (nat \<times> 'a) list" where
  "btree_insert k v [] = [(k, v)]"
| "btree_insert k v ((k', v') # m) =
    (if k < k' then (k, v) # (k', v') # m else if k = k' then (k, v) # m else (k', v') # btree_insert k v m)"

definition scan_columns ::
  "'d table_catalog \<Rightarrow> (nat \<times> 'd column_catalog) list \<Rightarrow> bool \<Rightarrow> (nat \<times> 'd column_catalog) list" where
  "scan_columns t cols with_pk =
    (if cols = [] \<or> with_pk then fold (\<lambda>(i, col). btree_insert i col) (primary_keys t) cols else cols)"

text \<open>The position of each key column in the projection; the projection is sorted, and \<open>binary_search\<close> finds it.\<close>

definition remap_pk_indices :: "nat list \<Rightarrow> nat list \<Rightarrow> nat list" where
  "remap_pk_indices projection pk_indices = List.map_filter (\<lambda>pk. find_position (\<lambda>p. p = pk) projection) pk_indices"

record 'd tuple_iter =
  ti_offset :: nat
  ti_limit :: "nat option"
  ti_types :: "logical_type list"
  ti_columns :: "'d column_catalog list"
  ti_pk_indices :: "nat list"
  ti_projections :: "nat list"
  ti_with_pk :: bool
  ti_iter :: rocks_iter

definition read ::
  "('d, 't, 'n, 's, 'v, 'm) store_env \<Rightarrow> rstring \<Rightarrow> nat option \<times> nat option \<Rightarrow> (nat \<times> 'd column_catalog) list \<Rightarrow> bool \<Rightarrow>
   ('d tuple_iter, ('d, 's, 'v, 'm) tx_state) op" where
  "read D table_name bnds cols with_pk =
    op_bind (table D table_name) (\<lambda>found. case found of
      None \<Rightarrow> op_fail TableNotFound
    | Some t \<Rightarrow>
        let cols' = scan_columns t cols with_pk;
            projections = map fst cols';
            (lo, hi) = tuple_bound (sip D) table_name in
        op_bind (tx_range D (Included lo) (Included hi)) (\<lambda>it.
          op_return \<lparr> ti_offset = (case fst bnds of None \<Rightarrow> 0 | Some n \<Rightarrow> n), ti_limit = snd bnds, ti_types = types_of t,
            ti_columns = map snd cols', ti_pk_indices = remap_pk_indices projections (primary_key_indices t),
            ti_projections = projections, ti_with_pk = with_pk, ti_iter = it \<rparr>))"

text \<open>The first loop of \<open>next_tuple\<close>: whether the entries ended, the offset that is left, and the iterator.\<close>

fun skip_offset :: "nat \<Rightarrow> rocks_iter \<Rightarrow> (bool \<times> nat \<times> rocks_iter) res" where
  "skip_offset 0 it = Ok (False, 0, it)"
| "skip_offset (Suc n) it =
    res_bind (try_next it) (\<lambda>(entry, it'). if entry = None then Ok (True, Suc n, it') else skip_offset n it')"

definition next_tuple ::
  "('d, 't, 'n, 's, 'v, 'm) store_env \<Rightarrow> 'd tuple_iter \<Rightarrow> ('d tuple option \<times> 'd tuple_iter) res" where
  "next_tuple D ti =
    res_bind (skip_offset (ti_offset ti) (ti_iter ti)) (\<lambda>(ended, offset, it).
      if ended then Ok (None, ti\<lparr> ti_offset := offset, ti_iter := it \<rparr>)
      else res_bind (try_next it) (\<lambda>(entry, it').
        let ti' = ti\<lparr> ti_offset := offset, ti_iter := it' \<rparr> in
        case entry of
          None \<Rightarrow> Ok (None, ti')
        | Some e \<Rightarrow>
            if ti_limit ti = Some 0 then Ok (None, ti')
            else res_bind
              (decode_tuple D (ti_types ti) (ti_pk_indices ti) (ti_projections ti) (ti_columns ti) (snd e) (ti_with_pk ti))
              (\<lambda>t. Ok (Some t, ti'\<lparr> ti_limit := map_option (\<lambda>n. n - 1) (ti_limit ti) \<rparr>))))"

lemma try_next_length: "try_next it = Ok (r, it') \<Longrightarrow> length (iter_rest it') \<le> length (iter_rest it)"
  "try_next it = Ok (Some e, it') \<Longrightarrow> length (iter_rest it') < length (iter_rest it)"
  by (auto simp: try_next_def res_bind_Ok_iff split: list.splits if_splits)

lemma skip_offset_length: "skip_offset n it = Ok (b, n', it') \<Longrightarrow> length (iter_rest it') \<le> length (iter_rest it)"
proof (induction n arbitrary: it)
  case (Suc n)
  then obtain r it1 where "try_next it = Ok (r, it1)" "it' = it1 \<or> skip_offset n it1 = Ok (b, n', it')"
    by (auto simp: res_bind_Ok_iff split: if_splits)
  with Suc.IH [of it1] try_next_length(1) [of it r it1] show ?case by auto
qed simp

lemma next_tuple_length:
  assumes "next_tuple D ti = Ok (Some t, ti')"
  shows "length (iter_rest (ti_iter ti')) < length (iter_rest (ti_iter ti))"
proof -
  obtain ended offset it where sk: "skip_offset (ti_offset ti) (ti_iter ti) = Ok (ended, offset, it)"
    using assms by (auto simp: next_tuple_def res_bind_Ok_iff)
  with assms have "\<not> ended" by (auto simp: next_tuple_def)
  moreover from this sk assms obtain r it' where r: "try_next it = Ok (r, it')"
    by (auto simp: next_tuple_def res_bind_Ok_iff)
  ultimately obtain e where "r = Some e" "ti_iter ti' = it'"
    using sk assms by (cases r) (auto simp: next_tuple_def res_bind_Ok_iff Let_def split: if_splits)
  with sk r skip_offset_length [of "ti_offset ti" "ti_iter ti"] try_next_length(2) [of it e it'] show ?thesis by fastforce
qed

text \<open>The stream of rows that an executor yields: after an error it ends.\<close>

type_synonym 'd tuple_stream = "'d tuple res list"

function tuple_stream :: "('d, 't, 'n, 's, 'v, 'm) store_env \<Rightarrow> 'd tuple_iter \<Rightarrow> 'd tuple_stream" where
  "tuple_stream D ti = (case next_tuple D ti of
     Inl e \<Rightarrow> [Err e]
   | Inr (None, _) \<Rightarrow> []
   | Inr (Some t, ti') \<Rightarrow> Ok t # tuple_stream D ti')"
  by auto
termination
  by (relation "measure (\<lambda>(D, ti). length (iter_rest (ti_iter ti)))") (auto dest: next_tuple_length)

declare tuple_stream.simps [simp del]

definition seq_scan ::
  "('d, 't, 'n, 's, 'v, 'm) store_env \<Rightarrow> rstring \<Rightarrow> nat option \<times> nat option \<Rightarrow> (nat \<times> 'd column_catalog) list \<Rightarrow> bool \<Rightarrow>
   ('d, 's, 'v, 'm) tx_state \<Rightarrow> 'd tuple_stream \<times> ('d, 's, 'v, 'm) tx_state" where
  "seq_scan D table_name bnds cols with_pk st = (case read D table_name bnds cols with_pk st of
     (Inl e, st') \<Rightarrow> ([Err e], st')
   | (Inr ti, st') \<Rightarrow> (tuple_stream D ti, st'))"

section \<open>The stream of an iterator\<close>

text \<open>The entries that an iterator without errors still returns.\<close>

definition live :: "rocks_iter \<Rightarrow> (bytes \<times> bytes) list \<Rightarrow> bool" where
  "live it es \<longleftrightarrow> (\<exists>all. iter_rest it = map Ok all \<and> sorted_wrt (<) (map fst all) \<and>
     es = takeWhile (upper_bound_check (iter_upper it) \<circ> fst) all)"

lemma live_Nil:
  assumes "live it []"
  shows "\<exists>it'. try_next it = Ok (None, it') \<and> live it' []"
proof -
  obtain xs where xs: "iter_rest it = map Ok xs" "sorted_wrt (<) (map fst xs)"
    "takeWhile (upper_bound_check (iter_upper it) \<circ> fst) xs = []"
    using assms by (auto simp: live_def)
  show ?thesis
  proof (cases xs)
    case Nil
    then show ?thesis using xs by (intro exI [of _ it]) (auto simp: try_next_def live_def)
  next
    case (Cons e es)
    then have "\<not> upper_bound_check (iter_upper it) (fst e)" using xs(3) by (simp split: if_splits)
    moreover from this have "takeWhile (upper_bound_check (iter_upper it) \<circ> fst) es = []"
      using xs(2) Cons upper_bound_check_mono [of "fst e"] by (cases es) (auto dest: less_imp_le)
    ultimately show ?thesis
      using xs Cons by (auto simp: try_next_def live_def split: prod.splits)
  qed
qed

lemma live_Cons:
  assumes "live it (e # es)"
  shows "\<exists>it'. try_next it = Ok (Some e, it') \<and> live it' es"
proof -
  obtain xs where xs: "iter_rest it = map Ok xs" "sorted_wrt (<) (map fst xs)"
    "e # es = takeWhile (upper_bound_check (iter_upper it) \<circ> fst) xs"
    using assms by (auto simp: live_def)
  then obtain ys where "xs = e # ys" "upper_bound_check (iter_upper it) (fst e)"
    "es = takeWhile (upper_bound_check (iter_upper it) \<circ> fst) ys"
    by (cases xs) (auto split: if_splits)
  then show ?thesis using xs by (auto simp: try_next_def live_def split: prod.splits)
qed

lemma skip_offset_live:
  assumes "live it es"
  shows "\<exists>it'. skip_offset n it = Ok (length es < n, n - length es, it') \<and> live it' (drop n es)"
  using assms
proof (induction n arbitrary: it es)
  case (Suc n)
  show ?case
  proof (cases es)
    case Nil
    then show ?thesis using Suc.prems live_Nil [of it] by auto
  next
    case (Cons e es')
    with Suc.prems live_Cons obtain it' where "try_next it = Ok (Some e, it')" "live it' es'" by blast
    with Suc.IH [of it' es'] Cons show ?thesis by auto
  qed
qed simp

text \<open>Decoding a list of stored rows; the stream ends at the first error.\<close>

fun until_error :: "('a \<Rightarrow> 'b res) \<Rightarrow> 'a list \<Rightarrow> 'b res list" where
  "until_error f [] = []"
| "until_error f (x # xs) = (case f x of Inl e \<Rightarrow> [Err e] | Inr y \<Rightarrow> Ok y # until_error f xs)"

lemma until_error_map: "\<forall>x\<in>set xs. f (g x) = Ok (h x) \<Longrightarrow> until_error f (map g xs) = map (\<lambda>x. Ok (h x)) xs"
  by (induction xs) auto

definition window :: "nat \<Rightarrow> nat option \<Rightarrow> 'a list \<Rightarrow> 'a list" where
  "window offset limit xs = (case limit of None \<Rightarrow> drop offset xs | Some n \<Rightarrow> take n (drop offset xs))"

lemma tuple_stream_live:
  assumes "live (ti_iter ti) es"
  shows "tuple_stream D ti = until_error
    (\<lambda>e. decode_tuple D (ti_types ti) (ti_pk_indices ti) (ti_projections ti) (ti_columns ti) (snd e) (ti_with_pk ti))
    (window (ti_offset ti) (ti_limit ti) es)"
  using assms
proof (induction "length es" arbitrary: ti es rule: less_induct)
  case less
  let ?dec = "\<lambda>e. decode_tuple D (ti_types ti) (ti_pk_indices ti) (ti_projections ti) (ti_columns ti) (snd e) (ti_with_pk ti)"
  let ?n = "ti_offset ti"
  obtain it where it: "skip_offset ?n (ti_iter ti) = Ok (length es < ?n, ?n - length es, it)" "live it (drop ?n es)"
    using skip_offset_live [OF less.prems] by blast
  show ?case
  proof (cases "drop ?n es")
    case Nil
    with it live_Nil [of it] have "\<exists>ti'. next_tuple D ti = Ok (None, ti')"
      by (auto simp: next_tuple_def Let_def split: if_splits)
    with Nil show ?thesis by (auto simp: tuple_stream.simps [of D ti] window_def split: option.splits)
  next
    case (Cons e es')
    have len: "?n < length es" using Cons by (metis drop_all leI list.distinct(1))
    from it Cons live_Cons obtain it' where it': "try_next it = Ok (Some e, it')" "live it' es'" by metis
    define ti' where "ti' = ti\<lparr> ti_offset := 0, ti_iter := it', ti_limit := map_option (\<lambda>n. n - 1) (ti_limit ti) \<rparr>"
    have step: "next_tuple D ti = (if ti_limit ti = Some 0 then Ok (None, ti\<lparr> ti_offset := 0, ti_iter := it' \<rparr>)
        else res_bind (?dec e) (\<lambda>t. Ok (Some t, ti')))"
      using it(1) it'(1) len by (simp add: next_tuple_def Let_def ti'_def split: prod.split)
    have "length es' < length es" using arg_cong [OF Cons, of length] len by simp
    from less.hyps [OF this, of ti'] it'(2)
    have IH: "tuple_stream D ti' = until_error ?dec (window 0 (map_option (\<lambda>n. n - 1) (ti_limit ti)) es')"
      by (simp add: ti'_def)
    show ?thesis
    proof (cases "ti_limit ti = Some 0")
      case True
      then show ?thesis using step by (simp add: tuple_stream.simps [of D ti] window_def)
    next
      case False
      then have "window ?n (ti_limit ti) es = e # window 0 (map_option (\<lambda>n. n - 1) (ti_limit ti)) es'"
        using Cons by (cases "ti_limit ti") (auto simp: window_def take_Cons' gr0_conv_Suc)
      with False step IH show ?thesis
        by (cases "?dec e") (simp_all add: tuple_stream.simps [of D ti])
    qed
  qed
qed

section \<open>Keys of rows\<close>

text \<open>
  Primary keys of one table: of one type, not composite, with keys that sort like \<open>partial_cmp\<close>, and such that
  equal keys are the same value.
\<close>

definition pk_domain :: "'d crates \<Rightarrow> 'd data_value set \<Rightarrow> bool" where
  "pk_domain K P \<longleftrightarrow> ordered_float_laws K \<and>
    (\<forall>a\<in>P. check_primary_key a 0 = Ok () \<and> key_domain 10 a) \<and>
    (\<forall>a\<in>P. \<forall>b\<in>P. value_tag a = value_tag b \<and> (partial_cmp K a b = Some Equal \<longrightarrow> a = b))"

definition row_key :: "('d, 't, 'n, 's, 'v, 'm) store_env \<Rightarrow> rstring \<Rightarrow> 'd data_value \<Rightarrow> bytes" where
  "row_key D name a = key_prefix (sip D) CTuple name @ [BOUND_MIN_TAG] @ column_bytes (crates_of D) a"

definition row_bytes :: "('d, 't, 'n, 's, 'v, 'm) store_env \<Rightarrow> logical_type list \<Rightarrow> 'd data_value list \<Rightarrow> bytes" where
  "row_bytes D types vs = projr (serialize_to (crates_of D) \<lparr> pk = None, tuple_values = vs \<rparr> types)"

lemma encode_tuple_key_row:
  assumes "pk_domain (crates_of D) P" "a \<in> P"
  shows "encode_tuple_key (sip D) (crates_of D) name a = Ok (row_key D name a)"
proof -
  let ?p = "key_prefix (sip D) CTuple name @ [BOUND_MIN_TAG]"
  have "memcomparable_encode (crates_of D) a ?p = Ok (?p @ column_bytes (crates_of D) a)"
    using assms by (intro memcomparable_encode_column) (simp_all add: pk_domain_def key_prefix_def Let_def)
  then show ?thesis using assms by (simp add: pk_domain_def encode_tuple_key_def row_key_def)
qed

lemma row_key_cmp:
  assumes "pk_domain (crates_of D) P" "a \<in> P" "b \<in> P"
  shows "partial_cmp (crates_of D) a b = Some (cmp_of (row_key D name a) (row_key D name b))"
proof -
  obtain r where r: "partial_cmp (crates_of D) a b = Some r"
    "cmp_of (column_bytes (crates_of D) a @ []) (column_bytes (crates_of D) b @ []) = then_ord r (cmp_of [] ([] :: bytes))"
    using column_bytes_order [of "crates_of D" 10 a 10 b] assms unfolding pk_domain_def by blast
  then show ?thesis by (simp add: row_key_def cmp_of_bytes_append)
qed

lemma row_key_inject:
  assumes "pk_domain (crates_of D) P" "a \<in> P" "b \<in> P"
  shows "row_key D name a = row_key D name b \<longleftrightarrow> a = b"
proof
  assume "row_key D name a = row_key D name b"
  then have "partial_cmp (crates_of D) a b = Some Equal" using row_key_cmp [OF assms, of name] by (simp add: cmp_of_def)
  with assms show "a = b" unfolding pk_domain_def by blast
qed simp

lemma row_key_within: "within (row_key D name a) (tuple_bound (sip D) name)"
  using within_prefix [of "tuple_bound (sip D) name" "key_prefix (sip D) CTuple name"]
  by (simp add: row_key_def tuple_bound_def both_bounds_def)

lemma serialize_row_bytes:
  assumes "row_fits (crates_of D) types vs"
  shows "serialize_to (crates_of D) \<lparr> pk = k, tuple_values = vs \<rparr> types = Ok (row_bytes D types vs)"
proof -
  have "serialize_to (crates_of D) \<lparr> pk = k, tuple_values = vs \<rparr> types =
      serialize_to (crates_of D) \<lparr> pk = None, tuple_values = vs \<rparr> types"
    by (simp add: serialize_to_def)
  with serialize_row [OF assms, of None] show ?thesis by (auto simp: row_bytes_def)
qed

section \<open>The rows of a table as a map\<close>

definition rows_rep ::
  "('d, 't, 'n, 's, 'v, 'm) store_env \<Rightarrow> ('s \<Rightarrow> bytes \<rightharpoonup> bytes) \<Rightarrow> rstring \<Rightarrow> logical_type list \<Rightarrow> 'd data_value set \<Rightarrow>
   ('d data_value \<rightharpoonup> 'd data_value list) \<Rightarrow> ('d, 's, 'v, 'm) tx_state \<Rightarrow> bool" where
  "rows_rep D c name types P m st \<longleftrightarrow>
    dom m \<subseteq> P \<and> (\<forall>vs\<in>ran m. row_fits (crates_of D) types vs) \<and>
    (\<forall>k v. within k (tuple_bound (sip D) name) \<longrightarrow>
      (held c st k = Some v \<longleftrightarrow> (\<exists>a vs. m a = Some vs \<and> k = row_key D name a \<and> v = row_bytes D types vs)))"

datatype 'd row_op =
    AppendRow "'d data_value" "'d data_value list" bool
  | RemoveRow "'d data_value"

fun run_row_op ::
  "('d, 't, 'n, 's, 'v, 'm) store_env \<Rightarrow> rstring \<Rightarrow> logical_type list \<Rightarrow> 'd row_op \<Rightarrow> (unit, ('d, 's, 'v, 'm) tx_state) op" where
  "run_row_op D name types (AppendRow a vs overwrite) =
     append_tuple D name \<lparr> pk = Some a, tuple_values = vs \<rparr> types overwrite"
| "run_row_op D name types (RemoveRow a) = remove_tuple D name a"

fun spec_row_op :: "'d row_op \<Rightarrow> ('d data_value \<rightharpoonup> 'd data_value list) \<Rightarrow> unit res \<times> ('d data_value \<rightharpoonup> 'd data_value list)" where
  "spec_row_op (AppendRow a vs overwrite) m =
     (if \<not> overwrite \<and> m a \<noteq> None then (Err DuplicatePrimaryKey, m) else (Ok (), m(a \<mapsto> vs)))"
| "spec_row_op (RemoveRow a) m = (Ok (), m(a := None))"

fun run_all :: "('o \<Rightarrow> 'x \<Rightarrow> 'r \<times> 'x) \<Rightarrow> 'o list \<Rightarrow> 'x \<Rightarrow> 'r list \<times> 'x" where
  "run_all f [] x = ([], x)"
| "run_all f (p # ps) x = (case f p x of (r, x') \<Rightarrow> apfst (Cons r) (run_all f ps x'))"

fun row_op_ok :: "'d crates \<Rightarrow> logical_type list \<Rightarrow> 'd data_value set \<Rightarrow> 'd row_op \<Rightarrow> bool" where
  "row_op_ok K types P (AppendRow a vs overwrite) \<longleftrightarrow> a \<in> P \<and> row_fits K types vs"
| "row_op_ok K types P (RemoveRow a) \<longleftrightarrow> a \<in> P"

lemma held_row:
  assumes "rows_rep D c name types P m st" "pk_domain (crates_of D) P" "a \<in> P"
  shows "held c st (row_key D name a) = map_option (row_bytes D types) (m a)"
proof (cases "m a")
  case None
  have "held c st (row_key D name a) \<noteq> Some v" for v
  proof
    assume "held c st (row_key D name a) = Some v"
    then obtain b vs where "m b = Some vs" "row_key D name a = row_key D name b"
      using assms(1) row_key_within unfolding rows_rep_def by blast
    moreover from this assms have "b \<in> P" by (auto simp: rows_rep_def)
    ultimately show False using row_key_inject [OF assms(2,3)] None by simp
  qed
  with None show ?thesis by (cases "held c st (row_key D name a)") auto
next
  case (Some vs)
  then show ?thesis using assms(1) row_key_within unfolding rows_rep_def by fastforce
qed

lemma rows_rep_update:
  assumes "rows_rep D c name types P m st" "pk_domain (crates_of D) P" "a \<in> P"
    and "\<forall>vs. r = Some vs \<longrightarrow> row_fits (crates_of D) types vs"
    and "held c st' = (held c st)(row_key D name a := map_option (row_bytes D types) r)"
  shows "rows_rep D c name types P (m(a := r)) st'"
proof -
  have P: "dom m \<subseteq> P" "\<forall>vs\<in>ran m. row_fits (crates_of D) types vs" using assms(1) by (simp_all add: rows_rep_def)
  have "held c st' k = Some v \<longleftrightarrow> (\<exists>b vs. (m(a := r)) b = Some vs \<and> k = row_key D name b \<and> v = row_bytes D types vs)"
    if k: "within k (tuple_bound (sip D) name)" for k v
  proof (cases "k = row_key D name a")
    case True
    have "b = a" if "(m(a := r)) b = Some vs" "row_key D name a = row_key D name b" for b vs
    proof (rule ccontr)
      assume "b \<noteq> a"
      with that(1) P(1) have "b \<in> P" by auto
      with that(2) \<open>b \<noteq> a\<close> row_key_inject [OF assms(2,3)] show False by auto
    qed
    then have "(\<exists>b vs. (m(a := r)) b = Some vs \<and> k = row_key D name b \<and> v = row_bytes D types vs) \<longleftrightarrow>
        (\<exists>vs. r = Some vs \<and> v = row_bytes D types vs)"
      unfolding True by (metis fun_upd_same)
    then show ?thesis using True assms(5) by (cases r) auto
  next
    case False
    then have "held c st' k = held c st k" using assms(5) by simp
    also have "held c st k = Some v \<longleftrightarrow> (\<exists>b vs. m b = Some vs \<and> k = row_key D name b \<and> v = row_bytes D types vs)"
      using assms(1) k unfolding rows_rep_def by blast
    also have "\<dots> \<longleftrightarrow> (\<exists>b vs. (m(a := r)) b = Some vs \<and> k = row_key D name b \<and> v = row_bytes D types vs)"
      using False by (metis fun_upd_other)
    finally show ?thesis .
  qed
  moreover have "\<forall>vs\<in>ran (m(a := r)). row_fits (crates_of D) types vs"
    using P(2) assms(4) by (fastforce simp: ran_def split: if_splits)
  ultimately show ?thesis using P(1) assms(3) by (auto simp: rows_rep_def split: if_splits)
qed

lemma row_op_refines:
  assumes "rocks_laws (rocks D) c" "pk_domain (crates_of D) P" "rows_rep D c name types P m st"
    and "row_op_ok (crates_of D) types P p"
  shows "\<exists>st'. run_row_op D name types p st = (fst (spec_row_op p m), st') \<and>
    rows_rep D c name types P (snd (spec_row_op p m)) st' \<and> same_caches st st'"
proof (cases p)
  case (AppendRow a vs overwrite)
  then have a: "a \<in> P" "row_fits (crates_of D) types vs" using assms(4) by auto
  have enc: "encode_tuple (sip D) (crates_of D) name \<lparr> pk = Some a, tuple_values = vs \<rparr> types =
      Ok (row_key D name a, row_bytes D types vs)"
    using encode_tuple_key_row [OF assms(2) a(1)] serialize_row_bytes [OF a(2)] by (simp add: encode_tuple_def)
  show ?thesis
  proof (cases "\<not> overwrite \<and> m a \<noteq> None")
    case True
    then show ?thesis
      using AppendRow assms(3) enc held_row [OF assms(3,2) a(1)] tx_get_held [OF assms(1)]
      by (auto simp: append_tuple_def op_simps)
  next
    case False
    obtain st' where st': "tx_set D (row_key D name a) (row_bytes D types vs) st = (Ok (), st')"
      "held c st' = (held c st)(row_key D name a \<mapsto> row_bytes D types vs)" "same_caches st st'"
      using tx_set_held [OF assms(1)] by blast
    have "rows_rep D c name types P (m(a := Some vs)) st'"
      using rows_rep_update [OF assms(3,2) a(1), of "Some vs" st'] a(2) st'(2) by simp
    with False AppendRow enc st' held_row [OF assms(3,2) a(1)] tx_get_held [OF assms(1)] show ?thesis
      by (auto simp: append_tuple_def op_simps)
  qed
next
  case (RemoveRow a)
  then have a: "a \<in> P" using assms(4) by simp
  obtain st' where st': "tx_remove D (row_key D name a) st = (Ok (), st')"
    "held c st' = (held c st)(row_key D name a := None)" "same_caches st st'"
    using tx_remove_held [OF assms(1)] by blast
  have "rows_rep D c name types P (m(a := None)) st'"
    using rows_rep_update [OF assms(3,2) a, of None st'] st'(2) by simp
  with RemoveRow st' encode_tuple_key_row [OF assms(2) a] show ?thesis
    by (auto simp: remove_tuple_def op_simps)
qed

lemma rows_refine:
  assumes "rocks_laws (rocks D) c" "pk_domain (crates_of D) P" "rows_rep D c name types P m st"
    and "\<forall>p\<in>set ops. row_op_ok (crates_of D) types P p"
  shows "fst (run_all (run_row_op D name types) ops st) = fst (run_all spec_row_op ops m) \<and>
    rows_rep D c name types P (snd (run_all spec_row_op ops m)) (snd (run_all (run_row_op D name types) ops st)) \<and>
    same_caches st (snd (run_all (run_row_op D name types) ops st))"
  using assms(3,4)
proof (induction ops arbitrary: m st)
  case (Cons p ops)
  obtain st' where st': "run_row_op D name types p st = (fst (spec_row_op p m), st')"
    "rows_rep D c name types P (snd (spec_row_op p m)) st'" "same_caches st st'"
    using row_op_refines [OF assms(1,2) Cons.prems(1)] Cons.prems(2) by fastforce
  from Cons.IH [OF st'(2)] Cons.prems(2) st'(1,3) show ?case
    by (cases "spec_row_op p m") (auto intro: same_caches_trans)
qed simp

section \<open>Scanning the rows\<close>

lemma op_bind_tx:
  assumes "tx (snd (m st)) = tx st" "\<And>x st'. tx (snd (f x st')) = tx st'"
  shows "tx (snd (op_bind m f st)) = tx st"
  using assms(1) assms(2) [of "projr (fst (m st))" "snd (m st)"]
  by (auto simp: op_bind_def split: prod.splits sum.splits)

lemma on_tables_tx: "tx (snd (on_tables f st)) = tx st"
  by (auto simp: cache_op_def split: option.split prod.split)

lemma table_collect_tx: "tx (snd (table_collect D name st)) = tx st"
  by (auto simp: table_collect_def op_simps tx_range_def Let_def split: prod.split sum.split)

lemma table_tx: "tx (snd (table D name st)) = tx st"
  unfolding table_def
  by (rule op_bind_tx [OF on_tables_tx])
    (auto simp: op_return_def op_res_def split: option.split intro!: op_bind_tx table_collect_tx on_tables_tx)

text \<open>The entries of the rows of a table, as rows.\<close>

lemma list_image_ex: "\<forall>e\<in>set es. \<exists>a\<in>A. e = f a \<Longrightarrow> \<exists>as. es = map f as \<and> set as \<subseteq> A"
proof (induction es)
  case (Cons e es)
  then obtain a as where "a \<in> A" "e = f a" "es = map f as" "set as \<subseteq> A" by auto
  then show ?case by (intro exI [of _ "a # as"]) simp
qed simp

lemma rows_rep_entries:
  assumes "pk_domain (crates_of D) P" "rows_rep D c name types P m st" "finite (dom (held c st))"
  shows "\<exists>keys. set keys = dom m \<and> sorted_wrt (\<lambda>a b. partial_cmp (crates_of D) a b = Some Less) keys \<and>
    entries (held c st) (\<lambda>k. within k (tuple_bound (sip D) name)) =
      map (\<lambda>a. (row_key D name a, row_bytes D types (the (m a)))) keys"
proof -
  let ?es = "entries (held c st) (\<lambda>k. within k (tuple_bound (sip D) name))"
  let ?img = "\<lambda>a. (row_key D name a, row_bytes D types (the (m a)))"
  have P: "dom m \<subseteq> P" using assms(2) by (simp add: rows_rep_def)
  have mem: "(k, v) \<in> set ?es \<longleftrightarrow> (\<exists>a\<in>dom m. (k, v) = ?img a)" for k v
    using assms(2) row_key_within [of D name] unfolding set_entries [OF assms(3)] rows_rep_def by fastforce
  then have "\<forall>e\<in>set ?es. \<exists>a\<in>dom m. e = ?img a" by (metis surj_pair)
  then have "\<exists>keys. ?es = map ?img keys \<and> set keys \<subseteq> dom m" by (rule list_image_ex)
  then obtain keys where keys: "?es = map ?img keys" "set keys \<subseteq> dom m" by blast
  have "a \<in> set keys" if "a \<in> dom m" for a
  proof -
    have "?img a \<in> set ?es" using mem that by blast
    then have "?img a \<in> ?img ` set keys" unfolding keys(1) by simp
    then obtain b where "b \<in> set keys" "row_key D name a = row_key D name b" by auto
    with row_key_inject [OF assms(1)] that keys(2) P show ?thesis by blast
  qed
  moreover have "sorted_wrt (\<lambda>a b. row_key D name a < row_key D name b) keys"
    using entries_sorted [of "held c st" "\<lambda>k. within k (tuple_bound (sip D) name)"]
    unfolding keys(1) by (simp add: sorted_wrt_map o_def)
  then have "sorted_wrt (\<lambda>a b. partial_cmp (crates_of D) a b = Some Less) keys"
  proof (rule sorted_wrt_mono_rel [rotated])
    fix a b
    assume "a \<in> set keys" "b \<in> set keys" "row_key D name a < row_key D name b"
    with row_key_cmp [OF assms(1), of a b name] keys(2) P show "partial_cmp (crates_of D) a b = Some Less"
      by (auto simp: cmp_of_def)
  qed
  ultimately show ?thesis using keys by blast
qed

lemma window_map: "window off lim (map f xs) = map f (window off lim xs)"
  by (simp add: window_def drop_map take_map split: option.split)

lemma set_window: "set (window off lim xs) \<subseteq> set xs"
  by (auto simp: window_def split: option.splits dest: in_set_takeD in_set_dropD)

lemma live_range:
  assumes "rocks_laws R c" "bounded_by lo p" "bounded_by hi p" "4 \<le> length p"
  shows "\<exists>it. rocks_range R s lo hi = Ok it \<and> live it (entries (c s) (\<lambda>k. lower_bound_check lo k \<and> upper_bound_check hi k))"
proof -
  obtain it where it: "rocks_range R s lo hi = Ok it" "drain it = Ok (entries (c s) (\<lambda>k. lower_bound_check lo k \<and> upper_bound_check hi k))"
    using drain_range [OF assms] by blast
  obtain es where es: "iter_rest it = map Ok es" "sorted_wrt (<) (map fst es)"
    using it(1) assms
    by (auto simp: rocks_range_def rocks_laws_def range_start_def bounded_by_def Let_def entries_sorted split: if_splits)
  then have "drain it = Ok (takeWhile (upper_bound_check (iter_upper it) \<circ> fst) es)"
    using drain_Ok [of "iter_upper it" es] by (cases it) simp
  with it es show ?thesis unfolding live_def by auto
qed

lemma range_live:
  assumes "rocks_laws R c"
  shows "\<exists>it. rocks_range R s (Included (fst (tuple_bound sp name))) (Included (snd (tuple_bound sp name))) = Ok it \<and>
    live it (entries (c s) (\<lambda>k. within k (tuple_bound sp name)))"
proof -
  let ?p = "key_prefix sp CTuple name"
  have "bounded_by (Included (fst (tuple_bound sp name))) ?p" "bounded_by (Included (snd (tuple_bound sp name))) ?p"
    by (auto simp: bounded_by_def tuple_bound_def both_bounds_def)
  from live_range [OF assms this] show ?thesis
    by (simp add: length_key_prefix lower_bound_check_def upper_bound_check_def within_def)
qed

lemma read_stream:
  assumes "rocks_laws (rocks D) c" "table D name st = (Ok (Some t), st2)" "cols \<noteq> []"
  shows "fst (seq_scan D name bnds cols False st) = until_error
    (\<lambda>e. decode_tuple D (types_of t) (remap_pk_indices (map fst cols) (primary_key_indices t)) (map fst cols) (map snd cols) (snd e) False)
    (window (case fst bnds of None \<Rightarrow> 0 | Some n \<Rightarrow> n) (snd bnds) (entries (held c st) (\<lambda>k. within k (tuple_bound (sip D) name))))"
proof -
  have tx: "tx st2 = tx st" using table_tx [of D name st] assms(2) by simp
  obtain it where it: "rocks_range (rocks D) (tx st) (Included (fst (tuple_bound (sip D) name)))
      (Included (snd (tuple_bound (sip D) name))) = Ok it"
    "live it (entries (held c st) (\<lambda>k. within k (tuple_bound (sip D) name)))"
    using range_live [OF assms(1)] by blast
  let ?ti = "\<lparr> ti_offset = (case fst bnds of None \<Rightarrow> 0 | Some n \<Rightarrow> n), ti_limit = snd bnds, ti_types = types_of t,
    ti_columns = map snd cols, ti_pk_indices = remap_pk_indices (map fst cols) (primary_key_indices t),
    ti_projections = map fst cols, ti_with_pk = False, ti_iter = it \<rparr>"
  have "read D name bnds cols False st = (Ok ?ti, st2)"
    using assms(2,3) it(1) tx by (simp add: read_def op_simps tx_range_def scan_columns_def split_beta Let_def)
  with tuple_stream_live [of ?ti _ D] it(2) show ?thesis by (simp add: seq_scan_def)
qed

lemma decode_row:
  assumes "row_fits (crates_of D) types vs" "ps \<noteq> []" "sorted_wrt (<) ps" "\<forall>p\<in>set ps. p < length types"
    and "safe_projection ps (null_columns vs)" "length cols = length ps"
  shows "decode_tuple D types pks ps cols (row_bytes D types vs) False =
    Ok \<lparr> pk = None, tuple_values = map (\<lambda>p. stored (vs ! p)) ps \<rparr>"
proof -
  have "length types = length vs" using assms(1) by (auto simp: row_fits_def list_all2_lengthD)
  then have "\<forall>p\<in>set ps. p < length vs" using assms(4) by simp
  moreover obtain nb where "row_bytes D types vs = nb @ raw_data (to_raw (crates_of D)) is_null vs"
    "length nb = bits_len (length vs)" "\<forall>j<length vs. null_at nb j = is_null (vs ! j)"
    using serialize_row [OF assms(1), of None] by (auto simp: row_bytes_def)
  ultimately show ?thesis
    using deserialize_row [OF assms(1-3) _ assms(5), where with_pk = False] assms(6) by (simp add: decode_tuple_def Let_def)
qed


section \<open>A concrete store\<close>

definition sample_store :: "(64 word, int, int, (bytes \<times> bytes) list, unit, unit) store_env" where
  "sample_store = \<lparr> expr_env = sample_env, rocks = list_rocks, sip = (\<lambda>b. word_of_nat (length b)),
     bincode_value = (\<lambda>v. case v of Int32 w \<Rightarrow> Ok (le_bytes 4 (unat w)) | _ \<Rightarrow> Err Bincode),
     bincode_value_from = (\<lambda>b. if length b = 4 then Ok (Int32 (word_of_nat (le_nat b))) else Err Bincode), ulid_text = (\<lambda>_. []),
     serialize_column = (\<lambda>_. Ok []), deserialize_column = (\<lambda>_ _. Err IO),
     serialize_index_meta = (\<lambda>_. Ok []), deserialize_index_meta = (\<lambda>_. Err IO),
     serialize_table_meta = (\<lambda>_. Ok []), deserialize_table_meta = (\<lambda>_. Err IO),
     name_of_view = (\<lambda>_. []), serialize_view = (\<lambda>_. Ok []), deserialize_view = (\<lambda>_ st. (Err IO, st)),
     index_of_meta = (\<lambda>_. 0) \<rparr>"

lemma sample_store_simps [simp]:
  "expr_env sample_store = sample_env" "rocks sample_store = list_rocks" "base sample_env = sample_crates"
  by (simp_all add: sample_store_def sample_env_def)

definition number_column :: "64 word column_catalog" where
  "number_column = sample_column ''a'' Integer"

definition number_table :: "64 word table_catalog" where
  "number_table = (empty_catalog (ascii ''t''))\<lparr> schema_ref := [number_column, number_column] \<rparr>"

lemma types_number_table: "types_of number_table = [Integer, Integer]"
  by (simp add: number_table_def types_of_def empty_catalog_def number_column_def sample_column_def datatype_of_def column_new_def)

text \<open>A state whose cache holds a given table.\<close>

lemma cached_state:
  fixes x :: "64 word table_catalog"
  shows "\<exists>st :: (64 word, (bytes \<times> bytes) list, unit, unit) tx_state.
    tx st = kv \<and> (\<exists>c'. shared_get name (table_cache st) = Some (Some x, c'))"
proof -
  obtain s :: "(rstring, 64 word table_catalog) lru_cache" where s: "lru_new 1 = Ok s" "lru_rep s []" "lru_cap s = 1"
    using lru_rep_new [of 1] by auto
  let ?c = "\<lparr> shared_vec = [s], shared_hash = (\<lambda>_. 0) \<rparr>"
  have rep: "shared_rep 1 ?c [[]]" using s by (simp add: shared_rep_def)
  obtain c1 where c1: "shared_put name x ?c = Some (None, c1)" "shared_rep 1 c1 [[(name, x)]]" "length (shared_vec c1) = 1"
    using shared_op [OF rep, of "CachePut name x"] by (auto simp: shard_def spec_put_def)
  have "shard c1 name = 0" using c1(3) by (simp add: shard_def)
  then obtain c2 where "shared_get name c1 = Some (Some x, c2)"
    using shared_op [OF c1(2), of "CacheGet name"] by (auto simp: spec_touch_def)
  then show ?thesis by (intro exI [of _ "\<lparr> tx = kv, table_cache = c1, view_cache = undefined, meta_cache = undefined \<rparr>"]) auto
qed

lemma table_cached: "shared_get name (table_cache st) = Some (Some t, c') \<Longrightarrow> \<exists>st2. table D name st = (Ok (Some t), st2)"
  by (simp add: table_def op_simps cache_op_def)

lemma int_keys: "pk_domain sample_crates (range Int32)"
  by (auto simp: pk_domain_def ordered_float_laws_sample check_primary_key_type_def key_domain_def scmp_def cmp_of_def
      sint_eq_iff split: if_splits)


end
