(* ===== verification/Index_Scan.thy ===== *)
theory Index_Scan
  imports Row_Store
begin

text \<open>
  Reading rows through an index: \<open>read_by_index\<close>, the four kinds of index and \<open>IndexIter\<close> of
  \<open>src/src/storage/mod.rs\<close>, and the index scan of \<open>src/src/execution/dql/index_scan.rs\<close>. An iterator reads the
  transaction it was made from, which does not change while it is used.
\<close>

section \<open>The kinds of index\<close>

record 'd index_params =
  ip_schema :: "'d column_catalog list"
  ip_projections :: "nat list"
  ip_meta :: index_meta
  ip_table_name :: rstring
  ip_types :: "logical_type list"
  ip_with_pk :: bool

datatype 'd index_result = ResultTuple "'d tuple option" | ResultScope rocks_iter

definition try_cast ::
  "('d, 't, 'n, 's, 'v, 'm) store_env \<Rightarrow> 'd index_params \<Rightarrow> 'd data_value \<Rightarrow> 'd data_value res" where
  "try_cast D p v =
    (if logical_type v \<noteq> im_value_ty (ip_meta p) then cast_in (expr_env D) v (im_value_ty (ip_meta p)) else Ok v)"

definition decode_with ::
  "('d, 't, 'n, 's, 'v, 'm) store_env \<Rightarrow> 'd index_params \<Rightarrow> nat list \<Rightarrow> bytes \<Rightarrow> 'd tuple res" where
  "decode_with D p pk_indices b =
    decode_tuple D (ip_types p) pk_indices (ip_projections p) (ip_schema p) b (ip_with_pk p)"

definition get_tuple_by_id ::
  "('d, 't, 'n, 's, 'v, 'm) store_env \<Rightarrow> 's \<Rightarrow> 'd index_params \<Rightarrow> nat list \<Rightarrow> 'd data_value \<Rightarrow> 'd tuple option res" where
  "get_tuple_by_id D s p pk_indices tuple_id =
    res_bind (encode_tuple_key (sip D) (crates_of D) (ip_table_name p) tuple_id) (\<lambda>key.
      res_bind (db_get (rocks D) s key) (opt_res (decode_with D p pk_indices)))"

definition secondary_index_lookup ::
  "('d, 't, 'n, 's, 'v, 'm) store_env \<Rightarrow> 's \<Rightarrow> 'd index_params \<Rightarrow> nat list \<Rightarrow> bytes \<Rightarrow> 'd tuple res" where
  "secondary_index_lookup D s p pk_indices b =
    res_bind (bincode_value_from D b) (\<lambda>tuple_id.
      res_bind (get_tuple_by_id D s p pk_indices tuple_id) (of_option TupleIdNotFound))"

definition index_lookup ::
  "('d, 't, 'n, 's, 'v, 'm) store_env \<Rightarrow> 's \<Rightarrow> 'd index_params \<Rightarrow> nat list \<Rightarrow> bytes \<Rightarrow> 'd tuple res" where
  "index_lookup D s p pk_indices b =
    (if is_primary_index (im_ty (ip_meta p)) then decode_with D p pk_indices b
     else secondary_index_lookup D s p pk_indices b)"

definition bound_key ::
  "('d, 't, 'n, 's, 'v, 'm) store_env \<Rightarrow> 'd index_params \<Rightarrow> 'd data_value \<Rightarrow> bool \<Rightarrow> bytes res" where
  "bound_key D p v is_upper =
    (let ix = (\<lambda>ty. \<lparr> ix_id = im_id (ip_meta p), ix_value = v, ix_ty = ty \<rparr>) in
     case im_ty (ip_meta p) of
       PrimaryKey _ \<Rightarrow> encode_tuple_key (sip D) (crates_of D) (ip_table_name p) v
     | Unique \<Rightarrow> encode_index_key (sip D) (crates_of D) (ip_table_name p) (ix Unique) None
     | Normal \<Rightarrow> encode_index_bound_key (sip D) (crates_of D) (ip_table_name p) (ix Normal) is_upper
     | Composite \<Rightarrow> encode_index_bound_key (sip D) (crates_of D) (ip_table_name p) (ix Composite) is_upper)"

definition primary_eq ::
  "('d, 't, 'n, 's, 'v, 'm) store_env \<Rightarrow> 's \<Rightarrow> 'd index_params \<Rightarrow> nat list \<Rightarrow> 'd data_value \<Rightarrow> 'd index_result res" where
  "primary_eq D s p pk_indices v = map_res ResultTuple (get_tuple_by_id D s p pk_indices v)"

definition unique_eq ::
  "('d, 't, 'n, 's, 'v, 'm) store_env \<Rightarrow> 's \<Rightarrow> 'd index_params \<Rightarrow> nat list \<Rightarrow> 'd data_value \<Rightarrow> 'd index_result res" where
  "unique_eq D s p pk_indices v =
    res_bind (bound_key D p v False) (\<lambda>key.
      res_bind (db_get (rocks D) s key) (\<lambda>found. case found of
        None \<Rightarrow> Ok (ResultTuple None)
      | Some b \<Rightarrow> map_res (\<lambda>t. ResultTuple (Some t)) (secondary_index_lookup D s p pk_indices b)))"

definition scope_eq ::
  "('d, 't, 'n, 's, 'v, 'm) store_env \<Rightarrow> 's \<Rightarrow> 'd index_params \<Rightarrow> 'd data_value \<Rightarrow> 'd index_result res" where
  "scope_eq D s p v =
    res_bind (bound_key D p v False) (\<lambda>lo.
      res_bind (bound_key D p v True) (\<lambda>hi.
        map_res ResultScope (rocks_range (rocks D) s (Included lo) (Included hi))))"

definition eq_to_res ::
  "('d, 't, 'n, 's, 'v, 'm) store_env \<Rightarrow> 's \<Rightarrow> 'd index_params \<Rightarrow> nat list \<Rightarrow> 'd data_value \<Rightarrow> 'd index_result res" where
  "eq_to_res D s p pk_indices v = (case im_ty (ip_meta p) of
     PrimaryKey _ \<Rightarrow> primary_eq D s p pk_indices v
   | Unique \<Rightarrow> unique_eq D s p pk_indices v
   | Normal \<Rightarrow> scope_eq D s p v
   | Composite \<Rightarrow> scope_eq D s p v)"

section \<open>The iterator\<close>

datatype iter_state = IterInit | IterRange rocks_iter | IterOver

record 'd index_iter =
  ii_offset :: nat
  ii_limit :: "nat option"
  ii_pk_indices :: "nat list"
  ii_params :: "'d index_params"
  ii_ranges :: "'d data_value range list"
  ii_state :: iter_state

definition read_by_index ::
  "('d, 't, 'n, 's, 'v, 'm) store_env \<Rightarrow> rstring \<Rightarrow> nat option \<times> nat option \<Rightarrow> (nat \<times> 'd column_catalog) list \<Rightarrow>
   index_meta \<Rightarrow> 'd data_value range list \<Rightarrow> bool \<Rightarrow> ('d index_iter, ('d, 's, 'v, 'm) tx_state) op" where
  "read_by_index D table_name bnds cols meta ranges with_pk =
    op_bind (table D table_name) (\<lambda>found. case found of
      None \<Rightarrow> op_fail TableNotFound
    | Some t \<Rightarrow>
        let cols' = scan_columns t cols with_pk; projections = map fst cols' in
        op_return \<lparr> ii_offset = (case fst bnds of None \<Rightarrow> 0 | Some n \<Rightarrow> n), ii_limit = snd bnds,
          ii_pk_indices = remap_pk_indices projections (primary_key_indices t),
          ii_params = \<lparr> ip_schema = map snd cols', ip_projections = projections, ip_meta = meta,
            ip_table_name = tc_name t, ip_types = types_of t, ip_with_pk = with_pk \<rparr>,
          ii_ranges = ranges, ii_state = IterInit \<rparr>)"

definition bound_encode ::
  "('d, 't, 'n, 's, 'v, 'm) store_env \<Rightarrow> 'd index_params \<Rightarrow> 'd data_value bound \<Rightarrow> bool \<Rightarrow> bytes bound res" where
  "bound_encode D p bnd is_upper = (case bnd of
     Included v \<Rightarrow> res_bind (try_cast D p v) (\<lambda>v. map_res Included (bound_key D p v is_upper))
   | Excluded v \<Rightarrow> res_bind (try_cast D p v) (\<lambda>v. map_res Excluded (bound_key D p v is_upper))
   | Unbounded \<Rightarrow> Ok Unbounded)"

definition check_bound :: "bytes bound \<Rightarrow> bytes \<Rightarrow> bytes bound" where
  "check_bound bnd b = (if bnd = Unbounded then Included b else bnd)"

definition scope_iter ::
  "('d, 't, 'n, 's, 'v, 'm) store_env \<Rightarrow> 's \<Rightarrow> 'd index_params \<Rightarrow> 'd data_value bound \<Rightarrow> 'd data_value bound \<Rightarrow> rocks_iter res" where
  "scope_iter D s p lo hi =
    (let (bound_min, bound_max) =
       (if is_primary_index (im_ty (ip_meta p)) then tuple_bound (sip D) (ip_table_name p)
        else index_bound (sip D) (ip_table_name p) (im_id (ip_meta p))) in
     res_bind (bound_encode D p lo False) (\<lambda>encode_min.
       res_bind (bound_encode D p hi True) (\<lambda>encode_max.
         rocks_range (rocks D) s (check_bound encode_min bound_min) (check_bound encode_max bound_max))))"

text \<open>The loop over the entries of one range: the entry found, the offset that is left and the iterator.\<close>

function range_loop :: "nat \<Rightarrow> rocks_iter \<Rightarrow> (bytes option \<times> nat \<times> rocks_iter) res" where
  "range_loop offset it = (case try_next it of
     Inl e \<Rightarrow> Err e
   | Inr (None, it') \<Rightarrow> Ok (None, offset, it')
   | Inr (Some entry, it') \<Rightarrow> if offset > 0 then range_loop (offset - 1) it' else Ok (Some (snd entry), offset, it'))"
  by auto
termination
  by (relation "measure (\<lambda>(n, it). length (iter_rest it))") (auto dest: try_next_length(2))

declare range_loop.simps [simp del]

definition state_weight :: "iter_state \<Rightarrow> nat" where
  "state_weight st = (case st of IterRange _ \<Rightarrow> 1 | _ \<Rightarrow> 0)"

function index_loop ::
  "('d, 't, 'n, 's, 'v, 'm) store_env \<Rightarrow> 's \<Rightarrow> 'd index_iter \<Rightarrow> ('d tuple option \<times> 'd index_iter) res" where
  "index_loop D s ii = (case ii_state ii of
     IterInit \<Rightarrow>
       (case ii_ranges ii of
          [] \<Rightarrow> Ok (None, ii\<lparr> ii_state := IterOver \<rparr>)
        | binary # rest \<Rightarrow>
            (case binary of
               Scope lo hi \<Rightarrow>
                 res_bind (scope_iter D s (ii_params ii) lo hi) (\<lambda>it.
                   index_loop D s (ii\<lparr> ii_ranges := rest, ii_state := IterRange it \<rparr>))
             | REq v \<Rightarrow>
                 res_bind (try_cast D (ii_params ii) v) (\<lambda>v.
                   res_bind (eq_to_res D s (ii_params ii) (ii_pk_indices ii) v) (\<lambda>r. case r of
                     ResultTuple t \<Rightarrow>
                       if ii_offset ii > 0
                       then index_loop D s (ii\<lparr> ii_ranges := rest, ii_offset := ii_offset ii - 1 \<rparr>)
                       else Ok (t, ii\<lparr> ii_ranges := rest, ii_limit := map_option (\<lambda>n. n - 1) (ii_limit ii) \<rparr>)
                   | ResultScope it \<Rightarrow> index_loop D s (ii\<lparr> ii_ranges := rest, ii_state := IterRange it \<rparr>)))
             | _ \<Rightarrow> index_loop D s (ii\<lparr> ii_ranges := rest \<rparr>)))
   | IterRange it \<Rightarrow>
       res_bind (range_loop (ii_offset ii) it) (\<lambda>(found, offset, it').
         case found of
           None \<Rightarrow> index_loop D s (ii\<lparr> ii_offset := offset, ii_state := IterInit \<rparr>)
         | Some b \<Rightarrow>
             res_bind (index_lookup D s (ii_params ii) (ii_pk_indices ii) b) (\<lambda>t.
               Ok (Some t, ii\<lparr> ii_offset := offset, ii_state := IterRange it',
                 ii_limit := map_option (\<lambda>n. n - 1) (ii_limit ii) \<rparr>)))
   | IterOver \<Rightarrow> Ok (None, ii))"
  by auto
termination
  by (relation "measure (\<lambda>(D, s, ii). 2 * length (ii_ranges ii) + state_weight (ii_state ii))")
    (auto simp: state_weight_def)

declare index_loop.simps [simp del]

definition index_next ::
  "('d, 't, 'n, 's, 'v, 'm) store_env \<Rightarrow> 's \<Rightarrow> 'd index_iter \<Rightarrow> ('d tuple option \<times> 'd index_iter) res" where
  "index_next D s ii =
    (if ii_limit ii = Some 0 then Ok (None, ii\<lparr> ii_state := IterOver \<rparr>) else index_loop D s ii)"

text \<open>The entries left in the range that the iterator is in.\<close>

definition rest_length :: "iter_state \<Rightarrow> nat" where
  "rest_length st = (case st of IterRange it \<Rightarrow> length (iter_rest it) | _ \<Rightarrow> 0)"

lemma range_loop_length:
  "range_loop n it = Ok (Some b, n', it') \<Longrightarrow> length (iter_rest it') < length (iter_rest it)"
proof (induction n it rule: range_loop.induct)
  case (1 n it)
  from 1(2) obtain e it1 where it1: "try_next it = Ok (Some e, it1)"
    by (auto simp: range_loop.simps [of n it] split: sum.splits option.splits)
  with 1(2) have "it' = it1 \<or> 0 < n \<and> range_loop (n - 1) it1 = Ok (Some b, n', it')"
    by (auto simp: range_loop.simps [of n it] split: if_splits)
  with 1(1) [OF it1 refl refl] try_next_length(2) [OF it1] show ?case by auto
qed

lemma index_loop_decreases:
  "index_loop D s ii = Ok (Some t, ii') \<Longrightarrow>
   length (ii_ranges ii') < length (ii_ranges ii) \<or>
   length (ii_ranges ii') = length (ii_ranges ii) \<and> rest_length (ii_state ii') < rest_length (ii_state ii)"
proof (induction D s ii rule: index_loop.induct)
  case (1 D s ii)
  show ?case
  proof (cases "ii_state ii")
    case IterInit
    with 1(7) obtain r rs where r: "ii_ranges ii = r # rs" by (auto simp: index_loop.simps [of D s ii] split: list.splits)
    with IterInit 1(7) have "length (ii_ranges ii') \<le> length rs"
    proof (cases r)
      case (Scope lo hi)
      with IterInit r 1(7) obtain it where it: "scope_iter D s (ii_params ii) lo hi = Ok it"
        "index_loop D s (ii\<lparr> ii_ranges := rs, ii_state := IterRange it \<rparr>) = Ok (Some t, ii')"
        by (auto simp: index_loop.simps [of D s ii] res_bind_Ok_iff)
      from 1(1) [OF IterInit r Scope it(1) it(2)] show ?thesis by auto
    next
      case (REq v)
      with IterInit r 1(7) obtain w res where w: "try_cast D (ii_params ii) v = Ok w"
        "eq_to_res D s (ii_params ii) (ii_pk_indices ii) w = Ok res"
        by (auto simp: index_loop.simps [of D s ii] res_bind_Ok_iff)
      show ?thesis
      proof (cases res)
        case (ResultTuple x)
        with IterInit r REq w 1(7) 1(2) [OF IterInit r REq w ResultTuple] show ?thesis
          by (cases "0 < ii_offset ii") (auto simp: index_loop.simps [of D s ii])
      next
        case (ResultScope it)
        with IterInit r REq w 1(7) 1(3) [OF IterInit r REq w ResultScope] show ?thesis
          by (auto simp: index_loop.simps [of D s ii])
      qed
    next
      case Dummy
      with IterInit r 1(7) 1(4) [OF IterInit r] show ?thesis by (auto simp: index_loop.simps [of D s ii])
    next
      case (SortedRanges x)
      with IterInit r 1(7) 1(5) [OF IterInit r] show ?thesis by (auto simp: index_loop.simps [of D s ii])
    qed
    with r show ?thesis by simp
  next
    case (IterRange it)
    with 1(7) obtain found n it' where f: "range_loop (ii_offset ii) it = Ok (found, n, it')"
      by (auto simp: index_loop.simps [of D s ii] res_bind_Ok_iff)
    show ?thesis
    proof (cases found)
      case None
      with 1(6) [OF IterRange f] IterRange f 1(7) show ?thesis
        by (auto simp: index_loop.simps [of D s ii] rest_length_def)
    next
      case (Some b)
      with IterRange f 1(7) range_loop_length [of "ii_offset ii" it b n it'] show ?thesis
        by (auto simp: index_loop.simps [of D s ii] res_bind_Ok_iff rest_length_def)
    qed
  next
    case IterOver
    with 1(7) show ?thesis by (simp add: index_loop.simps [of D s ii])
  qed
qed

function index_stream :: "('d, 't, 'n, 's, 'v, 'm) store_env \<Rightarrow> 's \<Rightarrow> 'd index_iter \<Rightarrow> 'd tuple_stream" where
  "index_stream D s ii = (case index_next D s ii of
     Inl e \<Rightarrow> [Err e]
   | Inr (None, _) \<Rightarrow> []
   | Inr (Some t, ii') \<Rightarrow> Ok t # index_stream D s ii')"
  by auto
termination
  by (relation "measures [\<lambda>(D, s, ii). length (ii_ranges ii), \<lambda>(D, s, ii). rest_length (ii_state ii)]")
    (auto simp: index_next_def split: if_splits dest: index_loop_decreases)

declare index_stream.simps [simp del]

definition index_scan ::
  "('d, 't, 'n, 's, 'v, 'm) store_env \<Rightarrow> rstring \<Rightarrow> nat option \<times> nat option \<Rightarrow> (nat \<times> 'd column_catalog) list \<Rightarrow>
   index_meta \<Rightarrow> 'd data_value range \<Rightarrow> bool \<Rightarrow> ('d, 's, 'v, 'm) tx_state \<Rightarrow>
   'd tuple_stream \<times> ('d, 's, 'v, 'm) tx_state" where
  "index_scan D table_name bnds cols meta range_by with_pk st =
    (let ranges = (case range_by of SortedRanges rs \<Rightarrow> rs | r \<Rightarrow> [r]) in
     case read_by_index D table_name bnds cols meta ranges with_pk st of
       (Inl e, st') \<Rightarrow> ([Err e], st')
     | (Inr ii, st') \<Rightarrow> (index_stream D (tx st') ii, st'))"

section \<open>The stream of an index scan\<close>

text \<open>
  A range opens to a list of entries: the entries between its bounds, the entries of an equality on a
  non-unique index, or the one row of an equality on the primary key or a unique index.
\<close>

definition opens ::
  "('d, 't, 'n, 's, 'v, 'm) store_env \<Rightarrow> 's \<Rightarrow> 'd index_params \<Rightarrow> nat list \<Rightarrow> 'd data_value range \<Rightarrow> (bytes \<times> bytes) list \<Rightarrow> bool" where
  "opens D s p pks r es = (case r of
     Scope lo hi \<Rightarrow> \<exists>it. scope_iter D s p lo hi = Ok it \<and> live it es
   | REq v \<Rightarrow> \<exists>w res. try_cast D p v = Ok w \<and> eq_to_res D s p pks w = Ok res \<and>
       ((\<exists>it. res = ResultScope it \<and> live it es) \<or>
        (\<exists>t k b. res = ResultTuple (Some t) \<and> es = [(k, b)] \<and> index_lookup D s p pks b = Ok t))
   | _ \<Rightarrow> es = [])"

definition state_live :: "iter_state \<Rightarrow> (bytes \<times> bytes) list \<Rightarrow> bool" where
  "state_live st es = (case st of IterInit \<Rightarrow> es = [] | IterRange it \<Rightarrow> live it es | IterOver \<Rightarrow> False)"

definition pending ::
  "('d, 't, 'n, 's, 'v, 'm) store_env \<Rightarrow> 's \<Rightarrow> 'd index_iter \<Rightarrow> (bytes \<times> bytes) list \<Rightarrow> bool" where
  "pending D s ii es \<longleftrightarrow> (\<exists>cur segs. es = cur @ concat segs \<and> state_live (ii_state ii) cur \<and>
     list_all2 (opens D s (ii_params ii) (ii_pk_indices ii)) (ii_ranges ii) segs)"

lemma range_loop_live:
  assumes "live it es"
  shows "\<exists>it'. range_loop n it = (if length es \<le> n then Ok (None, n - length es, it') else Ok (Some (snd (es ! n)), 0, it')) \<and>
    live it' (drop (Suc n) es)"
  using assms
proof (induction es arbitrary: n it)
  case Nil
  then show ?case using live_Nil [of it] by (auto simp: range_loop.simps [of n it])
next
  case (Cons e es)
  then obtain it1 where it1: "try_next it = Ok (Some e, it1)" "live it1 es" using live_Cons by blast
  with Cons.IH [OF it1(2), of "n - 1"] show ?case
    by (cases n) (auto simp: range_loop.simps [of _ it])
qed

text \<open>A step of the loop returns the entry at the offset, if there is one, and leaves those after it.\<close>

definition steps_to ::
  "('d, 't, 'n, 's, 'v, 'm) store_env \<Rightarrow> 's \<Rightarrow> 'd index_iter \<Rightarrow> (bytes \<times> bytes) list \<Rightarrow> bool" where
  "steps_to D s ii es \<longleftrightarrow>
    (if length es \<le> ii_offset ii then \<exists>ii'. index_loop D s ii = Ok (None, ii')
     else \<exists>ii'. index_loop D s ii = map_res (\<lambda>t. (Some t, ii'))
            (index_lookup D s (ii_params ii) (ii_pk_indices ii) (snd (es ! ii_offset ii))) \<and>
          ii_params ii' = ii_params ii \<and> ii_pk_indices ii' = ii_pk_indices ii \<and> ii_offset ii' = 0 \<and>
          ii_limit ii' = map_option (\<lambda>n. n - 1) (ii_limit ii) \<and> pending D s ii' (drop (Suc (ii_offset ii)) es))"

lemma steps_to_skip:
  assumes "index_loop D s ii = index_loop D s ii1" "steps_to D s ii1 es'" "es = skipped @ es'"
    and "ii_params ii1 = ii_params ii" "ii_pk_indices ii1 = ii_pk_indices ii" "ii_limit ii1 = ii_limit ii"
    and "length skipped \<le> ii_offset ii" "ii_offset ii1 = ii_offset ii - length skipped"
  shows "steps_to D s ii es"
proof -
  have "length es \<le> ii_offset ii \<longleftrightarrow> length es' \<le> ii_offset ii1" using assms(3,7,8) by auto
  moreover have "es ! ii_offset ii = es' ! ii_offset ii1" "drop (Suc (ii_offset ii)) es = drop (Suc (ii_offset ii1)) es'"
    using assms(3,7,8) by (simp_all add: nth_append Suc_diff_le)
  ultimately show ?thesis using assms(1,2,4,5,6) unfolding steps_to_def by metis
qed

lemma range_steps:
  assumes "ii_state ii = IterRange it" "live it cur" "list_all2 (opens D s (ii_params ii) (ii_pk_indices ii)) (ii_ranges ii) segs"
    and "steps_to D s (ii\<lparr> ii_offset := ii_offset ii - length cur, ii_state := IterInit \<rparr>) (concat segs)"
  shows "steps_to D s ii (cur @ concat segs)"
proof -
  obtain it' where it': "range_loop (ii_offset ii) it = (if length cur \<le> ii_offset ii then Ok (None, ii_offset ii - length cur, it')
      else Ok (Some (snd (cur ! ii_offset ii)), 0, it'))" "live it' (drop (Suc (ii_offset ii)) cur)"
    using range_loop_live [OF assms(2)] by blast
  show ?thesis
  proof (cases "length cur \<le> ii_offset ii")
    case True
    with it'(1) assms(1) have "index_loop D s ii = index_loop D s (ii\<lparr> ii_offset := ii_offset ii - length cur, ii_state := IterInit \<rparr>)"
      by (simp add: index_loop.simps [of D s ii])
    from steps_to_skip [OF this assms(4) refl] True show ?thesis by simp
  next
    case False
    let ?ii = "ii\<lparr> ii_offset := 0, ii_state := IterRange it', ii_limit := map_option (\<lambda>n. n - 1) (ii_limit ii) \<rparr>"
    have "index_loop D s ii = map_res (\<lambda>t. (Some t, ?ii))
        (index_lookup D s (ii_params ii) (ii_pk_indices ii) (snd (cur ! ii_offset ii)))"
      using False it'(1) assms(1)
      by (cases "index_lookup D s (ii_params ii) (ii_pk_indices ii) (snd (cur ! ii_offset ii))")
        (simp_all add: index_loop.simps [of D s ii])
    moreover have "pending D s ?ii (drop (Suc (ii_offset ii)) cur @ concat segs)"
      unfolding pending_def using it'(2) assms(3) by (intro exI [of _ "drop (Suc (ii_offset ii)) cur"] exI [of _ segs]) (simp add: state_live_def)
    ultimately show ?thesis using False unfolding steps_to_def by (auto simp: nth_append)
  qed
qed

lemma init_steps:
  assumes "list_all2 (opens D s (ii_params ii) (ii_pk_indices ii)) (ii_ranges ii) segs" "ii_state ii = IterInit"
  shows "steps_to D s ii (concat segs)"
  using assms
proof (induction segs arbitrary: ii rule: list.induct)
  case Nil
  then have "ii_ranges ii = []" by simp
  with Nil(2) show ?case by (simp add: steps_to_def index_loop.simps [of D s ii])
next
  case (Cons seg segs)
  then obtain r rs where r: "ii_ranges ii = r # rs" "opens D s (ii_params ii) (ii_pk_indices ii) r seg"
    "list_all2 (opens D s (ii_params ii) (ii_pk_indices ii)) rs segs" by (auto simp: list_all2_Cons2)
  have IH: "steps_to D s (ii\<lparr> ii_ranges := rs, ii_offset := n, ii_state := IterInit \<rparr>) (concat segs)" for n
    using r(3) by (intro Cons.IH) simp_all
  have IH': "steps_to D s (ii\<lparr> ii_ranges := rs, ii_offset := n \<rparr>) (concat segs)" for n
    using r(3) Cons.prems(2) by (intro Cons.IH) simp_all
  have range: "steps_to D s ii (concat (seg # segs))"
    if "index_loop D s ii = index_loop D s (ii\<lparr> ii_ranges := rs, ii_state := IterRange it \<rparr>)" "live it seg" for it
  proof -
    have "steps_to D s (ii\<lparr> ii_ranges := rs, ii_state := IterRange it \<rparr>) (seg @ concat segs)"
      using that(2) r(3) IH by (intro range_steps [where it = it]) simp_all
    with that(1) show ?thesis by (auto intro: steps_to_skip [where skipped = "[]"])
  qed
  have skip: "steps_to D s ii (concat segs)" if "index_loop D s ii = index_loop D s (ii\<lparr> ii_ranges := rs \<rparr>)"
    using steps_to_skip [OF that, of "concat segs" "concat segs" "[]"] IH' [of "ii_offset ii"] by simp
  show ?case
  proof (cases r)
    case (Scope lo hi)
    then show ?thesis using r Cons.prems(2) range by (auto simp: opens_def index_loop.simps [of D s ii])
  next
    case (REq v)
    then obtain w res where w: "try_cast D (ii_params ii) v = Ok w" "eq_to_res D s (ii_params ii) (ii_pk_indices ii) w = Ok res"
      and res: "(\<exists>it. res = ResultScope it \<and> live it seg) \<or>
        (\<exists>t k b. res = ResultTuple (Some t) \<and> seg = [(k, b)] \<and> index_lookup D s (ii_params ii) (ii_pk_indices ii) b = Ok t)"
      using r(2) by (auto simp: opens_def)
    from res show ?thesis
    proof
      assume "\<exists>it. res = ResultScope it \<and> live it seg"
      with REq w r(1) Cons.prems(2) show ?thesis using range by (auto simp: index_loop.simps [of D s ii])
    next
      assume "\<exists>t k b. res = ResultTuple (Some t) \<and> seg = [(k, b)] \<and> index_lookup D s (ii_params ii) (ii_pk_indices ii) b = Ok t"
      then obtain t k b where t: "res = ResultTuple (Some t)" "seg = [(k, b)]" "index_lookup D s (ii_params ii) (ii_pk_indices ii) b = Ok t"
        by blast
      show ?thesis
      proof (cases "ii_offset ii > 0")
        case True
        then have "index_loop D s ii = index_loop D s (ii\<lparr> ii_ranges := rs, ii_offset := ii_offset ii - 1 \<rparr>)"
          using REq w t r(1) Cons.prems(2) by (simp add: index_loop.simps [of D s ii])
        from steps_to_skip [OF this, of "concat segs" "concat (seg # segs)" seg] True t(2) IH' [of "ii_offset ii - 1"]
        show ?thesis by simp
      next
        case False
        let ?ii = "ii\<lparr> ii_ranges := rs, ii_limit := map_option (\<lambda>n. n - 1) (ii_limit ii) \<rparr>"
        have "index_loop D s ii = Ok (Some t, ?ii)"
          using False REq w t r(1) Cons.prems(2) by (simp add: index_loop.simps [of D s ii])
        moreover have "pending D s ?ii (concat segs)"
          unfolding pending_def using r(3) Cons.prems(2) by (intro exI [of _ "[]"] exI [of _ segs]) (simp add: state_live_def)
        ultimately show ?thesis using False t(2,3) by (simp add: steps_to_def)
      qed
    qed
  next
    case Dummy
    then show ?thesis using r(1,2) skip Cons.prems(2) by (simp add: opens_def index_loop.simps [of D s ii])
  next
    case (SortedRanges x)
    then show ?thesis using r(1,2) skip Cons.prems(2) by (simp add: opens_def index_loop.simps [of D s ii])
  qed
qed

lemma pending_steps:
  assumes "pending D s ii es"
  shows "steps_to D s ii es"
proof -
  obtain cur segs where es: "es = cur @ concat segs" "state_live (ii_state ii) cur"
    "list_all2 (opens D s (ii_params ii) (ii_pk_indices ii)) (ii_ranges ii) segs"
    using assms by (auto simp: pending_def)
  show ?thesis
  proof (cases "ii_state ii")
    case IterInit
    with es init_steps [OF es(3)] show ?thesis by (simp add: state_live_def)
  next
    case (IterRange it)
    with es(2,3) show ?thesis
      unfolding es(1) by (intro range_steps [OF IterRange]) (auto simp: state_live_def intro: init_steps)
  qed (use es(2) in \<open>simp add: state_live_def\<close>)
qed

lemma index_stream_pending:
  assumes "pending D s ii es"
  shows "index_stream D s ii = until_error (\<lambda>e. index_lookup D s (ii_params ii) (ii_pk_indices ii) (snd e))
    (window (ii_offset ii) (ii_limit ii) es)"
  using assms
proof (induction "length es" arbitrary: ii es rule: less_induct)
  case less
  note step = pending_steps [OF less.prems, unfolded steps_to_def]
  show ?case
  proof (cases "ii_limit ii = Some 0 \<or> length es \<le> ii_offset ii")
    case True
    then have "\<exists>ii'. index_next D s ii = Ok (None, ii')" using step by (auto simp: index_next_def)
    with True show ?thesis by (auto simp: index_stream.simps [of D s ii] window_def split: option.split)
  next
    case False
    let ?e = "es ! ii_offset ii" and ?rest = "drop (Suc (ii_offset ii)) es"
    let ?look = "\<lambda>e. index_lookup D s (ii_params ii) (ii_pk_indices ii) (snd e)"
    obtain ii' where ii': "index_loop D s ii = map_res (\<lambda>t. (Some t, ii')) (?look ?e)"
      "ii_params ii' = ii_params ii" "ii_pk_indices ii' = ii_pk_indices ii" "ii_offset ii' = 0"
      "ii_limit ii' = map_option (\<lambda>n. n - 1) (ii_limit ii)" "pending D s ii' ?rest"
      using step False by auto
    have IH: "index_stream D s ii' = until_error ?look (window 0 (map_option (\<lambda>n. n - 1) (ii_limit ii)) ?rest)"
    proof -
      have "length ?rest < length es" using False by auto
      from less.hyps [OF this ii'(6)] show ?thesis by (simp add: ii'(2-5))
    qed
    have "drop (ii_offset ii) es = ?e # ?rest" using False by (simp add: Cons_nth_drop_Suc)
    then have "window (ii_offset ii) (ii_limit ii) es = ?e # window 0 (map_option (\<lambda>n. n - 1) (ii_limit ii)) ?rest"
      using False by (cases "ii_limit ii") (auto simp: window_def take_Cons' gr0_conv_Suc)
    with False ii'(1) IH show ?thesis
      by (cases "?look ?e") (simp_all add: index_stream.simps [of D s ii] index_next_def)
  qed
qed

section \<open>Scans over the primary key\<close>

fun above_bound :: "'d crates \<Rightarrow> 'd data_value bound \<Rightarrow> 'd data_value \<Rightarrow> bool" where
  "above_bound K (Included v) a = (partial_cmp K v a \<in> {Some Less, Some Equal})"
| "above_bound K (Excluded v) a = (partial_cmp K v a = Some Less)"
| "above_bound K Unbounded a = True"

fun below_bound :: "'d crates \<Rightarrow> 'd data_value bound \<Rightarrow> 'd data_value \<Rightarrow> bool" where
  "below_bound K (Included v) a = (partial_cmp K a v \<in> {Some Less, Some Equal})"
| "below_bound K (Excluded v) a = (partial_cmp K a v = Some Less)"
| "below_bound K Unbounded a = True"

fun key_in_range :: "'d crates \<Rightarrow> 'd data_value range \<Rightarrow> 'd data_value \<Rightarrow> bool" where
  "key_in_range K (Scope lo hi) a = (above_bound K lo a \<and> below_bound K hi a)"
| "key_in_range K (REq v) a = (partial_cmp K v a = Some Equal)"
| "key_in_range K (SortedRanges rs) a = False"
| "key_in_range K Dummy a = False"

text \<open>
  The values of a range are keys of the index's type, and an equality names a row that exists.
\<close>

fun range_fits :: "'d data_value set \<Rightarrow> ('d data_value \<rightharpoonup> 'd data_value list) \<Rightarrow> logical_type \<Rightarrow> 'd data_value range \<Rightarrow> bool" where
  "range_fits P m ty (Scope lo hi) = (\<forall>v\<in>set_bound lo \<union> set_bound hi. v \<in> P \<and> logical_type v = ty)"
| "range_fits P m ty (REq v) = (v \<in> P \<and> logical_type v = ty \<and> m v \<noteq> None)"
| "range_fits P m ty (SortedRanges rs) = False"
| "range_fits P m ty Dummy = True"

lemma bound_encode_primary:
  assumes "pk_domain (crates_of D) P" "im_ty (ip_meta p) = PrimaryKey n" "\<forall>v\<in>set_bound b. v \<in> P \<and> logical_type v = im_value_ty (ip_meta p)"
  shows "bound_encode D p b u = Ok (map_bound (row_key D (ip_table_name p)) b)"
  using assms encode_tuple_key_row [OF assms(1)] by (cases b) (simp_all add: bound_encode_def try_cast_def bound_key_def Let_def)

lemma row_key_bounds:
  assumes "pk_domain (crates_of D) P" "set_bound b \<subseteq> P" "a \<in> P"
  shows "lower_bound_check (check_bound (map_bound (row_key D name) b) (fst (tuple_bound (sip D) name))) (row_key D name a) \<longleftrightarrow>
      above_bound (crates_of D) b a"
    and "upper_bound_check (check_bound (map_bound (row_key D name) b) (snd (tuple_bound (sip D) name))) (row_key D name a) \<longleftrightarrow>
      below_bound (crates_of D) b a"
  using assms row_key_cmp [OF assms(1), of _ _ name] row_key_within [of D name a]
  by (cases b; force simp: check_bound_def lower_bound_check_def upper_bound_check_def within_def cmp_of_def)+

lemma bounds_within:
  assumes "lower_bound_check (check_bound (map_bound (row_key D name) b) (fst (tuple_bound (sip D) name))) k"
    and "upper_bound_check (check_bound (map_bound (row_key D name) b') (snd (tuple_bound (sip D) name))) k"
  shows "within k (tuple_bound (sip D) name)"
proof -
  have "fst (tuple_bound (sip D) name) \<le> k"
    using assms(1) row_key_within [of D name] by (cases b) (auto simp: check_bound_def lower_bound_check_def within_def intro: order.trans less_imp_le order.trans [OF _ less_imp_le])
  moreover have "k \<le> snd (tuple_bound (sip D) name)"
    using assms(2) row_key_within [of D name] by (cases b') (auto simp: check_bound_def upper_bound_check_def within_def intro: order.trans order.trans [OF less_imp_le])
  ultimately show ?thesis by (simp add: within_def)
qed

lemma bounds_prefixed:
  "bounded_by (check_bound (map_bound (row_key D name) b) (fst (tuple_bound (sip D) name))) (key_prefix (sip D) CTuple name)"
  "bounded_by (check_bound (map_bound (row_key D name) b) (snd (tuple_bound (sip D) name))) (key_prefix (sip D) CTuple name)"
  by (cases b; auto simp: check_bound_def bounded_by_def row_key_def tuple_bound_def both_bounds_def)+

lemma scope_opens:
  assumes "rocks_laws (rocks D) c" "pk_domain (crates_of D) P" "im_ty (ip_meta p) = PrimaryKey n" "set keys \<subseteq> P"
    and "range_fits P m (im_value_ty (ip_meta p)) (Scope lo hi)"
    and "entries (c s) (\<lambda>k. within k (tuple_bound (sip D) (ip_table_name p))) = map (\<lambda>a. (row_key D (ip_table_name p) a, f a)) keys"
  shows "opens D s p pks (Scope lo hi) (map (\<lambda>a. (row_key D (ip_table_name p) a, f a)) (filter (key_in_range (crates_of D) (Scope lo hi)) keys))"
proof -
  let ?name = "ip_table_name p" and ?b = "tuple_bound (sip D) (ip_table_name p)"
  let ?lo = "check_bound (map_bound (row_key D ?name) lo) (fst ?b)" and ?hi = "check_bound (map_bound (row_key D ?name) hi) (snd ?b)"
  let ?img = "\<lambda>a. (row_key D ?name a, f a)"
  have fits: "\<forall>v\<in>set_bound lo. v \<in> P \<and> logical_type v = im_value_ty (ip_meta p)" "\<forall>v\<in>set_bound hi. v \<in> P \<and> logical_type v = im_value_ty (ip_meta p)"
    using assms(5) by auto
  have "length (key_prefix (sip D) CTuple ?name) = 9" by (simp add: length_key_prefix)
  then obtain it where it: "rocks_range (rocks D) s ?lo ?hi = Ok it" "live it (entries (c s) (\<lambda>k. lower_bound_check ?lo k \<and> upper_bound_check ?hi k))"
    using live_range [OF assms(1) bounds_prefixed] by force
  have "entries (c s) (\<lambda>k. lower_bound_check ?lo k \<and> upper_bound_check ?hi k) =
      entries (c s) (\<lambda>k. within k ?b \<and> lower_bound_check ?lo k \<and> upper_bound_check ?hi k)"
    by (rule entries_cong) (auto dest: bounds_within)
  also have "\<dots> = filter (\<lambda>e. lower_bound_check ?lo (fst e) \<and> upper_bound_check ?hi (fst e)) (map ?img keys)"
    unfolding assms(6) [symmetric] by (rule filter_entries [OF rocks_finite [OF assms(1)], unfolded o_def, symmetric])
  also have "\<dots> = map ?img (filter (key_in_range (crates_of D) (Scope lo hi)) keys)"
    unfolding filter_map o_def fst_conv
  proof (intro arg_cong [where f = "map ?img"] filter_cong refl)
    fix a assume "a \<in> set keys"
    moreover have "set_bound lo \<subseteq> P" "set_bound hi \<subseteq> P" using fits by auto
    ultimately show "(lower_bound_check ?lo (row_key D ?name a) \<and> upper_bound_check ?hi (row_key D ?name a)) =
        key_in_range (crates_of D) (Scope lo hi) a"
      using row_key_bounds [OF assms(2), of _ a ?name] assms(4) by auto
  qed
  finally have "live it (map ?img (filter (key_in_range (crates_of D) (Scope lo hi)) keys))" using it(2) by simp
  moreover have "scope_iter D s p lo hi = Ok it"
    using it(1) by (simp add: scope_iter_def assms(3) is_primary_index_def bound_encode_primary [OF assms(2,3)] fits split_beta)
  ultimately show ?thesis by (simp add: opens_def)
qed

lemma filter_unique: "distinct xs \<Longrightarrow> x \<in> set xs \<Longrightarrow> (\<And>y. y \<in> set xs \<Longrightarrow> Q y \<longleftrightarrow> y = x) \<Longrightarrow> filter Q xs = [x]"
proof (induction xs)
  case (Cons y ys)
  then show ?case by (cases "y = x") (auto intro: filter_False)
qed simp

lemma eq_opens:
  assumes "rocks_laws (rocks D) c" "pk_domain (crates_of D) P" "im_ty (ip_meta p) = PrimaryKey n" "set keys \<subseteq> P"
    and "v \<in> set keys" "logical_type v = im_value_ty (ip_meta p)"
    and "entries (c s) (\<lambda>k. within k (tuple_bound (sip D) (ip_table_name p))) = map (\<lambda>a. (row_key D (ip_table_name p) a, f a)) keys"
    and "decode_with D p pks (f v) = Ok t"
  shows "opens D s p pks (REq v) (map (\<lambda>a. (row_key D (ip_table_name p) a, f a)) (filter (key_in_range (crates_of D) (REq v)) keys))"
proof -
  let ?img = "\<lambda>a. (row_key D (ip_table_name p) a, f a)"
  have "distinct keys"
    using entries_sorted [of "c s" "\<lambda>k. within k (tuple_bound (sip D) (ip_table_name p))"]
    unfolding assms(7) strict_sorted_iff by (simp add: distinct_map o_def)
  moreover have "partial_cmp (crates_of D) v a = Some Equal \<longleftrightarrow> a = v" if "a \<in> set keys" for a
  proof -
    have "v \<in> P" "a \<in> P" using assms(4,5) that by auto
    from row_key_cmp [OF assms(2) this, of "ip_table_name p"] row_key_inject [OF assms(2) this, of "ip_table_name p"]
    show ?thesis by (auto simp: cmp_of_def split: if_splits)
  qed
  ultimately have filter: "filter (key_in_range (crates_of D) (REq v)) keys = [v]" using assms(5) by (intro filter_unique) auto
  have "?img v \<in> set (entries (c s) (\<lambda>k. within k (tuple_bound (sip D) (ip_table_name p))))" using assms(5,7) by auto
  then have "c s (row_key D (ip_table_name p) v) = Some (f v)" by (simp add: set_entries [OF rocks_finite [OF assms(1)]])
  moreover have "v \<in> P" using assms(4,5) by blast
  ultimately have "eq_to_res D s p pks v = Ok (ResultTuple (Some t))"
    using assms(3,8) encode_tuple_key_row [OF assms(2)] rocks_get [OF assms(1)]
    by (simp add: eq_to_res_def primary_eq_def get_tuple_by_id_def opt_res_def)
  with filter assms(3,6,8) show ?thesis by (simp add: opens_def try_cast_def index_lookup_def is_primary_index_def)
qed

lemma ranges_open:
  assumes "rocks_laws (rocks D) c" "pk_domain (crates_of D) P" "im_ty (ip_meta p) = PrimaryKey n" "set keys = dom m" "dom m \<subseteq> P"
    and "entries (c s) (\<lambda>k. within k (tuple_bound (sip D) (ip_table_name p))) = map (\<lambda>a. (row_key D (ip_table_name p) a, f a)) keys"
    and "\<forall>a\<in>dom m. decode_with D p pks (f a) = Ok (t a)" "\<forall>r\<in>set rs. range_fits P m (im_value_ty (ip_meta p)) r"
  shows "list_all2 (opens D s p pks) rs
    (map (\<lambda>r. map (\<lambda>a. (row_key D (ip_table_name p) a, f a)) (filter (key_in_range (crates_of D) r) keys)) rs)"
proof -
  have "opens D s p pks r (map (\<lambda>a. (row_key D (ip_table_name p) a, f a)) (filter (key_in_range (crates_of D) r) keys))" if "r \<in> set rs" for r
  proof (cases r)
    case (Scope lo hi)
    from assms(4,5,8) that show ?thesis unfolding Scope by (intro scope_opens [OF assms(1-3) _ _ assms(6)]) (auto simp: Scope)
  next
    case (REq v)
    with assms(8) that have "v \<in> dom m" "logical_type v = im_value_ty (ip_meta p)" by (auto dest: bspec)
    with assms(4,5,7) show ?thesis
      unfolding REq by (intro eq_opens [OF assms(1-3) _ _ _ assms(6), where t = "t v"]) auto
  qed (use assms(8) that in \<open>auto simp: opens_def\<close>)
  then show ?thesis by (simp add: list_all2_conv_all_nth)
qed


text \<open>A table with two rows, and its primary key as an index.\<close>

definition number_rows :: "64 word data_value \<rightharpoonup> 64 word data_value list" where
  "number_rows = [Int32 2 \<mapsto> [Int32 2, Int32 20], Int32 1 \<mapsto> [Int32 1, Int32 10]]"

definition number_index :: index_meta where
  "number_index = \<lparr> im_id = 0, im_column_ids = [1], im_table_name = ascii ''t'', im_pk_ty = Integer, im_value_ty = Integer,
     im_name = ascii ''pk_index'', im_ty = PrimaryKey False \<rparr>"

lemma number_state:
  "\<exists>(st :: (64 word, (bytes \<times> bytes) list, unit, unit) tx_state) st2.
    rows_rep sample_store map_of (ascii ''t'') (types_of number_table) (range Int32) number_rows st \<and>
    table sample_store (ascii ''t'') st = (Ok (Some number_table), st2)"
proof -
  let ?ops = "[AppendRow (Int32 2) [Int32 2, Int32 20] False, AppendRow (Int32 1) [Int32 1, Int32 10] False] :: 64 word row_op list"
  let ?run = "run_all (run_row_op sample_store (ascii ''t'') [Integer, Integer]) ?ops"
  obtain st :: "(64 word, (bytes \<times> bytes) list, unit, unit) tx_state" and c'
    where st: "tx st = []" "shared_get (ascii ''t'') (table_cache st) = Some (Some number_table, c')"
    using cached_state by blast
  have spec: "run_all spec_row_op ?ops Map.empty = ([Ok (), Ok ()], number_rows)" by (simp add: number_rows_def)
  have ok: "\<forall>p\<in>set ?ops. row_op_ok (crates_of sample_store) [Integer, Integer] (range Int32) p" by (simp add: row_fits_def)
  have laws: "rocks_laws (rocks sample_store) map_of" "pk_domain (crates_of sample_store) (range Int32)"
    by (simp_all add: rocks_laws_list int_keys)
  have "rows_rep sample_store map_of (ascii ''t'') [Integer, Integer] (range Int32) Map.empty st"
    using st(1) by (simp add: rows_rep_def)
  note ref = rows_refine [OF laws this ok, unfolded spec snd_conv, THEN conjunct2]
  from ref have "rows_rep sample_store map_of (ascii ''t'') [Integer, Integer] (range Int32) number_rows (snd (?run st))" ..
  moreover from ref have "same_caches st (snd (?run st))" ..
  then have "\<exists>st2. table sample_store (ascii ''t'') (snd (?run st)) = (Ok (Some number_table), st2)"
    using table_cached st(2) unfolding same_caches_def by metis
  ultimately show ?thesis unfolding types_number_table by blast
qed

lemma number_rows_safe:
  "sorted_wrt (<) (map fst [(1, number_column)])" "\<forall>p\<in>fst ` set [(1, number_column)]. p < length (types_of number_table)"
  "\<forall>vs\<in>ran number_rows. safe_projection (map fst [(1, number_column)]) (null_columns vs)"
  by (auto simp: types_number_table number_rows_def ran_def safe_projection_def null_columns_def less_Suc_eq nth_Cons
      split: if_splits nat.splits)

lemma number_keys:
  assumes "set keys = dom number_rows" "sorted_wrt (\<lambda>a b. partial_cmp sample_crates a b = Some Less) keys"
  shows "keys = [Int32 1, Int32 2]"
proof -
  have dom: "set keys = {Int32 1, Int32 2}" using assms(1) by (auto simp: number_rows_def)
  have irr: "partial_cmp sample_crates (Int32 a) (Int32 a) \<noteq> Some Less" "partial_cmp sample_crates (Int32 2) (Int32 1) \<noteq> Some Less" for a
    by (simp_all add: scmp_def cmp_of_def)
  have "distinct ks" if "set ks \<subseteq> range Int32" "sorted_wrt (\<lambda>a b. partial_cmp sample_crates a b = Some Less) ks" for ks
    using that irr(1) by (induction ks) (auto simp del: partial_cmp.simps)
  with dom assms(2) have "distinct keys" by auto
  from distinct_card [OF this] dom have "length keys = 2" by simp
  then obtain a b where "keys = [a, b]" by (auto simp: numeral_2_eq_2 length_Suc_conv)
  with dom assms(2) irr show ?thesis by (auto simp: insert_eq_iff doubleton_eq_iff simp del: partial_cmp.simps)
qed


text \<open>
  C38: The iterator returns the answer of an equality on the primary key as it is, and the executor takes a missing
  row as the end of the scan: the ranges after a key that has no row are not read.
\<close>

theorem index_scan_stops:
  assumes "rocks_laws (rocks D) c" "pk_domain (crates_of D) P" "rows_rep D c name (types_of t) P m st"
    and "table D name st = (Ok (Some t), st2)" "tc_name t = name" "im_ty meta = PrimaryKey n"
    and "v \<in> P" "logical_type v = im_value_ty meta" "m v = None"
  shows "fst (index_scan D name (None, None) cols meta (SortedRanges (REq v # rs)) with_pk st) = []"
proof -
  have tx: "tx st2 = tx st" using table_tx [of D name st] assms(4) by simp
  have "held c st (row_key D name v) = None" using held_row [OF assms(3,2,7)] assms(9) by simp
  then have "get_tuple_by_id D (tx st) p pks v = Ok None" if "ip_table_name p = name" for p pks
    using that by (simp add: get_tuple_by_id_def encode_tuple_key_row [OF assms(2,7)] rocks_get [OF assms(1)] opt_res_def)
  then have "eq_to_res D (tx st) p pks v = Ok (ResultTuple None)" if "ip_table_name p = name" "ip_meta p = meta" for p pks
    using that assms(6) by (simp add: eq_to_res_def primary_eq_def)
  with assms(4-6,8) tx show ?thesis
    by (simp add: index_scan_def read_by_index_def op_simps Let_def try_cast_def
        index_stream.simps index_next_def index_loop.simps)
qed

theorem index_scan_stops_witness:
  "\<exists>st :: (64 word, (bytes \<times> bytes) list, unit, unit) tx_state.
    fst (index_scan sample_store (ascii ''t'') (None, None) [(1, number_column)] number_index
      (SortedRanges [REq (Int32 0), REq (Int32 1)]) False st) = [] \<and>
    rows_rep sample_store map_of (ascii ''t'') (types_of number_table) (range Int32) number_rows st \<and> number_rows (Int32 1) \<noteq> None"
proof -
  obtain st st2 :: "(64 word, (bytes \<times> bytes) list, unit, unit) tx_state"
    where st: "rows_rep sample_store map_of (ascii ''t'') (types_of number_table) (range Int32) number_rows st"
      "table sample_store (ascii ''t'') st = (Ok (Some number_table), st2)" using number_state by blast
  have laws: "rocks_laws (rocks sample_store) map_of" "pk_domain (crates_of sample_store) (range Int32)"
    by (simp_all add: rocks_laws_list int_keys)
  have meta: "tc_name number_table = ascii ''t''" "im_ty number_index = PrimaryKey False"
    by (simp_all add: number_table_def empty_catalog_def number_index_def)
  have "logical_type (Int32 0) = im_value_ty number_index" "number_rows (Int32 0) = None"
    by (simp_all add: number_index_def number_rows_def)
  from index_scan_stops [OF laws st meta rangeI this, of "[(1, number_column)]" "[REq (Int32 1)]" False] st(1)
  show ?thesis by (intro exI [of _ st]) (simp add: number_rows_def)
qed

end
