(* ===== verification/Table_Store.thy ===== *)
theory Table_Store
  imports Row_Store
begin

text \<open>
  The catalogue operations of \<open>src/src/storage/mod.rs\<close>: creating, changing and dropping tables, columns,
  indexes and views, and the paths of statistics. Every operation writes the store and keeps the caches in
  step. Where the code makes a new \<open>ulid::Generator\<close>, the operation takes the ids it returns. The directory of
  statistics files that \<open>drop_table\<close> tries to remove is not part of the state; the code ignores the result.
\<close>

section \<open>Indexes of a table\<close>

definition put_index_meta ::
  "('d, 't, 'n, 's, 'v, 'm) store_env \<Rightarrow> rstring \<Rightarrow> index_meta \<Rightarrow> (unit, ('d, 's, 'v, 'm) tx_state) op" where
  "put_index_meta D table_name m =
    op_bind (op_res (encode_index_meta D table_name m)) (\<lambda>(key, val). tx_set D key val)"

definition tx_add_index_meta ::
  "('d, 't, 'n, 's, 'v, 'm) store_env \<Rightarrow> rstring \<Rightarrow> rstring \<Rightarrow> column_id list \<Rightarrow> index_type \<Rightarrow>
   (32 word, ('d, 's, 'v, 'm) tx_state) op" where
  "tx_add_index_meta D table_name index_name column_ids ty =
    op_bind (table D table_name) (\<lambda>found. case found of
      None \<Rightarrow> op_fail TableNotFound
    | Some t \<Rightarrow>
        op_bind (op_res (add_index_meta t (ulid_text D) index_name column_ids ty)) (\<lambda>(_, m).
          op_seq (put_index_meta D table_name m)
            (op_seq (forget_table table_name) (op_return (im_id m)))))"

definition remove_table_meta ::
  "('d, 't, 'n, 's, 'v, 'm) store_env \<Rightarrow> rstring \<Rightarrow> 32 word \<Rightarrow> (unit, ('d, 's, 'v, 'm) tx_state) op" where
  "remove_table_meta D table_name index_id =
    op_seq (tx_remove D (encode_statistics_path_key (sip D) table_name index_id))
      (op_bind (on_metas (shared_remove (table_name, index_id))) (\<lambda>_. op_return ()))"

definition save_table_meta ::
  "('d, 't, 'n, 's, 'v, 'm) store_env \<Rightarrow> rstring \<Rightarrow> rstring \<Rightarrow> 'm \<Rightarrow> (unit, ('d, 's, 'v, 'm) tx_state) op" where
  "save_table_meta D table_name path meta =
    (let index_id = index_of_meta D meta in
     op_bind (on_metas (shared_put (table_name, index_id) meta)) (\<lambda>_.
       let (key, val) = encode_statistics_path (sip D) table_name index_id path in tx_set D key val))"

definition table_meta_path ::
  "('d, 't, 'n, 's, 'v, 'm) store_env \<Rightarrow> rstring \<Rightarrow> 32 word \<Rightarrow> (rstring option, ('d, 's, 'v, 'm) tx_state) op" where
  "table_meta_path D table_name index_id =
    op_bind (tx_get D (encode_statistics_path_key (sip D) table_name index_id)) (\<lambda>found.
      op_res (opt_res decode_statistics_path found))"

definition drop_index ::
  "('d, 't, 'n, 's, 'v, 'm) store_env \<Rightarrow> rstring \<Rightarrow> rstring \<Rightarrow> bool \<Rightarrow> (unit, ('d, 's, 'v, 'm) tx_state) op" where
  "drop_index D table_name index_name if_exists =
    op_bind (table D table_name) (\<lambda>found. case found of
      None \<Rightarrow> op_fail TableNotFound
    | Some t \<Rightarrow>
        (case find (\<lambda>m. im_name m = index_name) (indexes t) of
           None \<Rightarrow> if if_exists then op_return () else op_fail TableNotFound
         | Some m \<Rightarrow>
             if is_primary_index (im_ty m) \<or> im_ty m = Unique then op_fail InvalidIndex
             else
               op_seq (tx_remove D (encode_index_meta_key (sip D) table_name (im_id m)))
                 (op_seq (drop_range D (index_bound (sip D) table_name (im_id m)))
                   (op_seq (tx_remove D (encode_statistics_path_key (sip D) table_name (im_id m)))
                     (forget_table table_name)))))"

section \<open>Columns\<close>

definition put_column ::
  "('d, 't, 'n, 's, 'v, 'm) store_env \<Rightarrow> 'd column_catalog \<Rightarrow> (unit, ('d, 's, 'v, 'm) tx_state) op" where
  "put_column D col = op_bind (op_res (encode_column D col)) (\<lambda>(key, val). tx_set D key val)"

definition tx_add_column ::
  "('d, 't, 'n, 's, 'v, 'm) store_env \<Rightarrow> rstring \<Rightarrow> 'd column_catalog \<Rightarrow> bool \<Rightarrow> column_id option \<Rightarrow>
   (column_id, ('d, 's, 'v, 'm) tx_state) op" where
  "tx_add_column D table_name col if_not_exists generated =
    op_bind (table D table_name) (\<lambda>found. case found of
      None \<Rightarrow> op_fail TableNotFound
    | Some t \<Rightarrow>
        op_bind (if nullable col then op_return (Some Null) else op_res (default_value (expr_env D) col)) (\<lambda>default.
          if default = None then op_fail NeedNullAbleOrDefault
          else case find (\<lambda>c. column_name (summary c) = column_name (summary col)) (schema_ref t) of
            Some c \<Rightarrow>
              if if_not_exists then op_res (of_option Panic (column_id_of c))
              else op_fail (DuplicateColumn (column_name (summary col)))
          | None \<Rightarrow>
              op_bind (op_res (add_column t col generated)) (\<lambda>(t1, col_id).
                op_bind
                  (if is_unique (desc col)
                   then op_bind (op_res (add_index_meta t1 (ulid_text D) (ascii ''uk_'' @ column_name (summary col)) [col_id] Unique))
                     (\<lambda>(t2, m). op_seq (put_index_meta D table_name m) (op_return t2))
                   else op_return t1) (\<lambda>t3.
                op_bind (op_res (get_column_by_id t3 col_id)) (\<lambda>c.
                op_bind (op_res (of_option Panic c)) (\<lambda>stored_col.
                op_seq (put_column D stored_col)
                  (op_seq (forget_table table_name) (op_return col_id))))))))"

definition drop_column_index ::
  "('d, 't, 'n, 's, 'v, 'm) store_env \<Rightarrow> rstring \<Rightarrow> column_id \<Rightarrow> index_meta \<Rightarrow> (unit, ('d, 's, 'v, 'm) tx_state) op" where
  "drop_column_index D table_name col_id m =
    (if col_id \<notin> set (im_column_ids m) then op_return ()
     else op_bind (op_res (encode_index_meta D table_name m)) (\<lambda>(index_meta_key, _).
       op_seq (tx_remove D index_meta_key)
         (op_seq (drop_range D (index_bound (sip D) table_name (im_id m)))
           (remove_table_meta D table_name (im_id m)))))"

definition drop_column ::
  "('d, 't, 'n, 's, 'v, 'm) store_env \<Rightarrow> rstring \<Rightarrow> rstring \<Rightarrow> (unit, ('d, 's, 'v, 'm) tx_state) op" where
  "drop_column D table_name col_name =
    op_bind (table D table_name) (\<lambda>found. case found of
      None \<Rightarrow> op_fail TableNotFound
    | Some t \<Rightarrow>
        op_bind (op_res (get_column_by_name t col_name)) (\<lambda>c.
        op_bind (op_res (of_option Panic c)) (\<lambda>col.
        op_bind (op_res (encode_column D col)) (\<lambda>(key, _).
        op_seq (tx_remove D key)
          (op_seq (op_each (\<lambda>m. op_bind (op_res (of_option Panic (column_id_of col))) (\<lambda>col_id.
              drop_column_index D table_name col_id m)) (indexes t))
            (forget_table table_name))))))"

section \<open>Tables\<close>

definition check_name_hash ::
  "('d, 't, 'n, 's, 'v, 'm) store_env \<Rightarrow> rstring \<Rightarrow> (unit, ('d, 's, 'v, 'm) tx_state) op" where
  "check_name_hash D table_name =
    (let (hash_key, val) = encode_table_hash (sip D) table_name in
     op_bind (tx_get D hash_key) (\<lambda>found.
       if found \<noteq> None then op_fail (DuplicateSourceHash table_name) else tx_set D hash_key val))"

definition drop_name_hash ::
  "('d, 't, 'n, 's, 'v, 'm) store_env \<Rightarrow> rstring \<Rightarrow> (unit, ('d, 's, 'v, 'm) tx_state) op" where
  "drop_name_hash D table_name = tx_remove D (encode_table_hash_key (sip D) table_name)"

fun unique_indexes ::
  "('d, 't, 'n, 's, 'v, 'm) store_env \<Rightarrow> 'd column_catalog list \<Rightarrow> 'd table_catalog \<Rightarrow>
   ('d table_catalog, ('d, 's, 'v, 'm) tx_state) op" where
  "unique_indexes D [] t = op_return t"
| "unique_indexes D (col # cols) t = (case column_id_of col of
     None \<Rightarrow> op_fail PrimaryKeyNotFound
   | Some col_id \<Rightarrow>
       if primary (desc col) \<noteq> None \<or> \<not> is_unique (desc col) then unique_indexes D cols t
       else
         op_bind (op_res (add_index_meta t (ulid_text D) (ascii ''uk_'' @ column_name (summary col) @ ascii ''_index'') [col_id] Unique))
           (\<lambda>(t', m). op_seq (put_index_meta D (tc_name t) m) (unique_indexes D cols t')))"

definition create_index_meta_from_column ::
  "('d, 't, 'n, 's, 'v, 'm) store_env \<Rightarrow> 'd table_catalog \<Rightarrow> ('d table_catalog, ('d, 's, 'v, 'm) tx_state) op" where
  "create_index_meta_from_column D t =
    op_bind (unique_indexes D (schema_ref t) t) (\<lambda>t1.
      op_bind (op_res (res_map (\<lambda>(_, col). of_option Panic (column_id_of col)) (primary_keys t1))) (\<lambda>key_ids.
        op_bind (op_res (add_index_meta t1 (ulid_text D) (ascii ''pk_index'') key_ids (PrimaryKey (length key_ids \<noteq> 1)))) (\<lambda>(t2, m).
          op_seq (put_index_meta D (tc_name t) m) (op_return t2))))"

definition create_table ::
  "('d, 't, 'n, 's, 'v, 'm) store_env \<Rightarrow> rstring \<Rightarrow> 'd column_catalog list \<Rightarrow> bool \<Rightarrow> column_id option list \<Rightarrow>
   (rstring, ('d, 's, 'v, 'm) tx_state) op" where
  "create_table D table_name cols if_not_exists generated =
    op_bind (op_res (table_new table_name cols generated)) (\<lambda>t.
    op_bind (op_res (res_map (\<lambda>(_, col). check_primary_key_type (datatype_of col)) (primary_keys t))) (\<lambda>_.
    op_bind (op_res (encode_root_table D table_name)) (\<lambda>(table_key, val).
    op_bind (tx_get D table_key) (\<lambda>found.
      if found \<noteq> None then (if if_not_exists then op_return table_name else op_fail TableExists)
      else
        op_seq (check_name_hash D table_name)
          (op_bind (create_index_meta_from_column D t) (\<lambda>t'.
            op_seq (tx_set D table_key val)
              (op_seq (op_each (put_column D) (schema_ref t'))
                (op_bind (on_tables (shared_put table_name t')) (\<lambda>_. op_return table_name)))))))))"

definition drop_table ::
  "('d, 't, 'n, 's, 'v, 'm) store_env \<Rightarrow> rstring \<Rightarrow> bool \<Rightarrow> (unit, ('d, 's, 'v, 'm) tx_state) op" where
  "drop_table D table_name if_exists =
    op_bind (table D table_name) (\<lambda>found.
      if found = None then (if if_exists then op_return () else op_fail TableNotFound)
      else
        op_seq (drop_name_hash D table_name)
          (op_seq (drop_data D table_name)
            (op_seq (drop_range D (columns_bound (sip D) table_name))
              (op_seq (drop_range D (index_meta_bound (sip D) table_name))
                (op_seq (tx_remove D (encode_root_table_key (sip D) table_name))
                  (forget_table table_name))))))"

definition table_metas ::
  "('d, 't, 'n, 's, 'v, 'm) store_env \<Rightarrow> (rstring list, ('d, 's, 'v, 'm) tx_state) op" where
  "table_metas D =
    (let (lo, hi) = root_table_bound in
     op_bind (tx_range D (Included lo) (Included hi)) (\<lambda>it.
       op_res (res_map (deserialize_table_meta D \<circ> snd) (drain_ok it))))"

section \<open>Views\<close>

definition view ::
  "('d, 't, 'n, 's, 'v, 'm) store_env \<Rightarrow> rstring \<Rightarrow> ('v option, ('d, 's, 'v, 'm) tx_state) op" where
  "view D view_name =
    op_bind (on_views (shared_get view_name)) (\<lambda>hit. case hit of
      Some v \<Rightarrow> op_return (Some v)
    | None \<Rightarrow>
        op_bind (tx_get D (encode_view_key (sip D) view_name)) (\<lambda>found. case found of
          None \<Rightarrow> op_return None
        | Some b \<Rightarrow>
            op_bind (deserialize_view D b) (\<lambda>v.
              op_bind (on_views (shared_get_or_insert view_name (\<lambda>_. Ok v))) (\<lambda>r. op_res (map_res Some r)))))"

definition create_view ::
  "('d, 't, 'n, 's, 'v, 'm) store_env \<Rightarrow> 'v \<Rightarrow> bool \<Rightarrow> (unit, ('d, 's, 'v, 'm) tx_state) op" where
  "create_view D v or_replace =
    op_bind (op_res (encode_view D v)) (\<lambda>(view_key, val).
      op_bind (tx_get D view_key) (\<lambda>found.
        if \<not> or_replace \<and> found \<noteq> None then op_fail ViewExists
        else
          op_seq (op_when (found = None) (check_name_hash D (name_of_view D v)))
            (op_seq (tx_set D view_key val)
              (op_bind (on_views (shared_put (name_of_view D v) v)) (\<lambda>_. op_return ())))))"

definition drop_view ::
  "('d, 't, 'n, 's, 'v, 'm) store_env \<Rightarrow> rstring \<Rightarrow> bool \<Rightarrow> (unit, ('d, 's, 'v, 'm) tx_state) op" where
  "drop_view D view_name if_exists =
    op_seq (drop_name_hash D view_name)
      (op_bind (view D view_name) (\<lambda>found.
        if found = None then (if if_exists then op_return () else op_fail ViewNotFound)
        else
          op_seq (tx_remove D (encode_view_key (sip D) view_name))
            (op_bind (on_views (shared_remove view_name)) (\<lambda>_. op_return ()))))"

fun decode_views ::
  "('d, 't, 'n, 's, 'v, 'm) store_env \<Rightarrow> (bytes \<times> bytes) list \<Rightarrow> ('v list, ('d, 's, 'v, 'm) tx_state) op" where
  "decode_views D [] = op_return []"
| "decode_views D (e # es) =
    op_bind (deserialize_view D (snd e)) (\<lambda>v. op_bind (decode_views D es) (\<lambda>vs. op_return (v # vs)))"

definition views ::
  "('d, 't, 'n, 's, 'v, 'm) store_env \<Rightarrow> ('v list, ('d, 's, 'v, 'm) tx_state) op" where
  "views D =
    (let (lo, hi) = view_bound in
     op_bind (tx_range D (Included lo) (Included hi)) (\<lambda>it. decode_views D (drain_ok it)))"

section \<open>A cache as a map\<close>

text \<open>What the storage layer relies on: a cache is a partial map from which entries may disappear.\<close>

locale map_cache =
  fixes get :: "'k \<Rightarrow> 's \<Rightarrow> ('v option \<times> 's) option"
    and put :: "'k \<Rightarrow> 'v \<Rightarrow> 's \<Rightarrow> ('v option \<times> 's) option"
    and rem :: "'k \<Rightarrow> 's \<Rightarrow> ('v option \<times> 's) option"
    and get_or_insert :: "'k \<Rightarrow> ('k \<Rightarrow> 'v res) \<Rightarrow> 's \<Rightarrow> ('v res \<times> 's) option"
    and rep :: "'s \<Rightarrow> ('k \<rightharpoonup> 'v) \<Rightarrow> bool"
  assumes get_map: "rep s m \<Longrightarrow> \<exists>s'. get k s = Some (m k, s') \<and> rep s' m"
    and put_map: "rep s m \<Longrightarrow> \<exists>r s' m'. put k v s = Some (r, s') \<and> rep s' m' \<and> m' \<subseteq>\<^sub>m m(k \<mapsto> v)"
    and rem_map: "rep s m \<Longrightarrow> \<exists>r s'. rem k s = Some (r, s') \<and> rep s' (m(k := None))"
    and insert_map: "rep s m \<Longrightarrow> m k = None \<Longrightarrow> \<exists>s' m'. get_or_insert k f s = Some (f k, s') \<and> rep s' m' \<and>
      (case f k of Inl e \<Rightarrow> m' = m | Inr v \<Rightarrow> m' \<subseteq>\<^sub>m m(k \<mapsto> v))"
begin

text \<open>Whatever holds of all entries and of a new one holds after the operation.\<close>

lemma rem_all:
  assumes "rep s m" "\<And>k' v. k' \<noteq> k \<Longrightarrow> m k' = Some v \<Longrightarrow> P k' v"
  shows "\<exists>r s' m'. rem k s = Some (r, s') \<and> rep s' m' \<and> (\<forall>k' v. m' k' = Some v \<longrightarrow> P k' v)"
proof -
  obtain r s' where "rem k s = Some (r, s')" "rep s' (m(k := None))" using rem_map [OF assms(1)] by blast
  with assms(2) show ?thesis by (intro exI [of _ r] exI [of _ s'] exI [of _ "m(k := None)"]) auto
qed

lemma put_all:
  assumes "rep s m" "\<And>k' v. k' \<noteq> k \<Longrightarrow> m k' = Some v \<Longrightarrow> P k' v" "P k v"
  shows "\<exists>r s' m'. put k v s = Some (r, s') \<and> rep s' m' \<and> (\<forall>k' v. m' k' = Some v \<longrightarrow> P k' v)"
proof -
  obtain r s' m' where m': "put k v s = Some (r, s')" "rep s' m'" "m' \<subseteq>\<^sub>m m(k \<mapsto> v)" using put_map [OF assms(1)] by blast
  have "P k' w" if "m' k' = Some w" for k' w
  proof -
    have "(m(k \<mapsto> v)) k' = Some w" using m'(3) that by (metis domI map_le_def)
    with assms(2,3) show ?thesis by (auto split: if_splits)
  qed
  with m' show ?thesis by blast
qed

end

definition cache_rep :: "('k, 'v) shared_lru \<Rightarrow> ('k \<rightharpoonup> 'v) \<Rightarrow> bool" where
  "cache_rep s m \<longleftrightarrow> (\<exists>cap ess. shared_rep cap s ess \<and> m = (\<lambda>k. map_of (ess ! shard s k) k))"

lemma map_of_butlast_le: "map_of (butlast xs) \<subseteq>\<^sub>m map_of xs"
proof (cases xs rule: rev_cases)
  case (snoc ys y)
  then show ?thesis by (auto simp: map_le_def map_add_def split: option.split)
qed simp

lemma spec_put_le: "map_of (spec_put cap k v es) \<subseteq>\<^sub>m (map_of es)(k \<mapsto> v)"
  using map_of_butlast_le [of "AList.delete k es"]
  by (auto simp: spec_put_def map_le_def delete_conv split: if_splits)

lemma map_of_touch: "map_of (spec_touch k es) = map_of es"
  by (auto simp: spec_touch_def delete_conv split: option.split)

lemma shard_update:
  assumes "shared_rep cap s ess" "shard s' = shard s" "\<And>k'. shard s k' = shard s k \<Longrightarrow> map_of es' k' = f k'"
    and "\<And>k'. shard s k' \<noteq> shard s k \<Longrightarrow> map_of (ess ! shard s k') k' = f k'"
  shows "(\<lambda>k'. map_of (ess[shard s k := es'] ! shard s' k') k') = f"
proof
  fix k'
  have "length (shared_vec s) = length ess" "shared_vec s \<noteq> []" using assms(1) by (auto simp: shared_rep_def dest: list_all2_lengthD)
  then have "shard s k < length ess" unfolding shard_def by (metis length_greater_0_conv mod_less_divisor)
  with assms show "map_of (ess[shard s k := es'] ! shard s' k') k' = f k'" by (cases "shard s k' = shard s k") simp_all
qed

lemma cache_rep_op:
  fixes c :: "('k, 'v) cache_op"
  assumes "cache_rep s m"
  shows "\<exists>r s' m'. run_op shared_get shared_put shared_remove c s = Some (r, s') \<and> cache_rep s' m' \<and>
    (case c of CacheGet k \<Rightarrow> r = m k \<and> m' = m | CachePut k v \<Rightarrow> m' \<subseteq>\<^sub>m m(k \<mapsto> v) | CacheRemove k \<Rightarrow> m' = m(k := None))"
proof -
  obtain cap ess where rep: "shared_rep cap s ess" and m: "m = (\<lambda>k. map_of (ess ! shard s k) k)"
    using assms by (auto simp: cache_rep_def)
  obtain s' where s': "run_op shared_get shared_put shared_remove c s = Some (fst (spec_op cap c (ess ! shard s (op_key c))), s')"
    "shared_rep cap s' (ess[shard s (op_key c) := snd (spec_op cap c (ess ! shard s (op_key c)))])" "shard s' = shard s"
    using shared_op [OF rep, of c] shard_cong by metis
  define m' where "m' = (\<lambda>k'. map_of (ess[shard s (op_key c) := snd (spec_op cap c (ess ! shard s (op_key c)))] ! shard s' k') k')"
  have "cache_rep s' m'" using s'(2) by (auto simp: cache_rep_def m'_def)
  moreover have "case c of CacheGet k \<Rightarrow> fst (spec_op cap c (ess ! shard s (op_key c))) = m k \<and> m' = m
      | CachePut k v \<Rightarrow> m' \<subseteq>\<^sub>m m(k \<mapsto> v) | CacheRemove k \<Rightarrow> m' = m(k := None)"
  proof (cases c)
    case (CacheGet k)
    then show ?thesis unfolding m'_def by (simp add: shard_update [OF rep s'(3)] map_of_touch m)
  next
    case (CachePut k v)
    let ?g = "\<lambda>k'. if shard s k' = shard s k then map_of (spec_put cap k v (ess ! shard s k)) k' else m k'"
    have "m' = ?g" unfolding m'_def using CachePut by (simp add: shard_update [OF rep s'(3)] m)
    moreover have "?g \<subseteq>\<^sub>m m(k \<mapsto> v)"
      using spec_put_le [of cap k v "ess ! shard s k"] by (auto simp: map_le_def m dom_def split: if_splits)
    ultimately show ?thesis using CachePut by simp
  next
    case (CacheRemove k)
    have "m' = m(k := None)" unfolding m'_def CacheRemove op_key.simps spec_op.simps snd_conv
      by (rule shard_update [OF rep s'(3)]) (auto simp: delete_conv m)
    with CacheRemove show ?thesis by simp
  qed
  ultimately show ?thesis using s'(1) by blast
qed

lemma cache_rep_insert:
  assumes "cache_rep s m" "m k = None"
  shows "\<exists>s' m'. shared_get_or_insert k f s = Some (f k, s') \<and> cache_rep s' m' \<and>
    (case f k of Inl e \<Rightarrow> m' = m | Inr v \<Rightarrow> m' \<subseteq>\<^sub>m m(k \<mapsto> v))"
proof -
  obtain cap ess where rep: "shared_rep cap s ess" and m: "m = (\<lambda>k. map_of (ess ! shard s k) k)"
    using assms by (auto simp: cache_rep_def)
  let ?i = "shard s k" and ?es = "ess ! shard s k"
  let ?es' = "case f k of Inl e \<Rightarrow> ?es | Inr v \<Rightarrow> spec_put cap k v ?es"
  have i: "?i < length (shared_vec s)" using rep by (simp add: shared_rep_def shard_def)
  then have "lru_rep (shared_vec s ! ?i) ?es" "lru_cap (shared_vec s ! ?i) = cap"
    using rep by (auto simp: shared_rep_def dest: list_all2_nthD)
  moreover have none: "map_of ?es k = None" using assms(2) m by simp
  ultimately obtain t where t: "lru_get_or_insert k f (shared_vec s ! ?i) = Some (f k, t)" "lru_rep t ?es'" "lru_cap t = cap"
    using lru_get_or_insert_rep [of "shared_vec s ! ?i" ?es k f] by auto
  let ?s = "s\<lparr> shared_vec := (shared_vec s)[?i := t] \<rparr>"
  have sh: "shard ?s = shard s" by (rule shard_cong) simp_all
  let ?m = "\<lambda>k'. map_of (ess[?i := ?es'] ! shard ?s k') k'"
  have "shared_rep cap ?s (ess[?i := ?es'])" using rep t(2,3) by (auto simp: shared_rep_def list_all2_update_cong)
  then have "cache_rep ?s ?m" by (auto simp: cache_rep_def)
  moreover have "?m = (\<lambda>k'. if shard s k' = shard s k then map_of ?es' k' else m k')"
    by (rule shard_update [OF rep sh]) (simp_all add: m)
  moreover have "case f k of Inl e \<Rightarrow> (\<lambda>k'. if shard s k' = shard s k then map_of ?es' k' else m k') = m
      | Inr v \<Rightarrow> (\<lambda>k'. if shard s k' = shard s k then map_of ?es' k' else m k') \<subseteq>\<^sub>m m(k \<mapsto> v)"
  proof (cases "f k")
    case (Inr v)
    then show ?thesis using spec_put_le [of cap k v ?es] by (auto simp: map_le_def m dom_def split: if_splits)
  qed (auto simp: m)
  ultimately show ?thesis using t(1) by (auto simp: shared_get_or_insert_def on_shard_def)
qed

interpretation shared: map_cache shared_get shared_put shared_remove shared_get_or_insert cache_rep
proof (unfold_locales, goal_cases)
  case (1 s m k)
  then show ?case using cache_rep_op [of s m "CacheGet k"] by auto
next
  case (2 s m k v)
  then show ?case using cache_rep_op [of s m "CachePut k v"] by auto
next
  case (3 s m k)
  then show ?case using cache_rep_op [of s m "CacheRemove k"] by auto
next
  case (4 s m k f)
  then show ?case by (rule cache_rep_insert)
qed

section \<open>Loading a table\<close>

lemma drain_ok_live: "live it es \<Longrightarrow> drain_ok it = es"
proof (induction es arbitrary: it)
  case Nil
  then show ?case using live_Nil [of it] by (auto simp: drain_ok.simps [of it])
next
  case (Cons e es)
  then obtain it' where "try_next it = Ok (Some e, it')" "live it' es" using live_Cons by blast
  with Cons.IH show ?case by (simp add: drain_ok.simps [of it])
qed

lemma table_collect_entries:
  assumes "rocks_laws (rocks D) c"
  shows "table_collect D name st =
    (map_res (\<lambda>(cols, metas). if cols = [] then None else Some (cols, metas))
      (collect_loop D name (fst (table_bound (sip D) name)) (entries (held c st) (\<lambda>k. within k (table_bound (sip D) name))) [] []), st)"
proof -
  let ?b = "table_bound (sip D) name"
  have "bounded_by (Included (fst ?b)) (hash_bytes (sip D) name)" "bounded_by (Included (snd ?b)) (hash_bytes (sip D) name)"
    by (auto simp: bounded_by_def table_bound_def key_prefix_def Let_def)
  from live_range [OF assms this, of "tx st"] obtain it where
    "rocks_range (rocks D) (tx st) (Included (fst ?b)) (Included (snd ?b)) = Ok it"
    "live it (entries (held c st) (\<lambda>k. within k ?b))"
    by (auto simp: lower_bound_check_def upper_bound_check_def within_def)
  then show ?thesis
    by (cases "collect_loop D name (fst ?b) (entries (held c st) (\<lambda>k. within k ?b)) [] []")
      (auto simp: table_collect_def op_simps tx_range_def split_beta drain_ok_live)
qed

lemma table_hit:
  assumes "cache_rep (table_cache st) m" "m name = Some t"
  shows "\<exists>s'. table D name st = (Ok (Some t), st\<lparr> table_cache := s' \<rparr>) \<and> cache_rep s' m"
  using shared.get_map [OF assms(1), of name] assms(2) by (auto simp: table_def op_simps cache_op_def)

lemma table_miss:
  assumes "cache_rep (table_cache st) m" "m name = None"
    and "\<And>s. table_collect D name (st\<lparr> table_cache := s \<rparr>) = (r, st\<lparr> table_cache := s \<rparr>)"
  shows "\<exists>s' m'. cache_rep s' m' \<and> table D name st = (case r of
      Inl e \<Rightarrow> Err e
    | Inr None \<Rightarrow> Ok None
    | Inr (Some (cols, metas)) \<Rightarrow> map_res Some (table_reload name cols metas), st\<lparr> table_cache := s' \<rparr>) \<and>
    (case r of Inr (Some (cols, metas)) \<Rightarrow> (case table_reload name cols metas of Inl e \<Rightarrow> m' = m | Inr t \<Rightarrow> m' \<subseteq>\<^sub>m m(name \<mapsto> t))
     | _ \<Rightarrow> m' = m)"
proof -
  obtain s1 where s1: "shared_get name (table_cache st) = Some (None, s1)" "cache_rep s1 m"
    using shared.get_map [OF assms(1), of name] assms(2) by auto
  show ?thesis
  proof (cases "\<exists>cols metas. r = Ok (Some (cols, metas))")
    case True
    then obtain cols metas where r: "r = Ok (Some (cols, metas))" by blast
    obtain s2 m' where "shared_get_or_insert name (\<lambda>_. table_reload name cols metas) s1 = Some (table_reload name cols metas, s2)"
      "cache_rep s2 m'" "case table_reload name cols metas of Inl e \<Rightarrow> m' = m | Inr v \<Rightarrow> m' \<subseteq>\<^sub>m m(name \<mapsto> v)"
      using shared.insert_map [OF s1(2) assms(2)] by blast
    with s1 r assms(3) [of s1] show ?thesis
      by (intro exI [of _ s2] exI [of _ m']) (auto simp: table_def op_simps cache_op_def)
  next
    case False
    with s1 assms(3) [of s1] show ?thesis
      by (intro exI [of _ s1] exI [of _ m]) (auto simp: table_def op_simps cache_op_def split: sum.split option.split)
  qed
qed

lemma table_missing:
  assumes "rocks_laws (rocks D) c" "cache_rep (table_cache st) m" "m name = None"
    and "\<forall>k. within k (table_bound (sip D) name) \<longrightarrow> held c st k = None"
  shows "\<exists>s'. table D name st = (Ok None, st\<lparr> table_cache := s' \<rparr>) \<and> cache_rep s' m"
proof -
  have "entries (held c st) (\<lambda>k. within k (table_bound (sip D) name)) = []"
    using assms(4) by (intro entries_eqI rocks_finite [OF assms(1)]) auto
  then have "table_collect D name (st\<lparr> table_cache := s \<rparr>) = (Ok None, st\<lparr> table_cache := s \<rparr>)" for s
    using table_collect_entries [OF assms(1), of name "st\<lparr> table_cache := s \<rparr>"] by simp
  from table_miss [OF assms(2,3) this] show ?thesis by auto
qed

lemma table_keeps:
  assumes "cache_rep (table_cache st) m" "table D name st = (r, st')"
  shows "\<exists>s' m'. st' = st\<lparr> table_cache := s' \<rparr> \<and> cache_rep s' m' \<and> (\<forall>k v. k \<noteq> name \<longrightarrow> m' k = Some v \<longrightarrow> m k = Some v)"
proof (cases "m name")
  case None
  have "table_collect D name (st\<lparr> table_cache := s \<rparr>) = (fst (table_collect D name st), st\<lparr> table_cache := s \<rparr>)" for s
    by (auto simp: table_collect_def op_simps tx_range_def split_beta split: sum.split)
  from table_miss [OF assms(1) None this] obtain s' m' where s': "cache_rep s' m'" "st' = st\<lparr> table_cache := s' \<rparr>"
    and m': "case fst (table_collect D name st) of
      Inr (Some (cols, metas)) \<Rightarrow> (case table_reload name cols metas of Inl e \<Rightarrow> m' = m | Inr t \<Rightarrow> m' \<subseteq>\<^sub>m m(name \<mapsto> t))
    | _ \<Rightarrow> m' = m"
    using assms(2) by auto
  have "(case r' of Inl e \<Rightarrow> m' = m | Inr t \<Rightarrow> m' \<subseteq>\<^sub>m m(name \<mapsto> t)) \<Longrightarrow> m' = m \<or> (\<exists>t. m' \<subseteq>\<^sub>m m(name \<mapsto> t))" for r'
    by (cases r') auto
  with m' have "m' = m \<or> (\<exists>t. m' \<subseteq>\<^sub>m m(name \<mapsto> t))" by (cases "fst (table_collect D name st)") (auto split: option.splits)
  then have "m k = Some v" if "k \<noteq> name" "m' k = Some v" for k v
    using that by (auto simp: map_le_def dom_def)
  with s' show ?thesis by blast
next
  case (Some t)
  then show ?thesis using table_hit [OF assms(1) Some, of D] assms(2) by auto
qed

lemma cache_rep_unique:
  assumes "cache_rep s m" "cache_rep s m'"
  shows "m = m'"
proof
  fix k
  show "m k = m' k" using shared.get_map [OF assms(1), of k] shared.get_map [OF assms(2), of k] by auto
qed

section \<open>The catalogue in the store\<close>

text \<open>
  The serializers of catalogue entries are generated by the derive macro of \<open>kite_sql_serde_macros\<close>; the model relies on
  decoding what was encoded, for the columns \<open>C\<close> of one table and the index descriptions \<open>M\<close>.
\<close>

definition entries_stored ::
  "('d, 't, 'n, 's, 'v, 'm) store_env \<Rightarrow> rstring \<Rightarrow> 'd column_catalog set \<Rightarrow> index_meta set \<Rightarrow> bool" where
  "entries_stored D name C M \<longleftrightarrow>
    (\<forall>col\<in>C. \<exists>b. serialize_column D col = Ok b \<and> deserialize_column D name b = Ok col) \<and>
    (\<forall>m\<in>M. \<exists>b. serialize_index_meta D m = Ok b \<and> deserialize_index_meta D b = Ok m)"

definition column_entry :: "('d, 't, 'n, 's, 'v, 'm) store_env \<Rightarrow> rstring \<Rightarrow> 'd column_catalog \<Rightarrow> bytes \<times> bytes" where
  "column_entry D name col =
    (encode_column_key (sip D) name (be_bytes 16 (unat (the (column_id_of col)))), projr (serialize_column D col))"

definition meta_entry :: "('d, 't, 'n, 's, 'v, 'm) store_env \<Rightarrow> rstring \<Rightarrow> index_meta \<Rightarrow> bytes \<times> bytes" where
  "meta_entry D name m = (encode_index_meta_key (sip D) name (im_id m), projr (serialize_index_meta D m))"

text \<open>
  A catalogue whose columns are in the order of their ids and whose indexes are in the order of the stored
  bytes of theirs, that is, in the order in which a scan finds them.
\<close>

definition catalog_sorted :: "rstring \<Rightarrow> 'd table_catalog \<Rightarrow> bool" where
  "catalog_sorted name t \<longleftrightarrow> catalog_wf t \<and> indexes_wf t \<and> tc_name t = name \<and> primary_key_type t = None \<and> schema_ref t \<noteq> [] \<and>
    (\<forall>col\<in>set (schema_ref t). \<exists>col_id. relation (summary col) = TableRelation col_id name False) \<and>
    sorted_wrt (<) (map (the \<circ> column_id_of) (schema_ref t)) \<and>
    sorted_wrt (\<lambda>a b. le_bytes 4 (unat (im_id a)) < le_bytes 4 (unat (im_id b))) (indexes t)"

definition catalog_entries :: "('d, 't, 'n, 's, 'v, 'm) store_env \<Rightarrow> rstring \<Rightarrow> 'd table_catalog \<Rightarrow> (bytes \<times> bytes) list" where
  "catalog_entries D name t = map (column_entry D name) (schema_ref t) @ map (meta_entry D name) (indexes t)"

definition catalog_rep ::
  "('d, 't, 'n, 's, 'v, 'm) store_env \<Rightarrow> ('s \<Rightarrow> bytes \<rightharpoonup> bytes) \<Rightarrow> rstring \<Rightarrow> 'd table_catalog \<Rightarrow> ('d, 's, 'v, 'm) tx_state \<Rightarrow> bool" where
  "catalog_rep D c name t st \<longleftrightarrow> catalog_sorted name t \<and>
    entries_stored D name (set (schema_ref t)) (set (indexes t)) \<and>
    (\<forall>k. within k (table_bound (sip D) name) \<longrightarrow> held c st k = map_of (catalog_entries D name t) k)"

lemma column_key_within: "within (encode_column_key sp name b) (columns_bound sp name)"
  "within (encode_column_key sp name b) (table_bound sp name)"
  by (auto simp: within_def encode_column_key_def columns_bound_def table_bound_def both_bounds_def key_prefix_def Let_def
      BOUND_MIN_TAG_def BOUND_MAX_TAG_def)

lemma meta_key_within: "within (encode_index_meta_key sp name i) (index_meta_bound sp name)"
  "within (encode_index_meta_key sp name i) (table_bound sp name)"
  by (auto simp: within_def encode_index_meta_key_def index_meta_bound_def table_bound_def both_bounds_def key_prefix_def Let_def
      BOUND_MIN_TAG_def BOUND_MAX_TAG_def)

lemma append_less_iff: "p @ a < p @ b \<longleftrightarrow> a < (b :: bytes)"
  by (simp add: less_append_same_length)

lemma column_before_meta: "encode_column_key sp name b < encode_index_meta_key sp name i"
  by (simp add: encode_column_key_def encode_index_meta_key_def key_prefix_def Let_def append_less_iff)

lemma starts_with_column: "starts_with (encode_column_key sp name b) (fst (table_bound sp name))"
  "\<not> starts_with (encode_index_meta_key sp name i) (fst (table_bound sp name))"
  by (simp_all add: starts_with_def encode_column_key_def encode_index_meta_key_def table_bound_def key_prefix_def Let_def)

lemma collect_columns:
  "\<forall>col\<in>set cols. \<exists>b. serialize_column D col = Ok b \<and> deserialize_column D name b = Ok col \<Longrightarrow>
   collect_loop D name (fst (table_bound (sip D) name)) (map (column_entry D name) cols @ es) done_cols metas =
   collect_loop D name (fst (table_bound (sip D) name)) es (done_cols @ cols) metas"
proof (induction cols arbitrary: done_cols)
  case (Cons col cols)
  then show ?case by (auto simp: column_entry_def starts_with_column)
qed simp

lemma collect_metas:
  "\<forall>m\<in>set ms. \<exists>b. serialize_index_meta D m = Ok b \<and> deserialize_index_meta D b = Ok m \<Longrightarrow>
   collect_loop D name (fst (table_bound (sip D) name)) (map (meta_entry D name) ms) cols done_metas = Ok (cols, done_metas @ ms)"
proof (induction ms arbitrary: done_metas)
  case (Cons m ms)
  then show ?case by (auto simp: meta_entry_def starts_with_column)
qed simp

lemma be_bytes_ulid: "a < b \<Longrightarrow> be_bytes 16 (unat a) < be_bytes 16 (unat (b :: 128 word))"
proof -
  assume "a < b"
  moreover have "unat w < 256 ^ 16" for w :: "128 word"
    using unsigned_less [of w] by (rule order.strict_trans2) simp
  ultimately show ?thesis by (simp add: be_bytes_less_iff word_less_nat_alt del: be_bytes.simps)
qed

lemma catalog_entries_sorted:
  assumes "catalog_sorted name t"
  shows "sorted_wrt (<) (map fst (catalog_entries D name t))"
proof -
  have "sorted_wrt (\<lambda>a b. encode_column_key (sip D) name (be_bytes 16 (unat (the (column_id_of a)))) <
      encode_column_key (sip D) name (be_bytes 16 (unat (the (column_id_of b))))) (schema_ref t)"
    using assms unfolding catalog_sorted_def sorted_wrt_map
    by (auto simp: encode_column_key_def append_less_iff be_bytes_ulid simp del: be_bytes.simps
        elim!: sorted_wrt_mono_rel [rotated])
  moreover have "sorted_wrt (\<lambda>a b. encode_index_meta_key (sip D) name (im_id a) < encode_index_meta_key (sip D) name (im_id b)) (indexes t)"
    using assms unfolding catalog_sorted_def by (auto simp: encode_index_meta_key_def append_less_iff simp del: le_bytes.simps elim!: sorted_wrt_mono_rel [rotated])
  ultimately show ?thesis
    by (auto simp: catalog_entries_def sorted_wrt_append sorted_wrt_map column_entry_def meta_entry_def column_before_meta o_def)
qed

lemma catalog_entries_distinct: "catalog_sorted name t \<Longrightarrow> distinct (map fst (catalog_entries D name t))"
  using catalog_entries_sorted strict_sorted_iff by blast

lemma catalog_entries_within: "(k, v) \<in> set (catalog_entries D name t) \<Longrightarrow> within k (table_bound (sip D) name)"
  by (auto simp: catalog_entries_def column_entry_def meta_entry_def column_key_within meta_key_within)

lemma catalog_rep_collect:
  assumes "rocks_laws (rocks D) c" "catalog_rep D c name t st"
  shows "table_collect D name st = (Ok (Some (schema_ref t, indexes t)), st)"
proof -
  have s: "catalog_sorted name t" "entries_stored D name (set (schema_ref t)) (set (indexes t))"
    using assms(2) by (simp_all add: catalog_rep_def)
  have "entries (held c st) (\<lambda>k. within k (table_bound (sip D) name)) = catalog_entries D name t"
  proof (rule entries_eqI [OF rocks_finite [OF assms(1)] catalog_entries_sorted [OF s(1)]])
    fix k v
    show "((k, v) \<in> set (catalog_entries D name t)) = (held c st k = Some v \<and> within k (table_bound (sip D) name))"
      using assms(2) catalog_entries_within [of k v D name t] map_of_eq_Some_iff [OF catalog_entries_distinct [OF s(1)], of D k v]
      unfolding catalog_rep_def by auto
  qed
  with s show ?thesis
    by (simp add: table_collect_entries [OF assms(1)] catalog_entries_def collect_columns collect_metas entries_stored_def catalog_sorted_def)
qed

text \<open>The cache holds what the store holds; the type of the primary key is computed when the first index is added.\<close>

definition same_table :: "'d table_catalog \<Rightarrow> 'd table_catalog \<Rightarrow> bool" where
  "same_table a b \<longleftrightarrow> a\<lparr> primary_key_type := None \<rparr> = b\<lparr> primary_key_type := None \<rparr> \<and> primary_type a = primary_type b"

definition loaded ::
  "('d, 't, 'n, 's, 'v, 'm) store_env \<Rightarrow> ('s \<Rightarrow> bytes \<rightharpoonup> bytes) \<Rightarrow> rstring \<Rightarrow> 'd table_catalog \<Rightarrow> ('d, 's, 'v, 'm) tx_state \<Rightarrow> bool" where
  "loaded D c name t st \<longleftrightarrow> catalog_rep D c name t st \<and> (\<exists>m. cache_rep (meta_cache st) m) \<and>
    (\<exists>m. cache_rep (table_cache st) m \<and> (\<forall>t'. m name = Some t' \<longrightarrow> same_table t' t))"

definition caches_ok :: "('d, 's, 'v, 'm) tx_state \<Rightarrow> bool" where
  "caches_ok st \<longleftrightarrow> (\<exists>m. cache_rep (table_cache st) m) \<and> (\<exists>m. cache_rep (meta_cache st) m)"

lemma caches_ok_same: "same_caches st st' \<Longrightarrow> caches_ok st \<Longrightarrow> caches_ok st'"
  by (simp add: caches_ok_def same_caches_def)

lemma loaded_caches: "loaded D c name t st \<Longrightarrow> caches_ok st"
  by (auto simp: loaded_def caches_ok_def)

lemma loaded_table:
  assumes "rocks_laws (rocks D) c" "loaded D c name t st"
  shows "\<exists>t' s'. table D name st = (Ok (Some t'), st\<lparr> table_cache := s' \<rparr>) \<and> same_table t' t \<and>
    loaded D c name t (st\<lparr> table_cache := s' \<rparr>)"
proof -
  obtain m where m: "catalog_rep D c name t st" "cache_rep (table_cache st) m" "\<forall>t'. m name = Some t' \<longrightarrow> same_table t' t"
    using assms(2) by (auto simp: loaded_def)
  have rep: "catalog_rep D c name t (st\<lparr> table_cache := s \<rparr>)" for s using m(1) by (simp add: catalog_rep_def)
  show ?thesis
  proof (cases "m name")
    case (Some t')
    then obtain s' where "table D name st = (Ok (Some t'), st\<lparr> table_cache := s' \<rparr>)" "cache_rep s' m"
      using table_hit [OF m(2) Some] by blast
    moreover from this have "loaded D c name t (st\<lparr> table_cache := s' \<rparr>)" using rep [of s'] m(3) assms(2) by (auto simp: loaded_def)
    ultimately show ?thesis using Some m(3) by blast
  next
    case None
    have wf: "catalog_wf t" "tc_name t = name" "primary_key_type t = None" using m(1) by (simp_all add: catalog_rep_def catalog_sorted_def)
    have "t\<lparr> primary_key_type := None \<rparr> = t" using wf(3) by (cases t) simp
    then have reload: "table_reload name (schema_ref t) (indexes t) = Ok t" using reload_wf [OF wf(1)] wf(2) by simp
    obtain s' m' where s': "cache_rep s' m'" "table D name st = (map_res Some (table_reload name (schema_ref t) (indexes t)), st\<lparr> table_cache := s' \<rparr>)"
      "case table_reload name (schema_ref t) (indexes t) of Inl e \<Rightarrow> m' = m | Inr t \<Rightarrow> m' \<subseteq>\<^sub>m m(name \<mapsto> t)"
      using table_miss [OF m(2) None catalog_rep_collect [OF assms(1) rep]] by auto
    note s' = s' [unfolded reload, simplified]
    have "t' = t" if "m' name = Some t'" for t'
    proof -
      have "m' name = (m(name \<mapsto> t)) name" using s'(3) that by (auto simp: map_le_def dom_def)
      with that show ?thesis by simp
    qed
    then have "loaded D c name t (st\<lparr> table_cache := s' \<rparr>)" using rep [of s'] s'(1) assms(2) by (auto simp: loaded_def same_table_def)
    moreover have "same_table t t" by (simp add: same_table_def)
    ultimately show ?thesis using s'(2) by blast
  qed
qed

end
