(* ===== verification/Table_Changes.thy ===== *)
theory Table_Changes
  imports Table_Store
begin

text \<open>
  The catalogue of a table under ALTER TABLE, CREATE INDEX, DROP INDEX and DROP TABLE: the operations of
  \<open>src/src/storage/mod.rs\<close> that write the store and forget the cached table refine changes of one
  catalogue value, whatever the caches hold or have evicted.
\<close>

section \<open>Changing the catalogue of a table\<close>

datatype 'd ddl =
    AddIndex rstring "column_id list" index_type
  | DropIndex rstring bool
  | AddColumn "'d column_catalog" bool "column_id option"
  | DropColumn rstring

abbreviation ignore_result where "ignore_result m \<equiv> op_bind m (\<lambda>_. op_return ())"

fun run_ddl :: "('d, 't, 'n, 's, 'v, 'm) store_env \<Rightarrow> rstring \<Rightarrow> 'd ddl \<Rightarrow> (unit, ('d, 's, 'v, 'm) tx_state) op" where
  "run_ddl D name (AddIndex index_name column_ids ty) = ignore_result (tx_add_index_meta D name index_name column_ids ty)"
| "run_ddl D name (DropIndex index_name if_exists) = drop_index D name index_name if_exists"
| "run_ddl D name (AddColumn col if_not_exists generated) = ignore_result (tx_add_column D name col if_not_exists generated)"
| "run_ddl D name (DropColumn col_name) = drop_column D name col_name"

text \<open>The same changes on a catalogue that is rebuilt from its columns and indexes.\<close>

definition reloaded :: "'d table_catalog \<Rightarrow> 'd table_catalog" where
  "reloaded t = projr (table_reload (tc_name t) (schema_ref t) (indexes t))"

fun spec_ddl :: "('d, 't, 'n, 's, 'v, 'm) store_env \<Rightarrow> 'd ddl \<Rightarrow> 'd table_catalog \<Rightarrow> 'd table_catalog res" where
  "spec_ddl D (AddIndex index_name column_ids ty) t =
     map_res (\<lambda>(t', _). reloaded t') (add_index_meta t (ulid_text D) index_name column_ids ty)"
| "spec_ddl D (DropIndex index_name if_exists) t =
     (case find (\<lambda>m. im_name m = index_name) (indexes t) of
        None \<Rightarrow> if if_exists then Ok t else Err TableNotFound
      | Some m \<Rightarrow>
          if is_primary_index (im_ty m) \<or> im_ty m = Unique then Err InvalidIndex
          else Ok (reloaded (t\<lparr> indexes := filter (\<lambda>x. im_id x \<noteq> im_id m) (indexes t) \<rparr>)))"
| "spec_ddl D (AddColumn col if_not_exists generated) t =
     res_bind (if nullable col then Ok (Some Null) else default_value (expr_env D) col) (\<lambda>default.
       if default = None then Err NeedNullAbleOrDefault
       else if column_name (summary col) \<in> (column_name \<circ> summary) ` set (schema_ref t)
       then (if if_not_exists then Ok t else Err (DuplicateColumn (column_name (summary col))))
       else res_bind (add_column t col generated) (\<lambda>(t1, col_id).
         if is_unique (desc col)
         then map_res (\<lambda>(t2, _). reloaded t2) (add_index_meta t1 (ulid_text D) (ascii ''uk_'' @ column_name (summary col)) [col_id] Unique)
         else Ok (reloaded t1)))"
| "spec_ddl D (DropColumn col_name) t =
     res_bind (of_option Panic (find (\<lambda>c. column_name (summary c) = col_name) (schema_ref t))) (\<lambda>col.
       Ok (reloaded (t\<lparr> schema_ref := filter (\<lambda>c. column_id_of c \<noteq> column_id_of col) (schema_ref t),
         indexes := filter (\<lambda>m. the (column_id_of col) \<notin> set (im_column_ids m)) (indexes t) \<rparr>)))"

text \<open>
  What the store needs of the new catalogue: a table keeps a column, the ids of new columns and indexes come
  last in the order of the store, and the entries can be stored.
\<close>

definition ddl_fits :: "('d, 't, 'n, 's, 'v, 'm) store_env \<Rightarrow> rstring \<Rightarrow> 'd ddl \<Rightarrow> 'd table_catalog \<Rightarrow> bool" where
  "ddl_fits D name p t \<longleftrightarrow>
    (\<forall>col if_not_exists generated. p = AddColumn col if_not_exists generated \<longrightarrow>
      (\<exists>col_id. generated = Some col_id \<and> (\<forall>c\<in>set (schema_ref t). the (column_id_of c) < col_id))) \<and>
    (\<forall>t'. spec_ddl D p t = Ok t' \<longrightarrow> schema_ref t' \<noteq> [] \<and> entries_stored D name (set (schema_ref t')) (set (indexes t')) \<and>
      (\<forall>m\<in>set (indexes t'). im_id m < 256))"

lemma catalog_rep_update:
  assumes "catalog_rep D c name t st" "catalog_sorted name t'" "entries_stored D name (set (schema_ref t')) (set (indexes t'))"
    and "set (catalog_entries D name t') = insert (k, v) (set (catalog_entries D name t))" "held c st' = (held c st)(k \<mapsto> v)"
  shows "catalog_rep D c name t' st'"
proof -
  have d: "distinct (map fst (catalog_entries D name t'))" "distinct (map fst (catalog_entries D name t))"
    using assms(1,2) catalog_entries_distinct unfolding catalog_rep_def by blast+
  have "map_of (catalog_entries D name t') = (map_of (catalog_entries D name t))(k \<mapsto> v)"
  proof
    fix x
    show "map_of (catalog_entries D name t') x = ((map_of (catalog_entries D name t))(k \<mapsto> v)) x"
    proof (cases "x = k")
      case True
      with d assms(4) show ?thesis by (simp add: map_of_eq_Some_iff)
    next
      case False
      then have "map_of (catalog_entries D name t') x = Some y \<longleftrightarrow> map_of (catalog_entries D name t) x = Some y" for y
        using d assms(4) by (simp add: map_of_eq_Some_iff)
      with False show ?thesis by (metis fun_upd_other option.exhaust)
    qed
  qed
  with assms show ?thesis unfolding catalog_rep_def by auto
qed

lemma forget_table_loaded:
  assumes "catalog_rep D c name t st" "caches_ok st"
  shows "\<exists>st'. forget_table name st = (Ok (), st') \<and> tx st' = tx st \<and> loaded D c name t st'"
proof -
  obtain m where m: "cache_rep (table_cache st) m" using assms(2) by (auto simp: caches_ok_def)
  obtain r s' where "shared_remove name (table_cache st) = Some (r, s')" "cache_rep s' (m(name := None))"
    using shared.rem_map [OF m] by blast
  moreover have "catalog_rep D c name t (st\<lparr> table_cache := s' \<rparr>)" using assms(1) by (simp add: catalog_rep_def)
  moreover obtain mm where "cache_rep (meta_cache st) mm" using assms(2) by (auto simp: caches_ok_def)
  ultimately have "forget_table name st = (Ok (), st\<lparr> table_cache := s' \<rparr>)" "loaded D c name t (st\<lparr> table_cache := s' \<rparr>)"
    by (auto simp: op_simps cache_op_def loaded_def)
  then show ?thesis by auto
qed

lemma put_index_meta_held:
  assumes "rocks_laws (rocks D) c" "serialize_index_meta D m = Ok b"
  shows "\<exists>st'. put_index_meta D name m st = (Ok (), st') \<and> held c st' = (held c st)(fst (meta_entry D name m) \<mapsto> snd (meta_entry D name m)) \<and>
    same_caches st st'"
  using tx_set_held [OF assms(1)] assms(2)
  by (simp add: put_index_meta_def encode_index_meta_def op_simps meta_entry_def)

lemma le_bytes_less: "x < y \<Longrightarrow> y < 256 \<Longrightarrow> le_bytes 4 x < le_bytes 4 y"
proof -
  have four: "(4 :: nat) = Suc (Suc (Suc (Suc 0)))" by simp
  assume "x < y" "y < 256"
  then show ?thesis unfolding four by (simp add: word_less_nat_alt unat_of_nat)
qed

lemma le_bytes_small: "a < b \<Longrightarrow> b < 256 \<Longrightarrow> le_bytes 4 (unat a) < le_bytes 4 (unat (b :: 32 word))"
  by (intro le_bytes_less) (simp_all add: word_less_nat_alt)

definition lists_sorted :: "rstring \<Rightarrow> 'd column_catalog list \<Rightarrow> index_meta list \<Rightarrow> bool" where
  "lists_sorted name cols metas \<longleftrightarrow> cols \<noteq> [] \<and>
    (\<forall>col\<in>set cols. \<exists>col_id. relation (summary col) = TableRelation col_id name False) \<and>
    distinct (map (column_name \<circ> summary) cols) \<and> sorted_wrt (<) (map (the \<circ> column_id_of) cols) \<and>
    sorted_wrt (<) (map im_id metas) \<and> distinct (map im_name metas) \<and> (\<forall>m\<in>set metas. im_table_name m = name) \<and>
    sorted_wrt (\<lambda>a b. le_bytes 4 (unat (im_id a)) < le_bytes 4 (unat (im_id b))) metas"

lemma catalog_lists:
  assumes "catalog_sorted name t"
  shows "lists_sorted name (schema_ref t) (indexes t)"
  using assms covers_distinct [of "column_idxs t" "column_positions t" "schema_ref t"]
  by (simp add: catalog_sorted_def lists_sorted_def catalog_wf_def indexes_wf_def)

lemma reload_lists:
  assumes "lists_sorted name cols metas"
  shows "\<exists>t. table_reload name cols metas = Ok t \<and> catalog_sorted name t \<and> schema_ref t = cols \<and> indexes t = metas"
proof -
  have rel: "\<forall>col\<in>set cols. \<exists>i. column_id_of col = Some i"
    using assms by (fastforce simp: lists_sorted_def column_id_of_def)
  have "distinct (map (the \<circ> column_id_of) cols)" using assms by (simp add: lists_sorted_def strict_sorted_iff)
  then have "distinct (map column_id_of cols)" by (metis distinct_map list.map_comp)
  then obtain idxs positions where "reload_columns 0 cols Mapping.empty Mapping.empty = Ok (idxs, positions)" "covers idxs positions cols"
    using reload_columns_covers [OF covers_empty, of cols] rel assms by (auto simp: lists_sorted_def)
  then show ?thesis
    using assms
    by (auto simp: table_reload_def catalog_sorted_def catalog_wf_def indexes_wf_def lists_sorted_def split: prod.split)
qed

lemma reload_fields:
  assumes "lists_sorted name (schema_ref t) metas" "tc_name t = name"
  shows "schema_ref (reloaded t) = schema_ref t" "indexes (reloaded t) = indexes t"
proof -
  have "lists_sorted name (schema_ref t) []" using assms(1) by (simp add: lists_sorted_def)
  then obtain t' where "table_reload name (schema_ref t) [] = Ok t'" using reload_lists by blast
  then have "\<exists>t'. table_reload name (schema_ref t) (indexes t) = Ok t' \<and> schema_ref t' = schema_ref t \<and> indexes t' = indexes t"
    by (cases "build_primary_keys (schema_ref t)") (auto simp: table_reload_def res_bind_Ok_iff)
  then show "schema_ref (reloaded t) = schema_ref t" "indexes (reloaded t) = indexes t" using assms(2) by (auto simp: reloaded_def)
qed

lemma reloaded_sorted:
  assumes "lists_sorted (tc_name t) (schema_ref t) (indexes t)"
  shows "catalog_sorted (tc_name t) (reloaded t)" "schema_ref (reloaded t) = schema_ref t" "indexes (reloaded t) = indexes t"
  using reload_lists [OF assms] by (auto simp: reloaded_def)

lemma lists_sorted_snoc_meta:
  assumes "lists_sorted name cols metas" "\<forall>old\<in>set metas. im_id old < im_id m" "im_name m \<notin> im_name ` set metas"
    and "im_table_name m = name" "im_id m < 256"
  shows "lists_sorted name cols (metas @ [m])"
  using assms le_bytes_small by (auto simp: lists_sorted_def sorted_wrt_append)

lemma lists_sorted_snoc_column:
  assumes "lists_sorted name cols metas" "\<forall>old\<in>set cols. the (column_id_of old) < col_id" "column_name (summary col) \<notin> (column_name \<circ> summary) ` set cols"
  shows "lists_sorted name (cols @ [with_relation col col_id name]) metas"
  using assms by (auto simp: lists_sorted_def sorted_wrt_append with_relation_def column_id_of_def)

lemma lists_sorted_filter:
  assumes "lists_sorted name cols metas" "filter P cols \<noteq> []"
  shows "lists_sorted name (filter P cols) (filter Q metas)"
  using assms by (auto simp: lists_sorted_def sorted_wrt_map sorted_wrt_filter distinct_map_filter)

lemma catalog_rep_remove:
  assumes "catalog_rep D c name t st" "catalog_sorted name t'" "set (schema_ref t') \<subseteq> set (schema_ref t)" "set (indexes t') \<subseteq> set (indexes t)"
    and "set (catalog_entries D name t') = {e \<in> set (catalog_entries D name t). fst e \<notin> X}"
    and "\<And>k. within k (table_bound (sip D) name) \<Longrightarrow> held c st' k = (if k \<in> X then None else held c st k)"
  shows "catalog_rep D c name t' st'"
proof -
  have d: "distinct (map fst (catalog_entries D name t'))" "distinct (map fst (catalog_entries D name t))"
    using assms(1,2) catalog_entries_distinct unfolding catalog_rep_def by blast+
  have "map_of (catalog_entries D name t') k = (if k \<in> X then None else map_of (catalog_entries D name t) k)" for k
  proof -
    have "map_of (catalog_entries D name t') k = Some v \<longleftrightarrow> (if k \<in> X then None else map_of (catalog_entries D name t) k) = Some v" for v
      using assms(5) d by (auto simp: map_of_eq_Some_iff)
    then show ?thesis by (metis not_Some_eq)
  qed
  moreover have "entries_stored D name (set (schema_ref t')) (set (indexes t'))"
    using assms(1,3,4) unfolding catalog_rep_def entries_stored_def by blast
  ultimately show ?thesis using assms(1,2,6) unfolding catalog_rep_def by simp
qed

lemma same_tableE:
  assumes "same_table a b"
  obtains x where "a = b\<lparr> primary_key_type := x \<rparr>" "primary_type a = primary_type b"
proof -
  have "a = b\<lparr> primary_key_type := primary_key_type a \<rparr>" using assms unfolding same_table_def by (cases a; cases b) simp
  with that assms show ?thesis unfolding same_table_def by blast
qed

lemma add_index_meta_Ok:
  assumes "add_index_meta t u name column_ids ty = Ok (t', m)"
  shows "\<exists>i value_ty. next_index_id (indexes t) = Ok i \<and> name \<notin> im_name ` set (indexes t) \<and>
    m = \<lparr> im_id = i, im_column_ids = column_ids, im_table_name = tc_name t, im_pk_ty = primary_type t,
      im_value_ty = value_ty, im_name = name, im_ty = ty \<rparr> \<and>
    t' = t\<lparr> primary_key_type := Some (primary_type t), indexes := indexes t @ [m] \<rparr>"
  using assms by (auto simp: add_index_meta_def Let_def res_bind_Ok_iff split: if_splits)

lemma add_index_meta_same:
  assumes "same_table a b"
  shows "map_res snd (add_index_meta a u name column_ids ty) = map_res snd (add_index_meta b u name column_ids ty)"
proof -
  obtain x where x: "a = b\<lparr> primary_key_type := x \<rparr>" "primary_type a = primary_type b" using assms by (rule same_tableE)
  have "column_at a = column_at b" unfolding x(1) by (simp add: fun_eq_iff column_at_def)
  moreover have "column_positions a = column_positions b" by (simp add: x(1))
  ultimately have "index_column_type a u = index_column_type b u"
    by (simp add: fun_eq_iff index_column_type_def get_column_by_id_def split: option.split)
  then show ?thesis unfolding add_index_meta_def Let_def x(2)
    by (cases "next_index_id (indexes b)"; cases "res_map (index_column_type b u) column_ids") (simp_all add: x(1))
qed

lemma add_index_refines:
  assumes "rocks_laws (rocks D) c" "loaded D c name t st" "ddl_fits D name (AddIndex index_name column_ids ty) t"
  shows "\<exists>st'. run_ddl D name (AddIndex index_name column_ids ty) st =
      (map_res (\<lambda>_. ()) (spec_ddl D (AddIndex index_name column_ids ty) t), st') \<and>
    loaded D c name (case spec_ddl D (AddIndex index_name column_ids ty) t of Inl e \<Rightarrow> t | Inr t' \<Rightarrow> t') st'"
proof -
  obtain t1 s1 where t1: "table D name st = (Ok (Some t1), st\<lparr> table_cache := s1 \<rparr>)" "same_table t1 t"
    "loaded D c name t (st\<lparr> table_cache := s1 \<rparr>)" using loaded_table [OF assms(1,2)] by blast
  note same = add_index_meta_same [OF t1(2), of "ulid_text D" index_name column_ids ty]
  show ?thesis
  proof (cases "add_index_meta t (ulid_text D) index_name column_ids ty")
    case (Inl e)
    with same have "add_index_meta t1 (ulid_text D) index_name column_ids ty = Err e"
      by (cases "add_index_meta t1 (ulid_text D) index_name column_ids ty") auto
    with Inl t1 show ?thesis by (simp add: tx_add_index_meta_def op_simps)
  next
    case (Inr r)
    then obtain t2 m where t2: "add_index_meta t (ulid_text D) index_name column_ids ty = Ok (t2, m)" by (cases r) auto
    with same obtain t3 where t3: "add_index_meta t1 (ulid_text D) index_name column_ids ty = Ok (t3, m)"
      by (cases "add_index_meta t1 (ulid_text D) index_name column_ids ty") auto
    have rep: "catalog_rep D c name t st" using assms(2) by (simp add: loaded_def)
    then have name: "tc_name t = name" "lists_sorted name (schema_ref t) (indexes t)"
      using catalog_lists by (auto simp: catalog_rep_def catalog_sorted_def)
    obtain i value_ty where m: "next_index_id (indexes t) = Ok i" "index_name \<notin> im_name ` set (indexes t)"
      "m = \<lparr> im_id = i, im_column_ids = column_ids, im_table_name = tc_name t, im_pk_ty = primary_type t,
        im_value_ty = value_ty, im_name = index_name, im_ty = ty \<rparr>"
      "t2 = t\<lparr> primary_key_type := Some (primary_type t), indexes := indexes t @ [m] \<rparr>"
      using add_index_meta_Ok [OF t2] by blast
    have spec: "spec_ddl D (AddIndex index_name column_ids ty) t = Ok (reloaded t2)" using t2 by simp
    have fields: "tc_name t2 = name" "schema_ref t2 = schema_ref t" "indexes t2 = indexes t @ [m]" using m(4) name(1) by simp_all
    then have re: "schema_ref (reloaded t2) = schema_ref t" "indexes (reloaded t2) = indexes t @ [m]"
      using reload_fields [of name t2 "indexes t"] name(2) by simp_all
    then have fits: "im_id m < 256" "entries_stored D name (set (schema_ref t)) (insert m (set (indexes t)))"
      using assms(3) spec by (auto simp: ddl_fits_def)
    have "lists_sorted name (schema_ref t) (indexes t @ [m])"
    proof (rule lists_sorted_snoc_meta [OF name(2)])
      show "\<forall>old\<in>set (indexes t). im_id old < im_id m"
        using next_index_id_greater [OF m(1)] name(2) by (simp add: m(3) lists_sorted_def)
    qed (use m(2) name(1) fits(1) in \<open>simp_all add: m(3)\<close>)
    then have sorted: "catalog_sorted name (reloaded t2)" using reloaded_sorted(1) [of t2] fields by simp
    obtain b where "serialize_index_meta D m = Ok b" using fits(2) by (auto simp: entries_stored_def)
    then obtain st2 where st2: "put_index_meta D name m (st\<lparr> table_cache := s1 \<rparr>) = (Ok (), st2)"
      "held c st2 = (held c st)(fst (meta_entry D name m) \<mapsto> snd (meta_entry D name m))" "same_caches (st\<lparr> table_cache := s1 \<rparr>) st2"
      using put_index_meta_held [OF assms(1), of m _ name "st\<lparr> table_cache := s1 \<rparr>"] by auto
    have "catalog_rep D c name (reloaded t2) st2"
      using catalog_rep_update [OF rep sorted _ _ st2(2)] re fits(2) by (simp add: catalog_entries_def)
    moreover have "caches_ok st2" using loaded_caches [OF t1(3)] st2(3) by (rule caches_ok_same [rotated])
    ultimately obtain st3 where "forget_table name st2 = (Ok (), st3)" "loaded D c name (reloaded t2) st3"
      using forget_table_loaded by blast
    with t1(1) t3 st2(1) spec show ?thesis
      by (simp add: tx_add_index_meta_def op_simps del: spec_ddl.simps)
  qed
qed

lemma table_index_disjoint:
  assumes "within k (table_bound sp name)"
  shows "\<not> within k (index_bound sp name i)" "k \<noteq> encode_statistics_path_key sp name i"
proof -
  have "k \<le> key_prefix sp CIndexMeta name @ [BOUND_MAX_TAG]" using assms by (simp add: within_def table_bound_def)
  also have "\<dots> < key_prefix sp CIndex name @ x" for x
    by (simp add: key_prefix_def Let_def append_less_iff)
  finally have "k < key_prefix sp CIndex name @ x" for x .
  moreover have "key_prefix sp CIndex name @ x < key_prefix sp CStatistics name @ y" for x y
    by (simp add: key_prefix_def Let_def append_less_iff)
  ultimately show "\<not> within k (index_bound sp name i)" "k \<noteq> encode_statistics_path_key sp name i"
    by (auto simp: within_def index_bound_def both_bounds_def encode_statistics_path_key_def not_le)
      (metis less_asym)
qed

lemma drop_index_data:
  assumes "rocks_laws (rocks D) c"
  shows "\<exists>st'. drop_range D (index_bound (sip D) name i) st = (Ok (), st') \<and> same_caches st st' \<and>
    (\<forall>k. within k (table_bound (sip D) name) \<longrightarrow> held c st' k = held c st k)"
proof -
  let ?p = "key_prefix (sip D) CIndex name @ [BOUND_MIN_TAG] @ le_bytes 4 (unat i)"
  have "4 \<le> length ?p" by (simp add: length_key_prefix)
  from drop_range_held [OF assms this, of st] obtain st' where "drop_range D (index_bound (sip D) name i) st = (Ok (), st')"
    "held c st' = held c st |` {k. \<not> within k (index_bound (sip D) name i)}" "same_caches st st'"
    by (auto simp: index_bound_def)
  then show ?thesis by (auto simp: restrict_map_def table_index_disjoint)
qed

text \<open>The key of an index description determines the index among those of a table.\<close>

lemma meta_key_inject:
  assumes "catalog_sorted name t" "m \<in> set (indexes t)" "e \<in> set (catalog_entries D name t)"
  shows "fst e = encode_index_meta_key (sip D) name (im_id m) \<longleftrightarrow> e = meta_entry D name m"
proof
  assume "fst e = encode_index_meta_key (sip D) name (im_id m)"
  moreover have "meta_entry D name m \<in> set (catalog_entries D name t)" using assms(2) by (simp add: catalog_entries_def)
  ultimately show "e = meta_entry D name m"
    using assms(3) catalog_entries_distinct [OF assms(1), of D] by (metis eq_key_imp_eq_value fst_conv meta_entry_def prod.collapse)
qed (simp add: meta_entry_def)

lemma le_bytes_word:
  assumes "le_bytes 4 (unat a) = le_bytes 4 (unat (b :: 32 word))"
  shows "a = b"
proof -
  have "unat w < 256 ^ 4" for w :: "32 word" using unsigned_less [of w] by (rule order.strict_trans2) simp
  then have "le_nat (le_bytes 4 (unat w)) = unat w" for w :: "32 word" by (simp add: le_nat_le_bytes del: le_bytes.simps)
  with assms show ?thesis by (metis unsigned_word_eqI)
qed

lemma meta_entry_id:
  assumes "catalog_sorted name t" "m \<in> set (indexes t)" "m' \<in> set (indexes t)"
  shows "meta_entry D name m' = meta_entry D name m \<longleftrightarrow> im_id m' = im_id m"
proof
  assume "meta_entry D name m' = meta_entry D name m"
  then have "le_bytes 4 (unat (im_id m')) = le_bytes 4 (unat (im_id m))" by (simp add: meta_entry_def encode_index_meta_key_def)
  then show "im_id m' = im_id m" by (rule le_bytes_word)
next
  assume "im_id m' = im_id m"
  moreover have "distinct (map im_id (indexes t))" using assms(1) by (simp add: catalog_sorted_def indexes_wf_def strict_sorted_iff)
  ultimately have "m' = m" using assms(2,3) by (metis distinct_map inj_onD)
  then show "meta_entry D name m' = meta_entry D name m" by simp
qed

lemma image_remove: "\<forall>x\<in>S. f x = f m \<longleftrightarrow> g x = g m \<Longrightarrow> f ` {x \<in> S. g x \<noteq> g m} = f ` S - {f m}"
  by (auto simp: image_iff)

lemma drop_index_entries:
  assumes "catalog_sorted name t" "m \<in> set (indexes t)"
    and "schema_ref t' = schema_ref t" "indexes t' = filter (\<lambda>x. im_id x \<noteq> im_id m) (indexes t)"
  shows "set (catalog_entries D name t') =
    {e \<in> set (catalog_entries D name t). fst e \<notin> {encode_index_meta_key (sip D) name (im_id m)}}"
proof -
  have "meta_entry D name ` {x \<in> set (indexes t). im_id x \<noteq> im_id m} = meta_entry D name ` set (indexes t) - {meta_entry D name m}"
    by (rule image_remove) (use meta_entry_id [OF assms(1,2)] in blast)
  moreover have "meta_entry D name m \<notin> column_entry D name ` set (schema_ref t)"
    using column_before_meta [of "sip D" name _ "im_id m"] by (force simp: column_entry_def meta_entry_def)
  ultimately have "set (catalog_entries D name t') = set (catalog_entries D name t) - {meta_entry D name m}"
    by (simp add: catalog_entries_def assms(3,4) Un_Diff)
  then show ?thesis using meta_key_inject [OF assms(1,2), of _ D] by auto
qed

lemma drop_index_writes:
  assumes "rocks_laws (rocks D) c" "loaded D c name t st" "m \<in> set (indexes t)"
  shows "\<exists>a b d st'. tx_remove D (encode_index_meta_key (sip D) name (im_id m)) st = (Ok (), a) \<and>
    drop_range D (index_bound (sip D) name (im_id m)) a = (Ok (), b) \<and>
    tx_remove D (encode_statistics_path_key (sip D) name (im_id m)) b = (Ok (), d) \<and> forget_table name d = (Ok (), st') \<and>
    loaded D c name (reloaded (t\<lparr> indexes := filter (\<lambda>x. im_id x \<noteq> im_id m) (indexes t) \<rparr>)) st'"
proof -
  let ?t = "t\<lparr> indexes := filter (\<lambda>x. im_id x \<noteq> im_id m) (indexes t) \<rparr>"
  have rep: "catalog_rep D c name t st" using assms(2) by (simp add: loaded_def)
  then have s: "catalog_sorted name t" "tc_name t = name" by (simp_all add: catalog_rep_def catalog_sorted_def)
  note lists = catalog_lists [OF s(1)]
  have "lists_sorted name (schema_ref t) (filter (\<lambda>x. im_id x \<noteq> im_id m) (indexes t))"
    using lists_sorted_filter [OF lists, of "\<lambda>_. True"] lists by (simp add: lists_sorted_def)
  then have re: "catalog_sorted name (reloaded ?t)" "schema_ref (reloaded ?t) = schema_ref t"
    "indexes (reloaded ?t) = filter (\<lambda>x. im_id x \<noteq> im_id m) (indexes t)"
    using reloaded_sorted [of ?t] s(2) by simp_all
  let ?k = "encode_index_meta_key (sip D) name (im_id m)"
  obtain a where a: "tx_remove D ?k st = (Ok (), a)" "held c a = (held c st)(?k := None)" "same_caches st a"
    using tx_remove_held [OF assms(1)] by blast
  obtain b where b: "drop_range D (index_bound (sip D) name (im_id m)) a = (Ok (), b)" "same_caches a b"
    "\<forall>k. within k (table_bound (sip D) name) \<longrightarrow> held c b k = held c a k" using drop_index_data [OF assms(1)] by blast
  obtain d where d: "tx_remove D (encode_statistics_path_key (sip D) name (im_id m)) b = (Ok (), d)" "same_caches b d"
    "held c d = (held c b)(encode_statistics_path_key (sip D) name (im_id m) := None)" using tx_remove_held [OF assms(1)] by blast
  have "catalog_rep D c name (reloaded ?t) d"
  proof (rule catalog_rep_remove [OF rep re(1), where X = "{?k}"])
    show "set (catalog_entries D name (reloaded ?t)) = {e \<in> set (catalog_entries D name t). fst e \<notin> {?k}}"
      by (rule drop_index_entries [OF s(1) assms(3) re(2,3)])
    show "held c d k = (if k \<in> {?k} then None else held c st k)" if "within k (table_bound (sip D) name)" for k
      using that a(2) b(3) d(3) table_index_disjoint [OF that] by simp
  qed (auto simp: re)
  moreover have "caches_ok d" using loaded_caches [OF assms(2)] a(3) b(2) d(2) caches_ok_same by blast
  ultimately show ?thesis using forget_table_loaded a(1) b(1) d(1) by blast
qed

lemma drop_index_refines:
  assumes "rocks_laws (rocks D) c" "loaded D c name t st" "ddl_fits D name (DropIndex index_name if_exists) t"
  shows "\<exists>st'. run_ddl D name (DropIndex index_name if_exists) st =
      (map_res (\<lambda>_. ()) (spec_ddl D (DropIndex index_name if_exists) t), st') \<and>
    loaded D c name (case spec_ddl D (DropIndex index_name if_exists) t of Inl e \<Rightarrow> t | Inr t' \<Rightarrow> t') st'"
proof -
  obtain t1 s1 where t1: "table D name st = (Ok (Some t1), st\<lparr> table_cache := s1 \<rparr>)" "same_table t1 t"
    "loaded D c name t (st\<lparr> table_cache := s1 \<rparr>)" using loaded_table [OF assms(1,2)] by blast
  then have ix: "indexes t1 = indexes t" by (elim same_tableE) simp
  show ?thesis
  proof (cases "\<exists>m. find (\<lambda>m. im_name m = index_name) (indexes t) = Some m \<and> \<not> (is_primary_index (im_ty m) \<or> im_ty m = Unique)")
    case False
    then show ?thesis using t1(1,3) ix by (auto simp: drop_index_def op_simps split: option.split)
  next
    case True
    then obtain m where m: "find (\<lambda>m. im_name m = index_name) (indexes t) = Some m" "\<not> is_primary_index (im_ty m)" "im_ty m \<noteq> Unique"
      by blast
    then have "m \<in> set (indexes t)" by (auto simp: find_Some_iff)
    from drop_index_writes [OF assms(1) t1(3) this] t1(1) ix m show ?thesis by (auto simp: drop_index_def op_simps)
  qed
qed

lemma put_column_held:
  assumes "rocks_laws (rocks D) c" "serialize_column D col = Ok b" "relation (summary col) = TableRelation col_id name False"
  shows "\<exists>st'. put_column D col st = (Ok (), st') \<and> held c st' = (held c st)(fst (column_entry D name col) \<mapsto> snd (column_entry D name col)) \<and>
    same_caches st st'"
  using tx_set_held [OF assms(1)] assms(2,3)
  by (simp add: put_column_def encode_column_def op_simps column_entry_def column_id_of_def)

text \<open>Writing an entry that comes last among the indexes or the columns.\<close>

lemma put_meta_rep:
  assumes "rocks_laws (rocks D) c" "catalog_rep D c name t st" "lists_sorted name (schema_ref t) (indexes t @ [m])"
    and "serialize_index_meta D m = Ok b" "deserialize_index_meta D b = Ok m"
  shows "\<exists>st'. put_index_meta D name m st = (Ok (), st') \<and> same_caches st st' \<and>
    catalog_rep D c name (reloaded (t\<lparr> indexes := indexes t @ [m] \<rparr>)) st'"
proof -
  let ?t = "t\<lparr> indexes := indexes t @ [m] \<rparr>"
  have name: "tc_name t = name" using assms(2) by (simp add: catalog_rep_def catalog_sorted_def)
  with assms(3) have re: "catalog_sorted name (reloaded ?t)" "schema_ref (reloaded ?t) = schema_ref t" "indexes (reloaded ?t) = indexes t @ [m]"
    using reloaded_sorted [of ?t] by simp_all
  obtain st' where st': "put_index_meta D name m st = (Ok (), st')" "same_caches st st'"
    "held c st' = (held c st)(fst (meta_entry D name m) \<mapsto> snd (meta_entry D name m))"
    using put_index_meta_held [OF assms(1,4)] by blast
  have "entries_stored D name (set (schema_ref t)) (insert m (set (indexes t)))"
    using assms(2,4,5) by (simp add: catalog_rep_def entries_stored_def)
  then have "catalog_rep D c name (reloaded ?t) st'"
    using catalog_rep_update [OF assms(2) re(1) _ _ st'(3)] re by (simp add: catalog_entries_def)
  with st' show ?thesis by blast
qed

lemma put_column_rep:
  assumes "rocks_laws (rocks D) c" "catalog_rep D c name t st" "lists_sorted name (schema_ref t @ [col]) (indexes t)"
    and "serialize_column D col = Ok b" "deserialize_column D name b = Ok col"
  shows "\<exists>st'. put_column D col st = (Ok (), st') \<and> same_caches st st' \<and>
    catalog_rep D c name (reloaded (t\<lparr> schema_ref := schema_ref t @ [col] \<rparr>)) st'"
proof -
  let ?t = "t\<lparr> schema_ref := schema_ref t @ [col] \<rparr>"
  have name: "tc_name t = name" using assms(2) by (simp add: catalog_rep_def catalog_sorted_def)
  with assms(3) have re: "catalog_sorted name (reloaded ?t)" "schema_ref (reloaded ?t) = schema_ref t @ [col]" "indexes (reloaded ?t) = indexes t"
    using reloaded_sorted [of ?t] by simp_all
  obtain col_id where "relation (summary col) = TableRelation col_id name False" using assms(3) by (auto simp: lists_sorted_def)
  then obtain st' where st': "put_column D col st = (Ok (), st')" "same_caches st st'"
    "held c st' = (held c st)(fst (column_entry D name col) \<mapsto> snd (column_entry D name col))"
    using put_column_held [OF assms(1,4)] by blast
  have "entries_stored D name (insert col (set (schema_ref t))) (set (indexes t))"
    using assms(2,4,5) by (simp add: catalog_rep_def entries_stored_def)
  then have "catalog_rep D c name (reloaded ?t) st'"
    using catalog_rep_update [OF assms(2) re(1) _ _ st'(3)] re by (simp add: catalog_entries_def)
  with st' show ?thesis by blast
qed

lemma catalog_reloaded: "catalog_sorted name t \<Longrightarrow> reloaded t = t"
  using reload_wf [of t] by (cases t) (simp add: catalog_sorted_def reloaded_def)

lemma reloaded_eqI:
  "tc_name a = tc_name b \<Longrightarrow> schema_ref a = schema_ref b \<Longrightarrow> indexes a = indexes b \<Longrightarrow> reloaded a = reloaded b"
  by (simp add: reloaded_def)

lemma tc_name_reloaded: "lists_sorted (tc_name t) (schema_ref t) (indexes t) \<Longrightarrow> tc_name (reloaded t) = tc_name t"
  using reloaded_sorted(1) by (auto simp: catalog_sorted_def)

lemma primary_type_cong:
  "primary_key_type a = primary_key_type b \<Longrightarrow> primary_keys a = primary_keys b \<Longrightarrow> primary_type a = primary_type b"
  unfolding primary_type_def by (simp only:)

lemma add_column_fresh:
  assumes "catalog_wf t" "column_name (summary col) \<notin> (column_name \<circ> summary) ` set (schema_ref t)" "same_table t1 t"
  shows "\<exists>t2 t3. add_column t col (Some col_id) = Ok (t2, col_id) \<and> add_column t1 col (Some col_id) = Ok (t3, col_id) \<and> same_table t3 t2 \<and>
    tc_name t2 = tc_name t \<and> indexes t2 = indexes t \<and> schema_ref t2 = schema_ref t @ [with_relation col col_id (tc_name t)] \<and>
    (\<forall>x ms. get_column_by_id (t3\<lparr> primary_key_type := x, indexes := ms \<rparr>) col_id = Ok (Some (with_relation col col_id (tc_name t))))"
proof -
  obtain x where x: "t1 = t\<lparr> primary_key_type := x \<rparr>" "primary_type t1 = primary_type t" using assms(3) by (rule same_tableE)
  have "Mapping.lookup (column_idxs t) (column_name (summary col)) = None"
  proof (rule ccontr)
    assume "Mapping.lookup (column_idxs t) (column_name (summary col)) \<noteq> None"
    then obtain i d where "Mapping.lookup (column_idxs t) (column_name (summary col)) = Some (d, i)" by auto
    with assms(1) have "i < length (schema_ref t)" "column_name (summary (schema_ref t ! i)) = column_name (summary col)"
      by (auto simp: catalog_wf_def covers_def)
    with assms(2) show False using nth_mem [of i "schema_ref t"] by (metis comp_apply image_eqI)
  qed
  then obtain t2 t3 where ts: "add_column t col (Some col_id) = Ok (t2, col_id)" "add_column t1 col (Some col_id) = Ok (t3, col_id)"
    by (simp add: add_column_def Let_def contains_column_def x(1))
  note t2 = add_column_Ok(3) [OF ts(1)] and t3 = add_column_Ok(3) [OF ts(2)]
  have "primary_type t3 = primary_type t1" "primary_type t2 = primary_type t"
    by (rule primary_type_cong; simp add: t2 t3)+
  then have "same_table t3 t2" using x by (simp add: same_table_def t2 t3)
  moreover have "tc_name t2 = tc_name t" "indexes t2 = indexes t" "schema_ref t2 = schema_ref t @ [with_relation col col_id (tc_name t)]"
    by (simp_all add: t2)
  moreover have "get_column_by_id (t3\<lparr> primary_key_type := y, indexes := ms \<rparr>) col_id = Ok (Some (with_relation col col_id (tc_name t)))" for y ms
    by (simp add: t3 x(1) get_column_by_id_def column_at_def lookup_update)
  ultimately show ?thesis using ts by blast
qed

text \<open>The part of \<open>tx_add_column\<close> that writes.\<close>

lemma add_column_writes:
  assumes "rocks_laws (rocks D) c" "catalog_rep D c name t st" "caches_ok st"
    and "lists_sorted name (schema_ref t @ [col]) (indexes t @ ms)" "length ms \<le> 1"
    and "entries_stored D name {col} (set ms)"
  shows "\<exists>st1 st2 st'. op_each (put_index_meta D name) ms st = (Ok (), st1) \<and> put_column D col st1 = (Ok (), st2) \<and>
    forget_table name st2 = (Ok (), st') \<and> loaded D c name (reloaded (t\<lparr> schema_ref := schema_ref t @ [col], indexes := indexes t @ ms \<rparr>)) st'"
proof -
  let ?t = "t\<lparr> indexes := indexes t @ ms \<rparr>"
  have name: "tc_name t = name" "catalog_sorted name t" using assms(2) by (simp_all add: catalog_rep_def catalog_sorted_def)
  have lists: "lists_sorted name (schema_ref t) (indexes t @ ms)"
    using assms(4) catalog_lists [OF name(2)] by (simp add: lists_sorted_def sorted_wrt_append)
  have "\<exists>st1. op_each (put_index_meta D name) ms st = (Ok (), st1) \<and> same_caches st st1 \<and> catalog_rep D c name (reloaded ?t) st1"
  proof (cases ms)
    case Nil
    have "reloaded t = t" using catalog_reloaded [OF name(2)] .
    with Nil assms(2) show ?thesis by (simp add: op_simps)
  next
    case (Cons m ms')
    with assms(5) have ms: "ms = [m]" by simp
    then obtain b where b: "serialize_index_meta D m = Ok b" "deserialize_index_meta D b = Ok m"
      using assms(6) by (auto simp: entries_stored_def)
    from put_meta_rep [OF assms(1,2) lists [unfolded ms] b] obtain st1 where "put_index_meta D name m st = (Ok (), st1)" "same_caches st st1"
      "catalog_rep D c name (reloaded (t\<lparr> indexes := indexes t @ [m] \<rparr>)) st1" by blast
    then show ?thesis unfolding ms by (intro exI [of _ st1]) (simp add: op_simps)
  qed
  then obtain st1 where st1: "op_each (put_index_meta D name) ms st = (Ok (), st1)" "same_caches st st1" "catalog_rep D c name (reloaded ?t) st1"
    by blast
  have re: "schema_ref (reloaded ?t) = schema_ref t" "indexes (reloaded ?t) = indexes t @ ms" "tc_name (reloaded ?t) = name"
    using reloaded_sorted [of ?t] tc_name_reloaded [of ?t] lists name by simp_all
  obtain b where b: "serialize_column D col = Ok b" "deserialize_column D name b = Ok col" using assms(6) by (auto simp: entries_stored_def)
  have "lists_sorted name (schema_ref (reloaded ?t) @ [col]) (indexes (reloaded ?t))" using assms(4) re by simp
  from put_column_rep [OF assms(1) st1(3) this b] obtain st2 where st2: "put_column D col st1 = (Ok (), st2)" "same_caches st1 st2"
    "catalog_rep D c name (reloaded ((reloaded ?t)\<lparr> schema_ref := schema_ref t @ [col] \<rparr>)) st2" unfolding re by blast
  have "reloaded ((reloaded ?t)\<lparr> schema_ref := schema_ref t @ [col] \<rparr>) = reloaded (t\<lparr> schema_ref := schema_ref t @ [col], indexes := indexes t @ ms \<rparr>)"
    by (rule reloaded_eqI) (simp_all add: re name)
  with st2(3) have "catalog_rep D c name (reloaded (t\<lparr> schema_ref := schema_ref t @ [col], indexes := indexes t @ ms \<rparr>)) st2" by simp
  moreover have "caches_ok st2" using assms(3) st1(2) st2(2) caches_ok_same by blast
  ultimately obtain st3 where "forget_table name st2 = (Ok (), st3)"
    "loaded D c name (reloaded (t\<lparr> schema_ref := schema_ref t @ [col], indexes := indexes t @ ms \<rparr>)) st3"
    using forget_table_loaded by blast
  with st1(1) st2(1) show ?thesis by blast
qed

text \<open>What a new column with a fresh name gives, on the stored catalogue and on the cached one.\<close>

lemma add_column_facts:
  assumes "loaded D c name t st" "same_table t1 t" "\<forall>c\<in>set (schema_ref t). the (column_id_of c) < col_id"
    and "column_name (summary col) \<notin> (column_name \<circ> summary) ` set (schema_ref t)"
  shows "tc_name t = name \<and> schema_ref t1 = schema_ref t \<and> find (\<lambda>c. column_name (summary c) = column_name (summary col)) (schema_ref t) = None \<and>
    lists_sorted name (schema_ref t @ [with_relation col col_id name]) (indexes t) \<and>
    (\<exists>t2 t3. add_column t col (Some col_id) = Ok (t2, col_id) \<and> add_column t1 col (Some col_id) = Ok (t3, col_id) \<and> same_table t3 t2 \<and>
      tc_name t2 = tc_name t \<and> indexes t2 = indexes t \<and> schema_ref t2 = schema_ref t @ [with_relation col col_id name] \<and>
      (\<forall>x ms. get_column_by_id (t3\<lparr> primary_key_type := x, indexes := ms \<rparr>) col_id = Ok (Some (with_relation col col_id name))))"
proof -
  have wf: "catalog_wf t" "tc_name t = name" "lists_sorted name (schema_ref t) (indexes t)"
    using assms(1) catalog_lists by (auto simp: loaded_def catalog_rep_def catalog_sorted_def)
  have "schema_ref t1 = schema_ref t" using assms(2) by (elim same_tableE) simp
  moreover have "find (\<lambda>c. column_name (summary c) = column_name (summary col)) (schema_ref t) = None"
    using assms(4) by (auto simp: find_None_iff image_iff)
  moreover note lists_sorted_snoc_column [OF wf(3) assms(3,4)] add_column_fresh [OF wf(1) assms(4,2), of col_id]
  ultimately show ?thesis using wf(2) by blast
qed

lemma add_column_start:
  assumes "table D name st = (Ok (Some t1), st1)"
  shows "tx_add_column D name col if_not_exists generated st =
    op_bind (op_res (if nullable col then Ok (Some Null) else default_value (expr_env D) col)) (\<lambda>default.
      if default = None then op_fail NeedNullAbleOrDefault
      else case find (\<lambda>c. column_name (summary c) = column_name (summary col)) (schema_ref t1) of
        Some c \<Rightarrow>
          if if_not_exists then op_res (of_option Panic (column_id_of c))
          else op_fail (DuplicateColumn (column_name (summary col)))
      | None \<Rightarrow>
          op_bind (op_res (add_column t1 col generated)) (\<lambda>(t2, col_id).
            op_bind
              (if is_unique (desc col)
               then op_bind (op_res (add_index_meta t2 (ulid_text D) (ascii ''uk_'' @ column_name (summary col)) [col_id] Unique))
                 (\<lambda>(t2, m). op_seq (put_index_meta D name m) (op_return t2))
               else op_return t2) (\<lambda>t3.
            op_bind (op_res (get_column_by_id t3 col_id)) (\<lambda>c.
            op_bind (op_res (of_option Panic c)) (\<lambda>stored_col.
            op_seq (put_column D stored_col) (op_seq (forget_table name) (op_return col_id))))))) st1"
  using assms by (cases "nullable col") (simp_all add: tx_add_column_def op_bind_def op_return_def op_res_def)

lemma add_column_plain:
  assumes "rocks_laws (rocks D) c" "table D name st = (Ok (Some t1), st1)" "same_table t1 t" "loaded D c name t st1"
    and "ddl_fits D name (AddColumn col if_not_exists (Some col_id)) t" "\<not> is_unique (desc col)"
    and "(if nullable col then Ok (Some Null) else default_value (expr_env D) col) = Ok (Some d)"
    and "column_name (summary col) \<notin> (column_name \<circ> summary) ` set (schema_ref t)"
  shows "\<exists>st' t'. run_ddl D name (AddColumn col if_not_exists (Some col_id)) st = (Ok (), st') \<and>
    spec_ddl D (AddColumn col if_not_exists (Some col_id)) t = Ok t' \<and> loaded D c name t' st'"
proof -
  let ?col = "with_relation col col_id name"
  have "\<forall>c\<in>set (schema_ref t). the (column_id_of c) < col_id" using assms(5) by (auto simp: ddl_fits_def)
  from add_column_facts [OF assms(4,3) this assms(8)] obtain t2 t3 where
    base: "tc_name t = name" "schema_ref t1 = schema_ref t" "find (\<lambda>c. column_name (summary c) = column_name (summary col)) (schema_ref t) = None"
    and lists: "lists_sorted name (schema_ref t @ [?col]) (indexes t)"
    and ts: "add_column t col (Some col_id) = Ok (t2, col_id)" "add_column t1 col (Some col_id) = Ok (t3, col_id)"
      "tc_name t2 = tc_name t" "indexes t2 = indexes t" "schema_ref t2 = schema_ref t @ [?col]"
      "\<forall>x ms. get_column_by_id (t3\<lparr> primary_key_type := x, indexes := ms \<rparr>) col_id = Ok (Some ?col)" by blast
  have sp: "spec_ddl D (AddColumn col if_not_exists (Some col_id)) t = Ok (reloaded t2)" using assms(6,8) ts(1) by (simp add: assms(7))
  have re: "reloaded t2 = reloaded (t\<lparr> schema_ref := schema_ref t @ [?col], indexes := indexes t @ [] \<rparr>)"
    by (rule reloaded_eqI) (simp_all add: ts)
  have "entries_stored D name {?col} (set [])"
    using assms(5) sp reload_fields [of name t2] lists ts(3-5) base(1) by (auto simp: ddl_fits_def entries_stored_def)
  moreover have "catalog_rep D c name t st1" "caches_ok st1" using assms(4) loaded_caches [OF assms(4)] by (simp_all add: loaded_def)
  ultimately obtain st2 st' where st': "put_column D ?col st1 = (Ok (), st2)"
    "forget_table name st2 = (Ok (), st')" "loaded D c name (reloaded t2) st'"
    unfolding re using add_column_writes [OF assms(1), of name t st1 ?col "[]"] lists by (auto simp: op_return_def)
  have "get_column_by_id (t3\<lparr> primary_key_type := primary_key_type t3, indexes := indexes t3 \<rparr>) col_id = Ok (Some ?col)"
    using ts(6) by blast
  then have "get_column_by_id t3 col_id = Ok (Some ?col)" by simp
  with st' have "run_ddl D name (AddColumn col if_not_exists (Some col_id)) st = (Ok (), st')" using assms(6)
    by (simp add: add_column_start [OF assms(2)] assms(7) base ts(2) of_option_def op_simps op_bind_def)
  with sp st'(3) show ?thesis by blast
qed

lemma add_unique_writes:
  fixes t :: "'d table_catalog"
  assumes "rocks_laws (rocks D) c" "loaded D c name t st1" "ddl_fits D name p t" "spec_ddl D p t = Ok (reloaded t4)"
    and "lists_sorted name (schema_ref t @ [col]) (indexes t)"
    and "tc_name t2 = tc_name t" "indexes t2 = indexes t" "schema_ref t2 = schema_ref t @ [col]"
    and "add_index_meta t2 (ulid_text D) uk [col_id] Unique = Ok (t4, m)"
  shows "\<exists>st2 st3 st'. put_index_meta D name m st1 = (Ok (), st2) \<and> put_column D col st2 = (Ok (), st3) \<and>
    forget_table name st3 = (Ok (), st') \<and> loaded D c name (reloaded t4) st'"
proof -
  have rep: "catalog_rep D c name t st1" "caches_ok st1" "tc_name t = name"
    using assms(2) loaded_caches [OF assms(2)] by (simp_all add: loaded_def catalog_rep_def catalog_sorted_def)
  obtain i ty where m: "next_index_id (indexes t2) = Ok i" "uk \<notin> im_name ` set (indexes t2)"
    "m = \<lparr> im_id = i, im_column_ids = [col_id], im_table_name = tc_name t2, im_pk_ty = primary_type t2,
      im_value_ty = ty, im_name = uk, im_ty = Unique \<rparr>"
    "t4 = t2\<lparr> primary_key_type := Some (primary_type t2), indexes := indexes t2 @ [m] \<rparr>"
    using add_index_meta_Ok [OF assms(9)] by blast
  have re: "reloaded t4 = reloaded (t\<lparr> schema_ref := schema_ref t @ [col], indexes := indexes t @ [m] \<rparr>)"
    by (rule reloaded_eqI) (simp_all add: assms(6-8) m(4))
  have "schema_ref (reloaded t4) = schema_ref t @ [col]" "indexes (reloaded t4) = indexes t @ [m]"
    using reload_fields [of name t4 "indexes t"] assms(5-8) rep(3) by (simp_all add: m(4))
  then have fits: "im_id m < 256" "entries_stored D name {col} (set [m])"
    using assms(3,4) by (auto simp: ddl_fits_def entries_stored_def)
  have "lists_sorted name (schema_ref t @ [col]) (indexes t @ [m])"
  proof (rule lists_sorted_snoc_meta [OF assms(5)])
    show "\<forall>old\<in>set (indexes t). im_id old < im_id m"
      using next_index_id_greater [OF m(1)] assms(5) by (simp add: m(3) assms(7) lists_sorted_def)
  qed (use m(2) assms(6,7) rep(3) fits(1) in \<open>simp_all add: m(3)\<close>)
  from add_column_writes [OF assms(1) rep(1,2) this _ fits(2)] obtain st2 st3 st' where
    "op_each (put_index_meta D name) [m] st1 = (Ok (), st2)" "put_column D col st2 = (Ok (), st3)"
    "forget_table name st3 = (Ok (), st')" "loaded D c name (reloaded t4) st'" unfolding re by auto
  then show ?thesis by (auto simp: op_bind_Ok op_return_def)
qed

lemma add_column_unique:
  assumes "rocks_laws (rocks D) c" "table D name st = (Ok (Some t1), st1)" "same_table t1 t" "loaded D c name t st1"
    and "ddl_fits D name (AddColumn col if_not_exists (Some col_id)) t" "is_unique (desc col)"
    and "(if nullable col then Ok (Some Null) else default_value (expr_env D) col) = Ok (Some d)"
    and "column_name (summary col) \<notin> (column_name \<circ> summary) ` set (schema_ref t)"
  shows "\<exists>st'. run_ddl D name (AddColumn col if_not_exists (Some col_id)) st =
      (map_res (\<lambda>_. ()) (spec_ddl D (AddColumn col if_not_exists (Some col_id)) t), st') \<and>
    loaded D c name (case spec_ddl D (AddColumn col if_not_exists (Some col_id)) t of Inl e \<Rightarrow> t | Inr t' \<Rightarrow> t') st'"
proof -
  let ?col = "with_relation col col_id name" and ?uk = "ascii ''uk_'' @ column_name (summary col)"
  have "\<forall>c\<in>set (schema_ref t). the (column_id_of c) < col_id" using assms(5) by (auto simp: ddl_fits_def)
  from add_column_facts [OF assms(4,3) this assms(8)] obtain t2 t3 where
    base: "tc_name t = name" "schema_ref t1 = schema_ref t" "find (\<lambda>c. column_name (summary c) = column_name (summary col)) (schema_ref t) = None"
    and lists: "lists_sorted name (schema_ref t @ [?col]) (indexes t)"
    and ts: "add_column t col (Some col_id) = Ok (t2, col_id)" "add_column t1 col (Some col_id) = Ok (t3, col_id)" "same_table t3 t2"
      "tc_name t2 = tc_name t" "indexes t2 = indexes t" "schema_ref t2 = schema_ref t @ [?col]"
      "\<forall>x ms. get_column_by_id (t3\<lparr> primary_key_type := x, indexes := ms \<rparr>) col_id = Ok (Some ?col)" by blast
  note same = add_index_meta_same [OF ts(3), of "ulid_text D" ?uk "[col_id]" Unique]
  note run = add_column_start [OF assms(2)] assms(7) base ts(2) of_option_def op_simps op_bind_def
  have sp: "spec_ddl D (AddColumn col if_not_exists (Some col_id)) t =
      map_res (\<lambda>(t', _). reloaded t') (add_index_meta t2 (ulid_text D) ?uk [col_id] Unique)" using assms(6,8) ts(1) by (simp add: assms(7))
  show ?thesis
  proof (cases "add_index_meta t2 (ulid_text D) ?uk [col_id] Unique")
    case (Inl e)
    with same have "add_index_meta t3 (ulid_text D) ?uk [col_id] Unique = Err e"
      by (cases "add_index_meta t3 (ulid_text D) ?uk [col_id] Unique") auto
    with assms(4,6) show ?thesis unfolding sp Inl by (simp add: run)
  next
    case (Inr r)
    obtain t4 m where r: "r = (t4, m)" by (cases r)
    with same Inr obtain t5 where t5: "add_index_meta t3 (ulid_text D) ?uk [col_id] Unique = Ok (t5, m)"
      by (cases "add_index_meta t3 (ulid_text D) ?uk [col_id] Unique") auto
    have sp': "spec_ddl D (AddColumn col if_not_exists (Some col_id)) t = Ok (reloaded t4)" using sp Inr r by simp
    have "\<exists>st2 st3 st'. put_index_meta D name m st1 = (Ok (), st2) \<and> put_column D ?col st2 = (Ok (), st3) \<and>
        forget_table name st3 = (Ok (), st') \<and> loaded D c name (reloaded t4) st'"
      by (rule add_unique_writes [OF assms(1,4,5) sp' lists ts(4-6) Inr [unfolded r]])
    then obtain st2 st3 st' where st': "put_index_meta D name m st1 = (Ok (), st2)" "put_column D ?col st2 = (Ok (), st3)"
      "forget_table name st3 = (Ok (), st')" "loaded D c name (reloaded t4) st'" by blast
    have "\<exists>x ms. t5 = t3\<lparr> primary_key_type := x, indexes := ms \<rparr>" using add_index_meta_Ok [OF t5] by blast
    with ts(7) have "get_column_by_id t5 col_id = Ok (Some ?col)" by auto
    with st' assms(6) t5 show ?thesis unfolding sp Inr r by (simp add: run)
  qed
qed

lemma add_column_refines:
  assumes "rocks_laws (rocks D) c" "loaded D c name t st" "ddl_fits D name (AddColumn col if_not_exists generated) t"
  shows "\<exists>st'. run_ddl D name (AddColumn col if_not_exists generated) st =
      (map_res (\<lambda>_. ()) (spec_ddl D (AddColumn col if_not_exists generated) t), st') \<and>
    loaded D c name (case spec_ddl D (AddColumn col if_not_exists generated) t of Inl e \<Rightarrow> t | Inr t' \<Rightarrow> t') st'"
proof -
  obtain t1 st1 where t1: "table D name st = (Ok (Some t1), st1)" "same_table t1 t" "loaded D c name t st1"
    using loaded_table [OF assms(1,2)] by blast
  then have cols: "schema_ref t1 = schema_ref t" by (elim same_tableE) simp
  obtain col_id where gen: "generated = Some col_id" using assms(3) by (auto simp: ddl_fits_def)
  let ?name = "column_name (summary col)"
  define dv where "dv = (if nullable col then Ok (Some Null) else default_value (expr_env D) col)"
  consider (err) "\<And>d. dv \<noteq> Ok (Some d)" | (old) d where "dv = Ok (Some d)" "?name \<in> (column_name \<circ> summary) ` set (schema_ref t)"
    | (plain) d where "dv = Ok (Some d)" "?name \<notin> (column_name \<circ> summary) ` set (schema_ref t)" "\<not> is_unique (desc col)"
    | (uniq) d where "dv = Ok (Some d)" "?name \<notin> (column_name \<circ> summary) ` set (schema_ref t)" "is_unique (desc col)" by blast
  then show ?thesis
  proof cases
    case err
    then show ?thesis using t1(3) by (cases dv) (auto simp: add_column_start [OF t1(1)] op_simps op_bind_def simp flip: dv_def)
  next
    case (old d)
    then have "find (\<lambda>c. column_name (summary c) = ?name) (schema_ref t) \<noteq> None" by (auto simp: find_None_iff simp del: not_None_eq)
    then obtain c0 where c0: "find (\<lambda>c. column_name (summary c) = ?name) (schema_ref t) = Some c0" by blast
    then have "c0 \<in> set (schema_ref t)" by (auto simp: find_Some_iff)
    then obtain i where "column_id_of c0 = Some i"
      using t1(3) by (force simp: loaded_def catalog_rep_def catalog_sorted_def column_id_of_def)
    with old t1(3) c0 cols show ?thesis
      by (cases if_not_exists) (simp_all add: add_column_start [OF t1(1)] op_simps op_bind_def of_option_def flip: dv_def)
  next
    case (plain d)
    then show ?thesis using add_column_plain [OF assms(1) t1 assms(3) [unfolded gen], of d] unfolding gen dv_def by fastforce
  next
    case (uniq d)
    then show ?thesis using add_column_unique [OF assms(1) t1 assms(3) [unfolded gen], of d] unfolding gen dv_def by blast
  qed
qed

lemma get_by_name_find:
  assumes "catalog_wf t"
  shows "get_column_by_name t name = Ok (find (\<lambda>c. column_name (summary c) = name) (schema_ref t))"
  using assms covers_lookup_name [of "column_idxs t" "column_positions t" "schema_ref t" name]
  by (auto simp: catalog_wf_def get_column_by_name_def column_at_def split: option.split)

lemma drop_column_index_held:
  assumes "rocks_laws (rocks D) c" "caches_ok st" "serialize_index_meta D m = Ok b"
  shows "\<exists>st'. drop_column_index D name col_id m st = (Ok (), st') \<and> caches_ok st' \<and>
    (\<forall>k. within k (table_bound (sip D) name) \<longrightarrow>
      held c st' k = (if col_id \<in> set (im_column_ids m) \<and> k = fst (meta_entry D name m) then None else held c st k))"
proof (cases "col_id \<in> set (im_column_ids m)")
  case True
  let ?k = "encode_index_meta_key (sip D) name (im_id m)"
  obtain a where a: "tx_remove D ?k st = (Ok (), a)" "held c a = (held c st)(?k := None)" "same_caches st a"
    using tx_remove_held [OF assms(1)] by blast
  obtain d where d: "drop_range D (index_bound (sip D) name (im_id m)) a = (Ok (), d)" "same_caches a d"
    "\<forall>k. within k (table_bound (sip D) name) \<longrightarrow> held c d k = held c a k" using drop_index_data [OF assms(1)] by blast
  obtain e where e: "tx_remove D (encode_statistics_path_key (sip D) name (im_id m)) d = (Ok (), e)" "same_caches d e"
    "held c e = (held c d)(encode_statistics_path_key (sip D) name (im_id m) := None)" using tx_remove_held [OF assms(1)] by blast
  have ok: "caches_ok e" using assms(2) a(3) d(2) e(2) caches_ok_same by blast
  then obtain mm where mm: "cache_rep (meta_cache e) mm" by (auto simp: caches_ok_def)
  obtain r s' where s': "shared_remove (name, im_id m) (meta_cache e) = Some (r, s')" "cache_rep s' (mm((name, im_id m) := None))"
    using shared.rem_map [OF mm] by blast
  have "drop_column_index D name col_id m st = (Ok (), e\<lparr> meta_cache := s' \<rparr>)"
    using True assms(3) a(1) d(1) e(1) s'(1)
    by (simp add: drop_column_index_def encode_index_meta_def remove_table_meta_def op_simps cache_op_def)
  moreover have "caches_ok (e\<lparr> meta_cache := s' \<rparr>)" using ok s'(2) by (auto simp: caches_ok_def)
  moreover have "held c e k = (if k = ?k then None else held c st k)" if "within k (table_bound (sip D) name)" for k
    using that a(2) d(3) e(3) table_index_disjoint [OF that] by simp
  ultimately show ?thesis using True by (auto simp: meta_entry_def)
qed (use assms(2) in \<open>simp add: drop_column_index_def op_simps\<close>)

lemma drop_column_indexes_held:
  assumes "rocks_laws (rocks D) c" "caches_ok st" "\<forall>m\<in>set ms. \<exists>b. serialize_index_meta D m = Ok b"
  shows "\<exists>st'. op_each (drop_column_index D name col_id) ms st = (Ok (), st') \<and> caches_ok st' \<and>
    (\<forall>k. within k (table_bound (sip D) name) \<longrightarrow>
      held c st' k = (if k \<in> fst ` meta_entry D name ` {m \<in> set ms. col_id \<in> set (im_column_ids m)} then None else held c st k))"
  using assms(2,3)
proof (induction ms arbitrary: st)
  case (Cons m ms)
  then obtain b where "serialize_index_meta D m = Ok b" by auto
  from drop_column_index_held [OF assms(1) Cons.prems(1) this, of name col_id] obtain st1 where
    st1: "drop_column_index D name col_id m st = (Ok (), st1)" "caches_ok st1"
    "\<forall>k. within k (table_bound (sip D) name) \<longrightarrow>
      held c st1 k = (if col_id \<in> set (im_column_ids m) \<and> k = fst (meta_entry D name m) then None else held c st k)" by blast
  obtain st' where st': "op_each (drop_column_index D name col_id) ms st1 = (Ok (), st')" "caches_ok st'"
    "\<forall>k. within k (table_bound (sip D) name) \<longrightarrow>
      held c st' k = (if k \<in> fst ` meta_entry D name ` {m \<in> set ms. col_id \<in> set (im_column_ids m)} then None else held c st1 k)"
    using Cons.IH [OF st1(2)] Cons.prems(2) by auto
  have "op_each (drop_column_index D name col_id) (m # ms) st = (Ok (), st')" using st1(1) st'(1) by (simp add: op_bind_def)
  moreover have "held c st' k = (if k \<in> fst ` meta_entry D name ` {m' \<in> set (m # ms). col_id \<in> set (im_column_ids m')} then None else held c st k)"
    if "within k (table_bound (sip D) name)" for k
    using st1(3) st'(3) that by auto
  ultimately show ?case using st'(2) by blast
qed (simp add: op_return_def)

lemma column_entry_id:
  assumes "catalog_sorted name t" "col \<in> set (schema_ref t)" "col' \<in> set (schema_ref t)"
  shows "column_entry D name col' = column_entry D name col \<longleftrightarrow> column_id_of col' = column_id_of col"
proof
  assume "column_entry D name col' = column_entry D name col"
  moreover have "column_entry D name ` set (schema_ref t) \<subseteq> set (catalog_entries D name t)" by (auto simp: catalog_entries_def)
  moreover have "distinct (map fst (map (column_entry D name) (schema_ref t)))"
    using catalog_entries_distinct [OF assms(1), of D] by (simp add: catalog_entries_def)
  then have "inj_on (fst \<circ> column_entry D name) (set (schema_ref t))" by (simp add: distinct_map)
  ultimately show "column_id_of col' = column_id_of col" using assms(2,3) by (metis comp_apply inj_onD)
next
  assume "column_id_of col' = column_id_of col"
  moreover have "distinct (map column_id_of (schema_ref t))"
    using assms(1) covers_distinct(2) by (auto simp: catalog_sorted_def catalog_wf_def)
  ultimately have "col' = col" using assms(2,3) by (metis distinct_map inj_onD)
  then show "column_entry D name col' = column_entry D name col" by simp
qed

lemma drop_column_entries:
  assumes "catalog_sorted name t" "col \<in> set (schema_ref t)"
    and "schema_ref t' = filter (\<lambda>c. column_id_of c \<noteq> column_id_of col) (schema_ref t)" "indexes t' = filter (\<lambda>m. \<not> Q m) (indexes t)"
  shows "set (catalog_entries D name t') = {e \<in> set (catalog_entries D name t).
    fst e \<notin> insert (fst (column_entry D name col)) (fst ` meta_entry D name ` {m \<in> set (indexes t). Q m})}"
proof -
  let ?E = "insert (column_entry D name col) (meta_entry D name ` {m \<in> set (indexes t). Q m})"
  have sub: "?E \<subseteq> set (catalog_entries D name t)" using assms(2) by (auto simp: catalog_entries_def)
  have key: "fst e \<in> fst ` ?E \<longleftrightarrow> e \<in> ?E" if "e \<in> set (catalog_entries D name t)" for e
  proof -
    have "inj_on fst (set (catalog_entries D name t))" using catalog_entries_distinct [OF assms(1), of D] by (simp add: distinct_map)
    from inj_on_image_mem_iff [OF this that sub] show ?thesis .
  qed
  have "inj_on (meta_entry D name) (set (indexes t))"
    using catalog_entries_distinct [OF assms(1), of D] by (auto simp: catalog_entries_def distinct_map inj_on_def)
  then have "meta_entry D name ` {m \<in> set (indexes t). \<not> Q m} = meta_entry D name ` set (indexes t) - meta_entry D name ` {m \<in> set (indexes t). Q m}"
    by (auto dest: inj_onD)
  moreover have "column_entry D name ` {c \<in> set (schema_ref t). column_id_of c \<noteq> column_id_of col} =
      column_entry D name ` set (schema_ref t) - {column_entry D name col}"
    by (rule image_remove) (use column_entry_id [OF assms(1,2)] in blast)
  moreover have "column_entry D name x \<noteq> meta_entry D name y" "meta_entry D name y \<noteq> column_entry D name x" for x y
    using less_imp_neq [OF column_before_meta] less_imp_neq [OF column_before_meta, symmetric]
    by (simp_all add: column_entry_def meta_entry_def)
  ultimately have "set (catalog_entries D name t') = set (catalog_entries D name t) - ?E"
    unfolding catalog_entries_def assms(3,4) by auto
  also have "\<dots> = {e \<in> set (catalog_entries D name t). fst e \<notin> fst ` ?E}" using key by blast
  finally show ?thesis by simp
qed

lemma drop_column_writes:
  assumes "rocks_laws (rocks D) c" "loaded D c name t st" "col \<in> set (schema_ref t)" "column_id_of col = Some col_id"
    and "t' = t\<lparr> schema_ref := filter (\<lambda>c. column_id_of c \<noteq> column_id_of col) (schema_ref t),
      indexes := filter (\<lambda>m. col_id \<notin> set (im_column_ids m)) (indexes t) \<rparr>" "schema_ref t' \<noteq> []"
  shows "\<exists>a d st'. tx_remove D (fst (column_entry D name col)) st = (Ok (), a) \<and>
    op_each (drop_column_index D name col_id) (indexes t) a = (Ok (), d) \<and>
    forget_table name d = (Ok (), st') \<and> loaded D c name (reloaded t') st'"
proof -
  have rep: "catalog_rep D c name t st" using assms(2) by (simp add: loaded_def)
  have wf: "catalog_sorted name t" "tc_name t = name" "lists_sorted name (schema_ref t) (indexes t)"
    using rep catalog_lists by (auto simp: catalog_rep_def catalog_sorted_def)
  have "lists_sorted name (schema_ref t') (indexes t')" using lists_sorted_filter [OF wf(3)] assms(6) by (simp add: assms(5))
  then have re: "catalog_sorted name (reloaded t')" "schema_ref (reloaded t') = filter (\<lambda>c. column_id_of c \<noteq> column_id_of col) (schema_ref t)"
    "indexes (reloaded t') = filter (\<lambda>m. col_id \<notin> set (im_column_ids m)) (indexes t)"
    using reloaded_sorted [of t'] wf(2) by (simp_all add: assms(5))
  have ser: "\<forall>m\<in>set (indexes t). \<exists>b. serialize_index_meta D m = Ok b"
    using rep by (auto simp: catalog_rep_def entries_stored_def)
  let ?k = "fst (column_entry D name col)"
  obtain a where a: "tx_remove D ?k st = (Ok (), a)" "held c a = (held c st)(?k := None)" "same_caches st a"
    using tx_remove_held [OF assms(1)] by blast
  obtain d where d: "op_each (drop_column_index D name col_id) (indexes t) a = (Ok (), d)" "caches_ok d"
    "\<forall>k. within k (table_bound (sip D) name) \<longrightarrow> held c d k =
      (if k \<in> fst ` meta_entry D name ` {m \<in> set (indexes t). col_id \<in> set (im_column_ids m)} then None else held c a k)"
    using drop_column_indexes_held [OF assms(1) caches_ok_same [OF a(3) loaded_caches [OF assms(2)]] ser] by blast
  have "catalog_rep D c name (reloaded t') d"
  proof (rule catalog_rep_remove [OF rep re(1)])
    show "set (catalog_entries D name (reloaded t')) = {e \<in> set (catalog_entries D name t).
        fst e \<notin> insert ?k (fst ` meta_entry D name ` {m \<in> set (indexes t). col_id \<in> set (im_column_ids m)})}"
      by (rule drop_column_entries [OF wf(1) assms(3)]) (simp_all add: re(2,3))
  qed (use a(2) d(3) in \<open>auto simp: re(2,3)\<close>)
  then show ?thesis using forget_table_loaded [OF _ d(2)] a(1) d(1) by blast
qed

lemma drop_column_refines:
  assumes "rocks_laws (rocks D) c" "loaded D c name t st" "ddl_fits D name (DropColumn col_name) t"
  shows "\<exists>st'. run_ddl D name (DropColumn col_name) st = (map_res (\<lambda>_. ()) (spec_ddl D (DropColumn col_name) t), st') \<and>
    loaded D c name (case spec_ddl D (DropColumn col_name) t of Inl e \<Rightarrow> t | Inr t' \<Rightarrow> t') st'"
proof -
  let ?st = "\<lambda>s. st\<lparr> table_cache := s \<rparr>"
  obtain t1 s1 where t1: "table D name st = (Ok (Some t1), ?st s1)" "same_table t1 t" "loaded D c name t (?st s1)"
    using loaded_table [OF assms(1,2)] by blast
  have rep: "catalog_rep D c name t (?st s1)" using t1(3) by (simp add: loaded_def)
  have wf: "catalog_sorted name t" "tc_name t = name" "lists_sorted name (schema_ref t) (indexes t)" "catalog_wf t"
    using rep catalog_lists by (auto simp: catalog_rep_def catalog_sorted_def)
  obtain x where x: "t1 = t\<lparr> primary_key_type := x \<rparr>" using t1(2) by (rule same_tableE)
  then have "catalog_wf t1" using wf(4) by (simp add: catalog_wf_def)
  then have get: "get_column_by_name t1 col_name = Ok (find (\<lambda>c. column_name (summary c) = col_name) (schema_ref t))"
    using get_by_name_find [of t1 col_name] by (simp add: x)
  show ?thesis
  proof (cases "find (\<lambda>c. column_name (summary c) = col_name) (schema_ref t)")
    case None
    then show ?thesis using t1(1,3) get by (simp add: drop_column_def op_bind_def op_res_def of_option_def)
  next
    case (Some col)
    let ?t = "t\<lparr> schema_ref := filter (\<lambda>c. column_id_of c \<noteq> column_id_of col) (schema_ref t),
         indexes := filter (\<lambda>m. the (column_id_of col) \<notin> set (im_column_ids m)) (indexes t) \<rparr>"
    have spec: "spec_ddl D (DropColumn col_name) t = Ok (reloaded ?t)" using Some by (simp add: of_option_def)
    have mem: "col \<in> set (schema_ref t)" using Some by (auto simp: find_Some_iff)
    then obtain col_id where id: "relation (summary col) = TableRelation col_id name False" using wf(3) by (auto simp: lists_sorted_def)
    then have cid: "column_id_of col = Some col_id" by (simp add: column_id_of_def)
    have ne: "schema_ref ?t \<noteq> []"
    proof
      assume "schema_ref ?t = []"
      then have "schema_ref (reloaded ?t) = []" by (simp add: reloaded_def table_reload_def split: prod.split)
      with assms(3) spec show False by (simp add: ddl_fits_def)
    qed
    have "\<exists>b. serialize_column D col = Ok b" using rep mem by (auto simp: catalog_rep_def entries_stored_def)
    then obtain v where "encode_column D col = Ok (fst (column_entry D name col), v)"
      using id cid by (auto simp: encode_column_def column_entry_def)
    moreover have "indexes t1 = indexes t" by (simp add: x)
    moreover have "(\<lambda>m. op_bind (op_res (Ok col_id)) (\<lambda>col_id. drop_column_index D name col_id m)) = drop_column_index D name col_id"
      by (simp add: fun_eq_iff op_bind_def op_res_def)
    moreover have "?t = t\<lparr> schema_ref := filter (\<lambda>c. column_id_of c \<noteq> column_id_of col) (schema_ref t),
        indexes := filter (\<lambda>m. col_id \<notin> set (im_column_ids m)) (indexes t) \<rparr>" by (simp add: cid)
    from drop_column_writes [OF assms(1) t1(3) mem cid this ne] obtain a d st' where
      "tx_remove D (fst (column_entry D name col)) (?st s1) = (Ok (), a)" "op_each (drop_column_index D name col_id) (indexes t) a = (Ok (), d)"
      "forget_table name d = (Ok (), st')" "loaded D c name (reloaded ?t) st'" by blast
    ultimately show ?thesis unfolding spec
      by (simp add: drop_column_def op_simps op_bind_def of_option_def t1(1) get Some cid)
  qed
qed

section \<open>Sequences of changes\<close>

fun spec_ddls :: "('d, 't, 'n, 's, 'v, 'm) store_env \<Rightarrow> 'd ddl list \<Rightarrow> 'd table_catalog \<Rightarrow> unit res list \<times> 'd table_catalog" where
  "spec_ddls D [] t = ([], t)"
| "spec_ddls D (p # ps) t =
    (let r = spec_ddl D p t; (rs, t') = spec_ddls D ps (case r of Inl e \<Rightarrow> t | Inr t1 \<Rightarrow> t1) in
     (map_res (\<lambda>_. ()) r # rs, t'))"

fun ddls_fit :: "('d, 't, 'n, 's, 'v, 'm) store_env \<Rightarrow> rstring \<Rightarrow> 'd ddl list \<Rightarrow> 'd table_catalog \<Rightarrow> bool" where
  "ddls_fit D name [] t \<longleftrightarrow> True"
| "ddls_fit D name (p # ps) t \<longleftrightarrow>
    ddl_fits D name p t \<and> ddls_fit D name ps (case spec_ddl D p t of Inl e \<Rightarrow> t | Inr t1 \<Rightarrow> t1)"

lemma run_ddl_refines:
  assumes "rocks_laws (rocks D) c" "loaded D c name t st" "ddl_fits D name p t"
  shows "\<exists>st'. run_ddl D name p st = (map_res (\<lambda>_. ()) (spec_ddl D p t), st') \<and>
    loaded D c name (case spec_ddl D p t of Inl e \<Rightarrow> t | Inr t' \<Rightarrow> t') st'"
proof (cases p)
  case (AddIndex index_name column_ids ty)
  then show ?thesis using add_index_refines [OF assms(1,2)] assms(3) by blast
next
  case (DropIndex index_name if_exists)
  then show ?thesis using drop_index_refines [OF assms(1,2)] assms(3) by blast
next
  case (AddColumn col if_not_exists generated)
  then show ?thesis using add_column_refines [OF assms(1,2)] assms(3) by blast
next
  case (DropColumn col_name)
  then show ?thesis using drop_column_refines [OF assms(1,2)] assms(3) by blast
qed

lemma run_ddls_refine:
  assumes "rocks_laws (rocks D) c" "loaded D c name t st" "ddls_fit D name ps t"
  shows "fst (run_all (run_ddl D name) ps st) = fst (spec_ddls D ps t) \<and>
    loaded D c name (snd (spec_ddls D ps t)) (snd (run_all (run_ddl D name) ps st))"
  using assms(2,3)
proof (induction ps arbitrary: t st)
  case (Cons p ps)
  let ?t = "case spec_ddl D p t of Inl e \<Rightarrow> t | Inr t1 \<Rightarrow> t1"
  obtain st1 where st1: "run_ddl D name p st = (map_res (\<lambda>_. ()) (spec_ddl D p t), st1)" "loaded D c name ?t st1"
    using run_ddl_refines [OF assms(1) Cons.prems(1)] Cons.prems(2) by auto
  from Cons.IH [OF st1(2)] Cons.prems(2) st1(1) show ?case by (simp add: Let_def split_beta)
qed simp

text \<open>
  C3: The catalogue of a table is one value: any sequence of adding and dropping columns and indexes answers as the
  same sequence on the catalogue does, errors included, and the table that \<open>table\<close> then reads, from the cache
  or from the store, is the changed catalogue. The caches may hold the table or not, at every step.
\<close>

theorem ddl_refines:
  assumes "rocks_laws (rocks D) c" "loaded D c name t st" "ddls_fit D name ps t"
  shows "fst (run_all (run_ddl D name) ps st) = fst (spec_ddls D ps t) \<and>
    (\<exists>t' st'. table D name (snd (run_all (run_ddl D name) ps st)) = (Ok (Some t'), st') \<and>
      same_table t' (snd (spec_ddls D ps t)))"
  using run_ddls_refine [OF assms] loaded_table [OF assms(1)] by blast

section \<open>Dropping a table\<close>

text \<open>The keys that belong to a table: its rows, index entries, statistics, columns and indexes, its name and its root entry.\<close>

definition table_key :: "('d, 't, 'n, 's, 'v, 'm) store_env \<Rightarrow> rstring \<Rightarrow> bytes \<Rightarrow> bool" where
  "table_key D name k \<longleftrightarrow> within k (tuple_bound (sip D) name) \<or> within k (all_index_bound (sip D) name) \<or>
    within k (statistics_bound (sip D) name) \<or> within k (columns_bound (sip D) name) \<or> within k (index_meta_bound (sip D) name) \<or>
    k = encode_table_hash_key (sip D) name \<or> k = encode_root_table_key (sip D) name"

text \<open>Two names whose hashes differ, the second one not starting with the prefix of another kind of keys.\<close>

definition hash_apart :: "('d, 't, 'n, 's, 'v, 'm) store_env \<Rightarrow> rstring \<Rightarrow> rstring \<Rightarrow> bool" where
  "hash_apart D name other \<longleftrightarrow> hash_bytes (sip D) name \<noteq> hash_bytes (sip D) other \<and>
    take 4 (hash_bytes (sip D) other) \<notin> {ROOT_BYTES, HASH_BYTES}"

lemma table_bound_hash: "within k (table_bound sp name) \<Longrightarrow> \<exists>z. k = hash_bytes sp name @ z"
  using between_prefix [of "hash_bytes sp name" "[0x30, BOUND_MIN_TAG]" k "[0x31, BOUND_MAX_TAG]"]
  by (simp add: within_def table_bound_def key_prefix_def Let_def)

lemma table_key_hash:
  assumes "table_key D name k"
  shows "take 8 k = hash_bytes (sip D) name \<or> take 4 k \<in> {ROOT_BYTES, HASH_BYTES}"
proof -
  have "take 8 k = hash_bytes (sip D) name" if "within k (both_bounds (\<lambda>t. (hash_bytes (sip D) name @ [tag]) @ [t]))" for tag
    using within_both_bounds [OF that] by auto
  with assms show ?thesis
    by (auto simp: table_key_def region_bounds encode_table_hash_key_def encode_root_table_key_def ROOT_BYTES_def HASH_BYTES_def)
qed

lemma other_table_key:
  assumes "within k (table_bound (sip D) other)" "hash_apart D name other"
  shows "\<not> table_key D name k"
proof
  assume "table_key D name k"
  moreover obtain z where "k = hash_bytes (sip D) other @ z" using table_bound_hash [OF assms(1)] by blast
  ultimately show False using table_key_hash assms(2) by (fastforce simp: hash_apart_def)
qed

lemma drop_table_held:
  assumes "rocks_laws (rocks D) c" "cache_rep (table_cache st) m" "table D name st = (Ok (Some t), st0)"
  shows "\<exists>st' m'. drop_table D name if_exists st = (Ok (), st') \<and> held c st' = held c st |` {k. \<not> table_key D name k} \<and>
    meta_cache st' = meta_cache st \<and> cache_rep (table_cache st') m' \<and> m' name = None \<and> (\<forall>k v. m' k = Some v \<longrightarrow> m k = Some v)"
proof -
  obtain s0 m0 where s0: "st0 = st\<lparr> table_cache := s0 \<rparr>" "cache_rep s0 m0" "\<forall>k v. k \<noteq> name \<longrightarrow> m0 k = Some v \<longrightarrow> m k = Some v"
    using table_keeps [OF assms(2,3)] by blast
  obtain a where a: "tx_remove D (encode_table_hash_key (sip D) name) st0 = (Ok (), a)" "same_caches st0 a"
    "held c a = (held c st0)(encode_table_hash_key (sip D) name := None)" using tx_remove_held [OF assms(1)] by blast
  obtain b where b: "drop_data D name a = (Ok (), b)" "same_caches a b"
    "held c b = held c a |` {k. \<not> within k (tuple_bound (sip D) name) \<and> \<not> within k (all_index_bound (sip D) name) \<and>
      \<not> within k (statistics_bound (sip D) name)}" using drop_data_held [OF assms(1)] by blast
  obtain d where d: "drop_range D (columns_bound (sip D) name) b = (Ok (), d)" "same_caches b d"
    "held c d = held c b |` {k. \<not> within k (columns_bound (sip D) name)}" using drop_bound_held [OF assms(1) columns_bound_def] by blast
  obtain e where e: "drop_range D (index_meta_bound (sip D) name) d = (Ok (), e)" "same_caches d e"
    "held c e = held c d |` {k. \<not> within k (index_meta_bound (sip D) name)}" using drop_bound_held [OF assms(1) index_meta_bound_def] by blast
  obtain f where f: "tx_remove D (encode_root_table_key (sip D) name) e = (Ok (), f)" "same_caches e f"
    "held c f = (held c e)(encode_root_table_key (sip D) name := None)" using tx_remove_held [OF assms(1)] by blast
  have caches: "table_cache f = s0" "meta_cache f = meta_cache st" using a(2) b(2) d(2) e(2) f(2) s0(1) by (simp_all add: same_caches_def)
  obtain r s' where s': "shared_remove name s0 = Some (r, s')" "cache_rep s' (m0(name := None))" using shared.rem_map [OF s0(2)] by blast
  have "drop_table D name if_exists st = (Ok (), f\<lparr> table_cache := s' \<rparr>)"
    using assms(3) a(1) b(1) d(1) e(1) f(1) caches(1) s'(1) by (simp add: drop_table_def drop_name_hash_def op_simps cache_op_def)
  moreover have "held c f = held c st |` {k. \<not> table_key D name k}"
    unfolding f(3) e(3) d(3) b(3) a(3) s0(1) by (auto simp: restrict_map_def fun_eq_iff table_key_def)
  ultimately show ?thesis using s'(2) s0(3) caches(2)
    by (intro exI [of _ "f\<lparr> table_cache := s' \<rparr>"] exI [of _ "m0(name := None)"]) auto
qed

lemma catalog_keys: "(k, v) \<in> set (catalog_entries D name t) \<Longrightarrow> table_key D name k"
  by (auto simp: catalog_entries_def column_entry_def meta_entry_def table_key_def column_key_within meta_key_within)

text \<open>
  C12: Dropping a table removes its keys and no other key; the table is not found afterwards, neither in the cache nor
  in the store, and the catalogue of every other table stays as it was.
\<close>

theorem drop_table_gone:
  assumes "rocks_laws (rocks D) c" "loaded D c name t st"
  shows "\<exists>st'. drop_table D name if_exists st = (Ok (), st') \<and> held c st' = held c st |` {k. \<not> table_key D name k} \<and>
    fst (table D name st') = Ok None \<and>
    (\<forall>other u. loaded D c other u st \<longrightarrow> hash_apart D name other \<longrightarrow> loaded D c other u st')"
proof -
  obtain t1 s1 where t1: "table D name st = (Ok (Some t1), s1)" using loaded_table [OF assms] by blast
  obtain m where m: "cache_rep (table_cache st) m" using assms(2) by (auto simp: loaded_def)
  obtain st' m' where st': "drop_table D name if_exists st = (Ok (), st')" "held c st' = held c st |` {k. \<not> table_key D name k}"
    "meta_cache st' = meta_cache st" "cache_rep (table_cache st') m'" "m' name = None" "\<forall>k v. m' k = Some v \<longrightarrow> m k = Some v"
    using drop_table_held [OF assms(1) m t1] by blast
  have "held c st' k = None" if "within k (table_bound (sip D) name)" for k
  proof (cases "held c st k")
    case (Some v)
    then have "(k, v) \<in> set (catalog_entries D name t)" using assms(2) that by (auto simp: loaded_def catalog_rep_def dest: map_of_SomeD)
    then have "table_key D name k" by (rule catalog_keys)
    then show ?thesis by (simp add: st'(2) restrict_map_def)
  qed (simp add: st'(2) restrict_map_def)
  then have "fst (table D name st') = Ok None" using table_missing [OF assms(1) st'(4,5)] by auto
  moreover have "loaded D c other u st'" if u: "loaded D c other u st" and "hash_apart D name other" for other u
  proof -
    have "held c st' k = held c st k" if "within k (table_bound (sip D) other)" for k
      using other_table_key [OF that \<open>hash_apart D name other\<close>] st'(2) by simp
    moreover have "same_table t' u" if "m' other = Some t'" for t'
      using u st'(6) that cache_rep_unique [OF m] by (fastforce simp: loaded_def)
    ultimately show ?thesis using u st'(3,4) by (auto simp: loaded_def catalog_rep_def)
  qed
  ultimately show ?thesis using st'(1,2) by blast
qed

section \<open>Dropping a view that does not exist\<close>

lemma view_missing:
  assumes "rocks_laws (rocks D) c" "cache_rep (view_cache st) m" "m name = None" "held c st (encode_view_key (sip D) name) = None"
  shows "\<exists>s'. view D name st = (Ok None, st\<lparr> view_cache := s' \<rparr>)"
  using shared.get_map [OF assms(2), of name] assms(3,4) rocks_get [OF assms(1)]
  by (auto simp: view_def op_simps cache_op_def tx_get_def)

text \<open>
  \<open>drop_view\<close> removes the entry of the name before it looks for the view. On the name of a table it answers as for
  a missing view, and leaves the table without the entry that keeps \<open>create_view\<close> from using the name.
\<close>

lemma drop_view_takes_hash:
  assumes "rocks_laws (rocks D) c" "cache_rep (view_cache st) m" "m name = None" "held c st (encode_view_key (sip D) name) = None"
  shows "\<exists>st'. drop_view D name if_exists st = (if if_exists then Ok () else Err ViewNotFound, st') \<and>
    held c st' = (held c st)(encode_table_hash_key (sip D) name := None)"
proof -
  obtain a where a: "tx_remove D (encode_table_hash_key (sip D) name) st = (Ok (), a)" "same_caches st a"
    "held c a = (held c st)(encode_table_hash_key (sip D) name := None)" using tx_remove_held [OF assms(1)] by blast
  have "view_cache a = view_cache st" "held c a (encode_view_key (sip D) name) = None"
    using a(2,3) assms(4) by (simp_all add: same_caches_def)
  then obtain s' where "view D name a = (Ok None, a\<lparr> view_cache := s' \<rparr>)" using view_missing [of D c a m name] assms(1-3) by auto
  with a(1,3) show ?thesis by (simp add: drop_view_def drop_name_hash_def op_simps)
qed

section \<open>A concrete table\<close>

lemma ddl_fits_cases:
  "ddl_fits D name p t \<longleftrightarrow>
    (case p of
       AddColumn col if_not_exists generated \<Rightarrow>
         (case generated of None \<Rightarrow> False | Some col_id \<Rightarrow> \<forall>c\<in>set (schema_ref t). the (column_id_of c) < col_id)
     | _ \<Rightarrow> True) \<and>
    (case spec_ddl D p t of
       Inl e \<Rightarrow> True
     | Inr t' \<Rightarrow> schema_ref t' \<noteq> [] \<and> entries_stored D name (set (schema_ref t')) (set (indexes t')) \<and>
         (\<forall>m\<in>set (indexes t'). im_id m < 256))"
  by (cases p) (auto simp: ddl_fits_def simp del: spec_ddl.simps split: option.split sum.split)

definition ddl_columns :: "64 word column_catalog list" where
  "ddl_columns = [with_relation id_column 1 (ascii ''t''), with_relation name_column 2 (ascii ''t'')]"

definition other_column :: "64 word column_catalog" where
  "other_column = with_relation name_column 1 (ascii ''tt'')"

definition ddl_metas :: "index_meta list" where
  "ddl_metas =
    [\<lparr> im_id = 0, im_column_ids = [1], im_table_name = ascii ''t'', im_pk_ty = Integer, im_value_ty = Integer,
       im_name = ascii ''i'', im_ty = Normal \<rparr>,
     \<lparr> im_id = 1, im_column_ids = [2], im_table_name = ascii ''t'', im_pk_ty = Integer, im_value_ty = Varchar None Characters,
       im_name = ascii ''uk_name'', im_ty = Unique \<rparr>]"

text \<open>A store whose serializers write the name of a column or of an index.\<close>

definition ddl_store :: "(64 word, int, int, (bytes \<times> bytes) list, unit, unit) store_env" where
  "ddl_store = sample_store\<lparr>
     serialize_column := (\<lambda>col. Ok (column_name (summary col))),
     deserialize_column := (\<lambda>name b. of_option IO (find (\<lambda>col. column_name (summary col) = b)
       (if name = ascii ''tt'' then [other_column] else ddl_columns))),
     serialize_index_meta := (\<lambda>m. Ok (im_name m)),
     deserialize_index_meta := (\<lambda>b. of_option IO (find (\<lambda>m. im_name m = b) ddl_metas)) \<rparr>"

definition ddl_table :: "64 word column_catalog list \<Rightarrow> index_meta list \<Rightarrow> 64 word table_catalog" where
  "ddl_table cols metas = projr (table_reload (ascii ''t'') cols metas)"

definition ddl_steps :: "64 word ddl list" where
  "ddl_steps =
    [AddIndex (ascii ''i'') [1] Normal, AddIndex (ascii ''i'') [1] Normal, AddColumn name_column True (Some 2),
     DropColumn (ascii ''id'')]"

lemmas ddl_data = ddl_columns_def other_column_def ddl_metas_def id_column_def name_column_def with_relation_def column_id_of_def ascii_def
  ddl_table_def table_reload_def build_primary_keys_def reloaded_def ddl_store_def datatype_of_def
  add_index_meta_def next_index_id_def primary_type_def index_column_type_def get_column_by_id_def column_at_def
  add_column_def contains_column_def lookup_update' Let_def of_option_def

lemma ddl_step_specs:
  "spec_ddl ddl_store (AddIndex (ascii ''i'') [1] Normal) (ddl_table [ddl_columns ! 0] []) =
     Ok (ddl_table [ddl_columns ! 0] [ddl_metas ! 0])"
  "spec_ddl ddl_store (AddIndex (ascii ''i'') [1] Normal) (ddl_table [ddl_columns ! 0] [ddl_metas ! 0]) =
     Err (DuplicateIndex (ascii ''i''))"
  "spec_ddl ddl_store (AddColumn name_column True (Some 2)) (ddl_table [ddl_columns ! 0] [ddl_metas ! 0]) =
     Ok (ddl_table ddl_columns ddl_metas)"
  "spec_ddl ddl_store (DropColumn (ascii ''id'')) (ddl_table ddl_columns ddl_metas) =
     Ok (ddl_table [ddl_columns ! 1] [ddl_metas ! 1])"
  by (simp_all add: ddl_data)

lemma ddl_lists: "lists_sorted (ascii ''t'') ddl_columns ddl_metas" "lists_sorted (ascii ''t'') [ddl_columns ! 0] []"
  "lists_sorted (ascii ''tt'') [other_column] []"
  by (simp_all add: lists_sorted_def ddl_data le_bytes_less)

lemma ddl_table_fields:
  "schema_ref (ddl_table [ddl_columns ! 0] metas) = [ddl_columns ! 0]" "indexes (ddl_table [ddl_columns ! 0] metas) = metas"
  "schema_ref (ddl_table [ddl_columns ! 1] metas) = [ddl_columns ! 1]" "indexes (ddl_table [ddl_columns ! 1] metas) = metas"
  "schema_ref (ddl_table ddl_columns metas) = ddl_columns" "indexes (ddl_table ddl_columns metas) = metas"
  by (simp_all add: ddl_data)

lemma ddl_steps_fit: "ddls_fit ddl_store (ascii ''t'') ddl_steps (ddl_table [ddl_columns ! 0] [])"
proof -
  have "entries_stored ddl_store (ascii ''t'') (set ddl_columns) (set ddl_metas)"
    "entries_stored ddl_store (ascii ''t'') {ddl_columns ! 0} {ddl_metas ! 0}"
    "entries_stored ddl_store (ascii ''t'') {ddl_columns ! 1} {ddl_metas ! 1}"
    by (simp_all add: entries_stored_def ddl_data)
  moreover have "\<forall>m\<in>set ddl_metas. im_id m < 256" "im_id (ddl_metas ! 0) < 256" "im_id (ddl_metas ! 1) < 256"
    "the (column_id_of (ddl_columns ! 0)) < 2" "ddl_columns \<noteq> []" by (simp_all add: ddl_data)
  ultimately show ?thesis by (simp add: ddl_steps_def ddl_fits_cases ddl_step_specs ddl_table_fields del: spec_ddl.simps One_nat_def)
qed

lemma ddl_steps_spec: "spec_ddls ddl_store ddl_steps (ddl_table [ddl_columns ! 0] []) =
    ([Ok (), Err (DuplicateIndex (ascii ''i'')), Ok (), Ok ()], ddl_table [ddl_columns ! 1] [ddl_metas ! 1])"
  by (simp add: ddl_steps_def ddl_step_specs del: spec_ddl.simps One_nat_def)

lemma catalog_rep_append:
  assumes "catalog_sorted name t" "entries_stored D name (set (schema_ref t)) (set (indexes t))"
    and "hash_bytes (sip D) name \<noteq> hash_bytes (sip D) other" "held c st = map_of (catalog_entries D name t) ++ map_of (catalog_entries D other u) \<or>
      held c st = map_of (catalog_entries D other u) ++ map_of (catalog_entries D name t)"
  shows "catalog_rep D c name t st"
proof -
  have "map_of (catalog_entries D other u) k = None" if "within k (table_bound (sip D) name)" for k
  proof (rule ccontr)
    assume "map_of (catalog_entries D other u) k \<noteq> None"
    then obtain v where "(k, v) \<in> set (catalog_entries D other u)" by (auto dest: map_of_SomeD)
    from table_bound_hash [OF catalog_entries_within [OF this]] table_bound_hash [OF that] assms(3) show False by auto
  qed
  with assms show ?thesis by (auto simp: catalog_rep_def map_add_def split: option.split)
qed

lemma fresh_cache: "\<exists>s :: ('k, 'v) shared_lru. cache_rep s Map.empty"
proof -
  obtain s :: "('k, 'v) lru_cache" where "lru_rep s []" "lru_cap s = 1" using lru_rep_new [of 1] by auto
  then have "shared_rep 1 \<lparr> shared_vec = [s], shared_hash = (\<lambda>_. 0) \<rparr> [[]]" by (simp add: shared_rep_def)
  then show ?thesis unfolding cache_rep_def by (intro exI conjI) (auto simp: shard_def)
qed

definition other_table :: "64 word table_catalog" where
  "other_table = projr (table_reload (ascii ''tt'') [other_column] [])"

lemma ddl_hashes:
  "hash_bytes (sip ddl_store) (ascii ''t'') = [2, 0, 0, 0, 0, 0, 0, 0]"
  "hash_bytes (sip ddl_store) (ascii ''tt'') = [3, 0, 0, 0, 0, 0, 0, 0]"
proof -
  have eight: "(8 :: nat) = Suc (Suc (Suc (Suc (Suc (Suc (Suc (Suc 0)))))))" by simp
  have "le_bytes 8 2 = [2, 0, 0, 0, 0, 0, 0, 0]" "le_bytes 8 3 = [3, 0, 0, 0, 0, 0, 0, 0]" unfolding eight by simp_all
  then show "hash_bytes (sip ddl_store) (ascii ''t'') = [2, 0, 0, 0, 0, 0, 0, 0]"
    "hash_bytes (sip ddl_store) (ascii ''tt'') = [3, 0, 0, 0, 0, 0, 0, 0]"
    by (simp_all add: hash_bytes_def ddl_store_def sample_store_def ascii_def)
qed

lemma ddl_state:
  "\<exists>st :: (64 word, (bytes \<times> bytes) list, unit, unit) tx_state.
    loaded ddl_store map_of (ascii ''t'') (ddl_table [ddl_columns ! 0] []) st \<and> loaded ddl_store map_of (ascii ''tt'') other_table st"
proof -
  let ?D = ddl_store and ?t = "ddl_table [ddl_columns ! 0] []"
  obtain s :: "(rstring, 64 word table_catalog) shared_lru" where s: "cache_rep s Map.empty" using fresh_cache by blast
  obtain q :: "(rstring \<times> 32 word, unit) shared_lru" where q: "cache_rep q Map.empty" using fresh_cache by blast
  let ?st = "\<lparr> tx = catalog_entries ?D (ascii ''t'') ?t @ catalog_entries ?D (ascii ''tt'') other_table,
    table_cache = s, view_cache = undefined, meta_cache = q \<rparr> :: (64 word, (bytes \<times> bytes) list, unit, unit) tx_state"
  have wf: "catalog_sorted (ascii ''t'') ?t" "catalog_sorted (ascii ''tt'') other_table" "schema_ref other_table = [other_column]"
    "indexes other_table = []"
    using reload_lists [OF ddl_lists(2)] reload_lists [OF ddl_lists(3)] by (auto simp: ddl_table_def other_table_def)
  moreover have "entries_stored ?D (ascii ''t'') {ddl_columns ! 0} {}" "entries_stored ?D (ascii ''tt'') {other_column} {}"
    by (simp_all add: entries_stored_def ddl_data)
  moreover have hash: "hash_bytes (sip ?D) (ascii ''t'') \<noteq> hash_bytes (sip ?D) (ascii ''tt'')"
    by (simp add: ddl_hashes)
  ultimately have "catalog_rep ?D map_of (ascii ''t'') ?t ?st" "catalog_rep ?D map_of (ascii ''tt'') other_table ?st"
    by (auto intro!: catalog_rep_append [OF _ _ hash] catalog_rep_append [OF _ _ hash [symmetric]] simp: ddl_table_fields)
  with s q show ?thesis by (intro exI [of _ ?st]) (auto simp: loaded_def)
qed

theorem ddl_refines_witness:
  "\<exists>st t' st'. loaded ddl_store map_of (ascii ''t'') (ddl_table [ddl_columns ! 0] []) st \<and>
    fst (run_all (run_ddl ddl_store (ascii ''t'')) ddl_steps st) = [Ok (), Err (DuplicateIndex (ascii ''i'')), Ok (), Ok ()] \<and>
    table ddl_store (ascii ''t'') (snd (run_all (run_ddl ddl_store (ascii ''t'')) ddl_steps st)) = (Ok (Some t'), st') \<and>
    same_table t' (ddl_table [ddl_columns ! 1] [ddl_metas ! 1])"
proof -
  have laws: "rocks_laws (rocks ddl_store) map_of" by (simp add: ddl_store_def rocks_laws_list)
  obtain st where st: "loaded ddl_store map_of (ascii ''t'') (ddl_table [ddl_columns ! 0] []) st" using ddl_state by blast
  from ddl_refines [OF laws st ddl_steps_fit] st show ?thesis unfolding ddl_steps_spec fst_conv snd_conv by blast
qed

theorem drop_table_gone_witness:
  "\<exists>st st'. loaded ddl_store map_of (ascii ''t'') (ddl_table [ddl_columns ! 0] []) st \<and>
    drop_table ddl_store (ascii ''t'') False st = (Ok (), st') \<and> fst (table ddl_store (ascii ''t'') st') = Ok None \<and>
    loaded ddl_store map_of (ascii ''tt'') other_table st'"
proof -
  have laws: "rocks_laws (rocks ddl_store) map_of" by (simp add: ddl_store_def rocks_laws_list)
  obtain st where st: "loaded ddl_store map_of (ascii ''t'') (ddl_table [ddl_columns ! 0] []) st"
    "loaded ddl_store map_of (ascii ''tt'') other_table st" using ddl_state by blast
  have "hash_apart ddl_store (ascii ''t'') (ascii ''tt'')" by (simp add: hash_apart_def ddl_hashes ROOT_BYTES_def HASH_BYTES_def)
  with drop_table_gone [OF laws st(1), of False] st show ?thesis by blast
qed

end
