(* ===== verification/Spec2Isabelle.thy ===== *)
theory Spec2Isabelle
  imports Index_Scan Table_Changes
begin

text \<open>
  A verification development of KiteSQL (\<open>src/src\<close>), an embedded SQL database over RocksDB.

  \<^bold>\<open>The program.\<close> A statement is parsed, bound to an expression and a plan, rewritten by the optimizer and run by
  executors, which read and write rows through a transaction. The transaction stores everything in one ordered
  key space: \<open>storage/table_codec.rs\<close> builds the keys, \<open>types/value.rs\<close> and \<open>types/tuple.rs\<close> the bytes of values
  and rows, \<open>storage/mod.rs\<close> the tables, indexes and scans, and \<open>storage/rocksdb.rs\<close> the range scans of
  the store. Conditions on indexed columns become ranges (\<open>expression/range_detacher.rs\<close>) that an index scan
  reads. Catalogues, views and statistics are kept in LRU caches (\<open>utils/lru.rs\<close>).

  \<^bold>\<open>Values and types.\<close> \<open>Logical_Type\<close> has the types, implicit casts and numeric promotion (\<open>types/mod.rs\<close>);
  \<open>Data_Value\<close> the values with their equality, order and hash; \<open>Value_Ops\<close> length checks and time packing;
  \<open>Ieee_Float\<close> the floating-point arithmetic; \<open>Cast\<close> the casts (\<open>types/value.rs\<close>). The theorems show that the
  order is a total preorder on each type and agrees with equality and hash, and that casts return values of the
  target type.

  \<^bold>\<open>Bytes.\<close> \<open>Raw_Codec\<close> and \<open>Tuple_Codec\<close> are the stored form of values and rows, with the round trips;
  \<open>Memcomparable\<close> the keys, which sort like the values; \<open>Table_Codec\<close> the layout of the key space: regions of
  rows, indexes and catalogue entries are disjoint, row keys are injective and sort like primary keys.

  \<^bold>\<open>Expressions.\<close> \<open>Evaluator\<close> has the evaluators of \<open>types/evaluator\<close>, \<open>Expression\<close> the expression tree and its
  passes, \<open>Expression_Eval\<close> its evaluation and the functions, and \<open>Expression_Typing\<close> the soundness of binding:
  a bound expression evaluates on every row of its schema to NULL or a value of its type.

  \<^bold>\<open>Ranges and caches.\<close> \<open>Range_Algebra\<close> has intersection and union of ranges and the ranges of composite
  indexes; \<open>Lru_Cache\<close> the doubly linked cache over an explicit heap of nodes, which refines a list of entries by
  recency, and the sharded cache.

  \<^bold>\<open>Storage.\<close> \<open>Table_Catalog\<close> has columns, tables and index descriptions (\<open>catalog/table.rs\<close>); \<open>Rocks_Store\<close> the
  range scans of \<open>storage/rocksdb.rs\<close>; \<open>Storage\<close> the operations of a transaction on a state of store and caches;
  \<open>Row_Store\<close> the sequential scan, with the theorem that a table is a map from primary keys to rows;
  \<open>Index_Scan\<close> the scans through an index. \<open>Table_Store\<close> has the operations on tables, columns, indexes and views, and
  the cache as a map from which entries may disappear; \<open>Table_Changes\<close> shows that a sequence of changes of a
  table is a sequence of changes of one catalogue value, whether the cache holds the table or not, and that
  dropping a table removes its keys and no other. New columns must have greater ids than the old ones and index ids
  stay below 256 (\<open>ddl_fits\<close>): beyond that a reload finds the entries in another order. Creating a table and the
  views have definitions; of them only the name entry that \<open>drop_view\<close> removes is the subject of a lemma.

  \<^bold>\<open>Parameters.\<close> Code outside the repository is an argument of the definitions: the records \<open>crates\<close>,
  \<open>eval_crates\<close>, \<open>cast_crates\<close> and \<open>env\<close> hold rust_decimal, chrono, regex and ordered_float; \<open>rocks\<close> is RocksDB with
  the laws \<open>rocks_laws\<close> (a map, iterated in key order); \<open>store_env\<close> adds SipHash, bincode and the serializers of catalogue
  entries. Each is instantiated by a concrete function for the witnesses (\<open>sample_store\<close>, the samples it
  is made of, and \<open>ddl_store\<close>).

  \<^bold>\<open>Errors, panics and loops.\<close> Results are values of \<open>res\<close>; a panic is the error \<open>Panic\<close>, also that of a debug
  assertion, and code reached through \<open>unreachable_unchecked\<close> is \<open>Undefined\<close>. Loops are functions with a termination
  proof, apart from the merge of range lists, which takes fuel: one unit per call, and enough fuel for the
  lists of the theorems is part of their statement, since the code does not return on some lists.

  \<^bold>\<open>Not modelled.\<close> The parser is an external crate, and the binder works on its syntax tree; the plans and the optimizer
  are left out with it. The network server, the benchmarks and the tests use the database.
  Concurrency is not modelled: a transaction is a sequence of operations.
\<close>

end
